(* ===== verification/Prelude.thy ===== *)
theory Prelude
  imports Main "HOL-Library.Word"
begin

section \<open>Prelude: Go values, errors, panics and the state monad of the model\<close>

text \<open>
  What every component of the model shares: the machine types of the code, the errors
  it returns, the panics it raises, a result type that keeps the three outcomes of a Go
  function apart (a value, a returned error, a panic), and a small state monad in which
  a function that mutates its receiver is written as a function from the state to an
  outcome and the new state. The state survives an error and a panic, as the mutations
  of the code do.

  The collection \<open>go_simps\<close> unfolds the monad; \<open>keeps_intro\<close> holds the rules that
  derive an invariant of a composed operation from its parts, and \<open>sim_intro\<close> those that
  derive a simulation.
\<close>

named_theorems go_simps "unfolding rules of the state monad"
named_theorems keeps_intro "introduction rules for invariants of operations"
named_theorems sim_intro "introduction rules for simulations between operations"

subsection \<open>Machine types\<close>

text \<open>A Go \<^verbatim>\<open>int\<close> is 64 bits wide; \<open>sint\<close> reads it as two's complement.\<close>

type_synonym byte = "8 word"
type_synonym bytes = "8 word list"
type_synonym u32 = "32 word"
type_synonym u64 = "64 word"
type_synonym goint = "64 word"
type_synonym hash = "8 word list"

subsection \<open>Panics and errors\<close>

text \<open>
  \<open>NoReturn\<close> stands for a loop that never ends, \<open>Exit\<close> for a fatal log message, which ends the
  program, \<open>Blocked\<close> for a wait until another goroutine
  makes room in a channel.
\<close>

datatype panic =
    IndexOutOfRange
  | TypeAssertion
  | NilDereference
  | MakeSliceLen
  | SliceBounds
  | ExplicitPanic
  | NoReturn
  | Blocked
  | Exit

text \<open>
  One constructor for each error the code builds, with the values the message prints; a
  constructor with an error argument is a wrap (\<^verbatim>\<open>%w\<close> in the format).
\<close>

datatype goerror =
    StackOverflow
  | StackEmpty
  | ReadOutOfRange int int
  | KeyMissing bytes
  | VmRun goerror
  | ListIndex int int
  | HexInvalidByte char
  | HexOddLength
  | EncodeError
  | DecodeError
  | SignError
  | StoreKeyMissing
  | TxNoSignature
  | TxBadSignature
  | BlockNoSignature
  | BlockBadSignature
  | BlockTx nat goerror
  | BadDataHash string string
  | HeaderExists int
  | HeaderOutOfRange u32 u32
  | HeaderMissing string
  | GenesisOnNonEmptyChain
  | BlockExists u32 hash
  | OutOfSync goint
  | BadPreviousHash string hash
  | InvalidBlock goerror
  | AddBlockVm string goerror
  | PoolFull
  | NilData
  | InvalidMessageType byte
  | GhostConnection string
  | UnknownRequestor string
  | UnknownPeer string
  | InvalidDecodedMessage
  | DecodeRpc goerror
  | HandleRpc goerror
  | HandleApiTx goerror
  | ConnectFailed string string
  | AtoiError string
  | ReadError
  | ListenError string
  | DialError string
  | WriteError
  | CorruptWrite nat nat

text \<open>The outcome of a Go call that returns a value and an error.\<close>

datatype 'a result = Ok 'a | Err goerror | Panic panic

primrec map_error :: "(goerror \<Rightarrow> goerror) \<Rightarrow> 'a result \<Rightarrow> 'a result" where
  "map_error f (Ok a) = Ok a"
| "map_error f (Err e) = Err (f e)"
| "map_error f (Panic p) = Panic p"

primrec bind_result :: "'a result \<Rightarrow> ('a \<Rightarrow> 'b result) \<Rightarrow> 'b result" where
  "bind_result (Ok a) f = f a"
| "bind_result (Err e) f = Err e"
| "bind_result (Panic p) f = Panic p"

lemma bind_result_Ok_iff [simp]:
  "bind_result r f = Ok b \<longleftrightarrow> (\<exists>a. r = Ok a \<and> f a = Ok b)"
  by (cases r) auto

lemma map_error_Ok_iff [simp]: "map_error f r = Ok a \<longleftrightarrow> r = Ok a"
  by (cases r) auto

text \<open>
  Indexing a slice or an array: a panic outside the range. The index is the code's signed
  integer.
\<close>

definition go_index :: "'a list \<Rightarrow> int \<Rightarrow> 'a result" where
  "go_index xs i =
     (if 0 \<le> i \<and> i < int (length xs) then Ok (xs ! nat i) else Panic IndexOutOfRange)"

lemma go_index_Ok [simp]: "i < length xs \<Longrightarrow> go_index xs (int i) = Ok (xs ! i)"
  by (simp add: go_index_def)

lemma go_index_neg [simp]: "i < 0 \<Longrightarrow> go_index xs i = Panic IndexOutOfRange"
  by (simp add: go_index_def)

lemma go_index_ge [simp]: "int (length xs) \<le> i \<Longrightarrow> go_index xs i = Panic IndexOutOfRange"
  by (simp add: go_index_def)

text \<open>Assigning to an element of a slice.\<close>

definition go_set :: "'a list \<Rightarrow> int \<Rightarrow> 'a \<Rightarrow> 'a list result" where
  "go_set xs i v =
     (if 0 \<le> i \<and> i < int (length xs) then Ok (xs[nat i := v]) else Panic IndexOutOfRange)"

lemma go_set_Ok [simp]: "i < length xs \<Longrightarrow> go_set xs (int i) v = Ok (xs[i := v])"
  by (simp add: go_set_def)

lemma go_set_Ok_iff: "go_set xs i v = Ok ys \<longleftrightarrow> 0 \<le> i \<and> i < int (length xs) \<and> ys = xs[nat i := v]"
  by (auto simp: go_set_def)

subsection \<open>The state monad\<close>

type_synonym ('s, 'a) go = "'s \<Rightarrow> 'a result \<times> 's"

definition sret :: "'a \<Rightarrow> ('s, 'a) go" where
  "sret a = (\<lambda>s. (Ok a, s))"

definition sfail :: "goerror \<Rightarrow> ('s, 'a) go" where
  "sfail e = (\<lambda>s. (Err e, s))"

definition spanic :: "panic \<Rightarrow> ('s, 'a) go" where
  "spanic p = (\<lambda>s. (Panic p, s))"

definition sget :: "('s \<Rightarrow> 'a) \<Rightarrow> ('s, 'a) go" where
  "sget f = (\<lambda>s. (Ok (f s), s))"

definition smodify :: "('s \<Rightarrow> 's) \<Rightarrow> ('s, unit) go" where
  "smodify f = (\<lambda>s. (Ok (), f s))"

text \<open>A computation that reads the state and may fail, without changing it.\<close>

definition sread :: "('s \<Rightarrow> 'a result) \<Rightarrow> ('s, 'a) go" where
  "sread f = (\<lambda>s. (f s, s))"

definition sbind :: "('s, 'a) go \<Rightarrow> ('a \<Rightarrow> ('s, 'b) go) \<Rightarrow> ('s, 'b) go" where
  "sbind m f = (\<lambda>s. case m s of
       (Ok a, s') \<Rightarrow> f a s'
     | (Err e, s') \<Rightarrow> (Err e, s')
     | (Panic p, s') \<Rightarrow> (Panic p, s'))"

text \<open>\<^verbatim>\<open>return fmt.Errorf("... %w", err)\<close>: the error is wrapped, a panic passes.\<close>

definition swrap :: "(goerror \<Rightarrow> goerror) \<Rightarrow> ('s, 'a) go \<Rightarrow> ('s, 'a) go" where
  "swrap f m = (\<lambda>s. let (r, s') = m s in (map_error f r, s'))"

text \<open>Run an operation of a component that is a field of a larger state.\<close>

definition szoom :: "('s \<Rightarrow> 't) \<Rightarrow> ('t \<Rightarrow> 's \<Rightarrow> 's) \<Rightarrow> ('t, 'a) go \<Rightarrow> ('s, 'a) go" where
  "szoom get put m = (\<lambda>s. let (r, t) = m (get s) in (r, put t s))"

text \<open>A \<^verbatim>\<open>range\<close> loop whose body returns from the function on an error.\<close>

primrec sfor :: "'a list \<Rightarrow> ('a \<Rightarrow> ('s, unit) go) \<Rightarrow> ('s, unit) go" where
  "sfor [] f = sret ()"
| "sfor (x # xs) f = sbind (f x) (\<lambda>_. sfor xs f)"

lemma sret_apply [go_simps]: "sret a s = (Ok a, s)"
  by (simp add: sret_def)

lemma sfail_apply [go_simps]: "sfail e s = (Err e, s)"
  by (simp add: sfail_def)

lemma spanic_apply [go_simps]: "spanic p s = (Panic p, s)"
  by (simp add: spanic_def)

lemma sget_apply [go_simps]: "sget f s = (Ok (f s), s)"
  by (simp add: sget_def)

lemma smodify_apply [go_simps]: "smodify f s = (Ok (), f s)"
  by (simp add: smodify_def)

lemma sread_apply [go_simps]: "sread f s = (f s, s)"
  by (simp add: sread_def)

lemma sbind_Ok [go_simps]: "m s = (Ok a, s') \<Longrightarrow> sbind m f s = f a s'"
  by (simp add: sbind_def)

lemma sbind_Err [go_simps]: "m s = (Err e, s') \<Longrightarrow> sbind m f s = (Err e, s')"
  by (simp add: sbind_def)

lemma sbind_Panic [go_simps]: "m s = (Panic p, s') \<Longrightarrow> sbind m f s = (Panic p, s')"
  by (simp add: sbind_def)

lemma swrap_apply [go_simps]: "m s = (r, s') \<Longrightarrow> swrap f m s = (map_error f r, s')"
  by (simp add: swrap_def)

lemma szoom_apply [go_simps]: "m (get s) = (r, t) \<Longrightarrow> szoom get put m s = (r, put t s)"
  by (simp add: szoom_def)

lemma sbind_Ok_iff:
  "sbind m f s = (Ok b, t) \<longleftrightarrow> (\<exists>a s'. m s = (Ok a, s') \<and> f a s' = (Ok b, t))"
  by (auto simp: sbind_def split: prod.splits result.splits)

lemma sfor_append: "sfor (xs @ ys) f s = sbind (sfor xs f) (\<lambda>_. sfor ys f) s"
  by (induction xs arbitrary: s)
     (auto simp: go_simps sbind_def split: prod.splits result.splits)

subsection \<open>Invariants of operations\<close>

definition keeps :: "('s \<Rightarrow> bool) \<Rightarrow> ('s, 'a) go \<Rightarrow> bool" where
  "keeps I m \<longleftrightarrow> (\<forall>s. I s \<longrightarrow> I (snd (m s)))"

lemma keepsD: "keeps I m \<Longrightarrow> I s \<Longrightarrow> m s = (r, s') \<Longrightarrow> I s'"
  by (force simp: keeps_def)

lemma keepsI: "(\<And>s r s'. I s \<Longrightarrow> m s = (r, s') \<Longrightarrow> I s') \<Longrightarrow> keeps I m"
  by (metis keeps_def surjective_pairing)

lemma keeps_sret [keeps_intro]: "keeps I (sret a)"
  by (simp add: keeps_def sret_def)

lemma keeps_sfail [keeps_intro]: "keeps I (sfail e)"
  by (simp add: keeps_def sfail_def)

lemma keeps_spanic [keeps_intro]: "keeps I (spanic p)"
  by (simp add: keeps_def spanic_def)

lemma keeps_sget [keeps_intro]: "keeps I (sget f)"
  by (simp add: keeps_def sget_def)

lemma keeps_sread [keeps_intro]: "keeps I (sread f)"
  by (simp add: keeps_def sread_def)

lemma keeps_sbind [keeps_intro]:
  "keeps I m \<Longrightarrow> (\<And>a. keeps I (f a)) \<Longrightarrow> keeps I (sbind m f)"
  by (fastforce simp: keeps_def sbind_def split: prod.split result.split)

lemma keeps_swrap [keeps_intro]: "keeps I m \<Longrightarrow> keeps I (swrap f m)"
  by (fastforce simp: keeps_def swrap_def split: prod.split)

lemma keeps_szoom [keeps_intro]:
  "(\<And>x s. I s \<Longrightarrow> I (put x s)) \<Longrightarrow> keeps I (szoom get put m)"
  by (simp add: keeps_def szoom_def split: prod.split)

lemma keeps_smodify [keeps_intro]: "(\<And>s. I s \<Longrightarrow> I (f s)) \<Longrightarrow> keeps I (smodify f)"
  by (simp add: keeps_def smodify_def)

lemma keeps_if [keeps_intro]: "(b \<Longrightarrow> keeps I m) \<Longrightarrow> (\<not> b \<Longrightarrow> keeps I n) \<Longrightarrow> keeps I (if b then m else n)"
  by simp

lemma keeps_sfor [keeps_intro]: "(\<And>x. keeps I (f x)) \<Longrightarrow> keeps I (sfor xs f)"
  by (induction xs) (auto intro: keeps_intro)

subsection \<open>Simulations between operations\<close>

text \<open>
  \<open>sim R m m'\<close>: from related states the two operations have the same outcome and end in
  related states.
\<close>

definition sim :: "('s \<Rightarrow> 't \<Rightarrow> bool) \<Rightarrow> ('s, 'a) go \<Rightarrow> ('t, 'a) go \<Rightarrow> bool" where
  "sim R m m' \<longleftrightarrow>
     (\<forall>s t. R s t \<longrightarrow> fst (m s) = fst (m' t) \<and> R (snd (m s)) (snd (m' t)))"

lemma simI:
  "(\<And>s t. R s t \<Longrightarrow> \<exists>r s' t'. m s = (r, s') \<and> m' t = (r, t') \<and> R s' t') \<Longrightarrow> sim R m m'"
  unfolding sim_def by (metis fst_conv snd_conv)

lemma simE:
  assumes "sim R m m'" "R s t"
  obtains r s' t' where "m s = (r, s')" "m' t = (r, t')" "R s' t'"
  using assms unfolding sim_def by (metis surjective_pairing)

lemma sim_sret [sim_intro]: "sim R (sret a) (sret a)"
  by (simp add: sim_def sret_def)

lemma sim_sfail [sim_intro]: "sim R (sfail e) (sfail e)"
  by (simp add: sim_def sfail_def)

lemma sim_spanic [sim_intro]: "sim R (spanic p) (spanic p)"
  by (simp add: sim_def spanic_def)

lemma sim_sread [sim_intro]: "(\<And>s t. R s t \<Longrightarrow> f s = g t) \<Longrightarrow> sim R (sread f) (sread g)"
  by (simp add: sim_def sread_def)

lemma sim_smodify [sim_intro]:
  "(\<And>s t. R s t \<Longrightarrow> R (f s) (g t)) \<Longrightarrow> sim R (smodify f) (smodify g)"
  by (simp add: sim_def smodify_def)

lemma sim_sbind [sim_intro]:
  assumes "sim R m m'" and "\<And>a. sim R (f a) (f' a)"
  shows "sim R (sbind m f) (sbind m' f')"
proof (rule simI)
  fix s t
  assume "R s t"
  with assms(1) obtain r s1 t1 where 1: "m s = (r, s1)" "m' t = (r, t1)" "R s1 t1"
    by (rule simE)
  show "\<exists>r s' t'. sbind m f s = (r, s') \<and> sbind m' f' t = (r, t') \<and> R s' t'"
  proof (cases r)
    case (Ok a)
    from assms(2) [of a] 1(3) show ?thesis
      using 1 Ok by (auto elim: simE simp: go_simps)
  qed (use 1 in \<open>simp_all add: go_simps\<close>)
qed

lemma sim_szoom [sim_intro]:
  assumes "sim Q m m'"
    and "\<And>s t. R s t \<Longrightarrow> Q (get s) (get' t)"
    and "\<And>s t x y. R s t \<Longrightarrow> Q x y \<Longrightarrow> R (put x s) (put' y t)"
  shows "sim R (szoom get put m) (szoom get' put' m')"
proof (rule simI)
  fix s t
  assume r: "R s t"
  from assms(1) assms(2) [OF r] obtain a x y where
    "m (get s) = (a, x)" "m' (get' t) = (a, y)" "Q x y" by (rule simE)
  with assms(3) [OF r] show "\<exists>r s' t'. szoom get put m s = (r, s') \<and>
      szoom get' put' m' t = (r, t') \<and> R s' t'"
    by (auto simp: szoom_def)
qed

lemma sim_swrap [sim_intro]: "sim R m m' \<Longrightarrow> sim R (swrap f m) (swrap f m')"
  by (auto simp: sim_def swrap_def split: prod.split) (metis fst_conv snd_conv)+

lemma sim_if [sim_intro]:
  "(b \<Longrightarrow> sim R m m') \<Longrightarrow> (\<not> b \<Longrightarrow> sim R n n') \<Longrightarrow>
   sim R (if b then m else n) (if b then m' else n')"
  by simp

end
