(* ===== verification/Vm_Stack.thy ===== *)
theory Vm_Stack
  imports Prelude
begin

section \<open>The bounded stack of the virtual machine\<close>

text \<open>
  Models \<^verbatim>\<open>vm/stack.go\<close>. The code keeps a slice \<^verbatim>\<open>data\<close> allocated once at the depth of
  the stack and a write position \<^verbatim>\<open>ptr\<close>; a popped slot keeps its old content. The
  record has the same fields (the lock is left out: every operation runs under it). The
  interface \<open>bounded_stack\<close> states what the machine relies on, over an abstraction to a
  list with the top first; the code's operations are an interpretation of it.
\<close>

subsection \<open>The data structure and its operations\<close>

record 'a stack =
  stk_data :: "'a list"
  stk_ptr :: int
  stk_depth :: int

definition MaxStack :: "int \<Rightarrow> 'a stack \<Rightarrow> 'a stack" where
  "MaxStack mx s = s\<lparr>stk_depth := mx\<rparr>"

text \<open>\<open>nil\<close> is the zero value of the element type, which \<^verbatim>\<open>make\<close> fills the slice with.\<close>

definition NewStack :: "'a \<Rightarrow> ('a stack \<Rightarrow> 'a stack) list \<Rightarrow> 'a stack result" where
  "NewStack nil opts =
     (let s = fold (\<lambda>opt s. opt s) opts \<lparr>stk_data = [], stk_ptr = 0, stk_depth = 1024\<rparr>
      in if stk_depth s < 0 then Panic MakeSliceLen
         else Ok (s\<lparr>stk_data := replicate (nat (stk_depth s)) nil\<rparr>))"

definition Stack_Push :: "'a \<Rightarrow> ('a stack, unit) go" where
  "Stack_Push b = (\<lambda>s.
     if stk_ptr s = stk_depth s then (Err StackOverflow, s)
     else case go_set (stk_data s) (stk_ptr s) b of
            Ok d \<Rightarrow> (Ok (), s\<lparr>stk_data := d, stk_ptr := stk_ptr s + 1\<rparr>)
          | Err e \<Rightarrow> (Err e, s)
          | Panic p \<Rightarrow> (Panic p, s))"

definition Stack_Empty :: "'a stack \<Rightarrow> bool" where
  "Stack_Empty s \<longleftrightarrow> stk_ptr s = 0"

definition Stack_Pop :: "('a stack, 'a) go" where
  "Stack_Pop = (\<lambda>s.
     if Stack_Empty s then (Err StackEmpty, s)
     else case go_index (stk_data s) (stk_ptr s - 1) of
            Ok b \<Rightarrow> (Ok b, s\<lparr>stk_ptr := stk_ptr s - 1\<rparr>)
          | Err e \<Rightarrow> (Err e, s)
          | Panic p \<Rightarrow> (Panic p, s))"

definition Stack_Len :: "'a stack \<Rightarrow> int" where
  "Stack_Len s = stk_ptr s"

definition Stack_read :: "'a stack \<Rightarrow> int \<Rightarrow> 'a result" where
  "Stack_read s pos =
     (if pos \<ge> Stack_Len s \<or> pos < 0 then Err (ReadOutOfRange (Stack_Len s) pos)
      else go_index (stk_data s) pos)"

definition Stack_Peek :: "'a stack \<Rightarrow> 'a result" where
  "Stack_Peek s = Stack_read s (Stack_Len s - 1)"

subsection \<open>The interface\<close>

text \<open>
  Bounded lists as the specification of a stack, and the loop that pops a number of
  elements, written over any pop operation.
\<close>

definition list_push :: "nat \<Rightarrow> 'a \<Rightarrow> ('a list, unit) go" where
  "list_push c a = (\<lambda>xs. if length xs = c then (Err StackOverflow, xs) else (Ok (), a # xs))"

definition list_pop :: "('a list, 'a) go" where
  "list_pop = (\<lambda>xs. case xs of [] \<Rightarrow> (Err StackEmpty, []) | a # as \<Rightarrow> (Ok a, as))"

primrec pop_many :: "('s, 'a) go \<Rightarrow> nat \<Rightarrow> ('s, 'a list) go" where
  "pop_many pop 0 = sret []"
| "pop_many pop (Suc n) = sbind pop (\<lambda>a. sbind (pop_many pop n) (\<lambda>as. sret (a # as)))"

lemma pop_many_list:
  "n \<le> length xs \<Longrightarrow> pop_many list_pop n xs = (Ok (take n xs), drop n xs)"
proof (induction n arbitrary: xs)
  case (Suc n)
  then show ?case
    by (cases xs) (auto simp: go_simps list_pop_def sbind_def)
qed (simp add: go_simps)

locale bounded_stack =
  fixes push :: "'a \<Rightarrow> ('s, unit) go"
    and pop :: "('s, 'a) go"
    and elems :: "'s \<Rightarrow> 'a list"
    and capacity :: "'s \<Rightarrow> nat"
    and valid :: "'s \<Rightarrow> bool"
  assumes bound: "valid s \<Longrightarrow> length (elems s) \<le> capacity s"
    and push_ok: "valid s \<Longrightarrow> length (elems s) < capacity s \<Longrightarrow>
      \<exists>t. push a s = (Ok (), t) \<and> valid t \<and> capacity t = capacity s \<and> elems t = a # elems s"
    and push_full: "valid s \<Longrightarrow> length (elems s) = capacity s \<Longrightarrow> push a s = (Err StackOverflow, s)"
    and pop_ok: "valid s \<Longrightarrow> elems s = a # as \<Longrightarrow>
      \<exists>t. pop s = (Ok a, t) \<and> valid t \<and> capacity t = capacity s \<and> elems t = as"
    and pop_empty: "valid s \<Longrightarrow> elems s = [] \<Longrightarrow> pop s = (Err StackEmpty, s)"
begin

definition rep :: "nat \<Rightarrow> 's \<Rightarrow> 'a list \<Rightarrow> bool" where
  "rep c s xs \<longleftrightarrow> valid s \<and> capacity s = c \<and> elems s = xs"

lemma rep_bound: "rep c s xs \<Longrightarrow> length xs \<le> c"
  using bound by (auto simp: rep_def)

lemma sim_push: "sim (rep c) (push a) (list_push c a)"
proof (rule simI)
  fix s xs
  assume r: "rep c s xs"
  show "\<exists>r s' t'. push a s = (r, s') \<and> list_push c a xs = (r, t') \<and> rep c s' t'"
  proof (cases "length xs = c")
    case True
    with r show ?thesis by (auto simp: rep_def list_push_def push_full)
  next
    case False
    with r rep_bound [OF r] have "valid s" "length (elems s) < capacity s"
      by (auto simp: rep_def)
    from push_ok [OF this, of a] r False show ?thesis
      by (auto simp: rep_def list_push_def)
  qed
qed

lemma sim_pop: "sim (rep c) pop list_pop"
proof (rule simI)
  fix s xs
  assume r: "rep c s xs"
  then show "\<exists>r s' t'. pop s = (r, s') \<and> list_pop xs = (r, t') \<and> rep c s' t'"
    using pop_ok [of s] by (cases xs) (auto simp: rep_def list_pop_def pop_empty)
qed

lemma sim_pop_many: "sim (rep c) (pop_many pop n) (pop_many list_pop n)"
  by (induction n) (auto intro: sim_intro sim_pop)

lemma push_pop:
  assumes "valid s" "length (elems s) < capacity s"
  shows "\<exists>t. sbind (push a) (\<lambda>_. pop) s = (Ok a, t) \<and> valid t \<and> capacity t = capacity s
           \<and> elems t = elems s"
proof -
  from push_ok [OF assms, of a] obtain t where
    t: "push a s = (Ok (), t)" "valid t" "capacity t = capacity s" "elems t = a # elems s"
    by blast
  from pop_ok [OF t(2,4)] t show ?thesis by (auto simp: go_simps)
qed

lemma pop_many_ok:
  assumes "valid s" "n \<le> length (elems s)"
  shows "\<exists>t. pop_many pop n s = (Ok (take n (elems s)), t) \<and> valid t \<and> capacity t = capacity s
           \<and> elems t = drop n (elems s)"
proof -
  have "rep (capacity s) s (elems s)" using assms(1) by (simp add: rep_def)
  with sim_pop_many obtain r t xs where
    "pop_many pop n s = (r, t)" "pop_many list_pop n (elems s) = (r, xs)" "rep (capacity s) t xs"
    by (rule simE)
  with pop_many_list [OF assms(2)] show ?thesis by (auto simp: rep_def)
qed

end

subsection \<open>The code's stack implements the interface\<close>

definition stack_valid :: "'a stack \<Rightarrow> bool" where
  "stack_valid s \<longleftrightarrow>
     0 \<le> stk_ptr s \<and> stk_ptr s \<le> stk_depth s \<and> int (length (stk_data s)) = stk_depth s"

definition stack_elems :: "'a stack \<Rightarrow> 'a list" where
  "stack_elems s = rev (take (nat (stk_ptr s)) (stk_data s))"

definition stack_capacity :: "'a stack \<Rightarrow> nat" where
  "stack_capacity s = nat (stk_depth s)"

lemma length_stack_elems [simp]: "stack_valid s \<Longrightarrow> length (stack_elems s) = nat (stk_ptr s)"
  by (auto simp: stack_valid_def stack_elems_def)

lemma NewStack_default:
  "NewStack nil [] = Ok \<lparr>stk_data = replicate 1024 nil, stk_ptr = 0, stk_depth = 1024\<rparr>"
  by (simp add: NewStack_def)

lemma NewStack_valid:
  assumes "NewStack nil opts = Ok s" "fold (\<lambda>opt s. opt s) opts
     \<lparr>stk_data = [], stk_ptr = 0, stk_depth = 1024\<rparr> = s0" "stk_ptr s0 = 0"
  shows "stack_valid s \<and> stack_elems s = []"
  using assms by (auto simp: NewStack_def stack_valid_def stack_elems_def Let_def split: if_splits)

interpretation vmstk: bounded_stack Stack_Push Stack_Pop stack_elems stack_capacity stack_valid
proof
  fix s :: "'a stack" and a as
  show "stack_valid s \<Longrightarrow> length (stack_elems s) \<le> stack_capacity s"
    by (auto simp: stack_valid_def stack_capacity_def stack_elems_def)
  show "\<exists>t. Stack_Push a s = (Ok (), t) \<and> stack_valid t \<and> stack_capacity t = stack_capacity s
          \<and> stack_elems t = a # stack_elems s"
    if v: "stack_valid s" and l: "length (stack_elems s) < stack_capacity s"
  proof -
    from v l have lt: "stk_ptr s < stk_depth s"
      by (auto simp: stack_capacity_def)
    moreover have "nat (stk_ptr s + 1) = Suc (nat (stk_ptr s))"
      using v by (simp add: stack_valid_def nat_add_distrib)
    ultimately show ?thesis using v
      by (auto simp: stack_valid_def Stack_Push_def go_set_def stack_capacity_def
          stack_elems_def take_Suc_conv_app_nth)
  qed
  show "stack_valid s \<Longrightarrow> length (stack_elems s) = stack_capacity s \<Longrightarrow>
      Stack_Push a s = (Err StackOverflow, s)"
    by (auto simp: stack_valid_def stack_capacity_def stack_elems_def Stack_Push_def)
  show "\<exists>t. Stack_Pop s = (Ok a, t) \<and> stack_valid t \<and> stack_capacity t = stack_capacity s
          \<and> stack_elems t = as"
    if v: "stack_valid s" and e: "stack_elems s = a # as"
  proof -
    obtain n where n: "nat (stk_ptr s) = Suc n"
      using v e length_stack_elems [OF v] by (cases "nat (stk_ptr s)") auto
    then have p: "stk_ptr s = int n + 1" by linarith
    with v have "n < length (stk_data s)" by (auto simp: stack_valid_def)
    with e n p have "a = stk_data s ! n" "as = rev (take n (stk_data s))"
      by (simp_all add: stack_elems_def take_Suc_conv_app_nth)
    with v p \<open>n < length (stk_data s)\<close> show ?thesis
      by (auto simp: Stack_Pop_def Stack_Empty_def stack_valid_def stack_capacity_def stack_elems_def)
  qed
  show "stack_valid s \<Longrightarrow> stack_elems s = [] \<Longrightarrow> Stack_Pop s = (Err StackEmpty, s)"
    by (auto simp: Stack_Pop_def Stack_Empty_def stack_elems_def stack_valid_def)
qed

lemma Stack_Peek_valid:
  assumes "stack_valid s"
  shows "Stack_Peek s = (case stack_elems s of [] \<Rightarrow> Err (ReadOutOfRange 0 (- 1)) | a # _ \<Rightarrow> Ok a)"
proof (cases "stack_elems s")
  case Nil
  with assms have "stk_ptr s = 0" by (auto simp: stack_elems_def stack_valid_def)
  with Nil show ?thesis by (simp add: Stack_Peek_def Stack_read_def Stack_Len_def)
next
  case (Cons a as)
  then have "\<exists>t. Stack_Pop s = (Ok a, t)" using vmstk.pop_ok [OF assms Cons] by blast
  with assms have "go_index (stk_data s) (stk_ptr s - 1) = Ok a" "0 < stk_ptr s"
    by (auto simp: Stack_Pop_def Stack_Empty_def stack_valid_def split: if_splits result.splits)
  with Cons show ?thesis by (simp add: Stack_Peek_def Stack_read_def Stack_Len_def)
qed

end
