(* ===== verification/Vm_State.thy ===== *)
theory Vm_State
  imports Prelude
begin

section \<open>Key-value stores and the contract state\<close>

text \<open>
  Models \<^verbatim>\<open>vm/state.go\<close>. The contract state is a Go map; \<open>kv_store\<close> is the interface
  that its \<^verbatim>\<open>Put\<close> and \<^verbatim>\<open>Get\<close> share with the in-memory block store of
  \<^verbatim>\<open>core/storage.go\<close>, and \<open>kv_store_delete\<close> adds \<^verbatim>\<open>Delete\<close>.
\<close>

subsection \<open>The interface\<close>

locale kv_store =
  fixes put :: "'k \<Rightarrow> 'v \<Rightarrow> ('s, unit) go"
    and get :: "'k \<Rightarrow> 's \<Rightarrow> 'v result"
    and entries :: "'s \<Rightarrow> 'k \<rightharpoonup> 'v"
    and missing :: "'k \<Rightarrow> goerror"
  assumes put_ok: "\<exists>t. put k v s = (Ok (), t) \<and> entries t = (entries s)(k \<mapsto> v)"
    and get_ok: "get k s = (case entries s k of Some v \<Rightarrow> Ok v | None \<Rightarrow> Err (missing k))"
begin

lemma get_after_put:
  "put k v s = (r, t) \<Longrightarrow> get k' t = (if k' = k then Ok v else get k' s)"
  using put_ok [of k v s] by (auto simp: get_ok)

lemma put_all:
  "\<exists>t. sfor kvs (\<lambda>(k, v). put k v) s = (Ok (), t) \<and> entries t = entries s ++ map_of (rev kvs)"
proof (induction kvs arbitrary: s)
  case Nil
  then show ?case by (simp add: go_simps)
next
  case (Cons kv kvs)
  obtain k v where kv: "kv = (k, v)" by (cases kv)
  from put_ok [of k v s] obtain t1 where t1: "put k v s = (Ok (), t1)"
      "entries t1 = (entries s)(k \<mapsto> v)" by blast
  from Cons.IH [of t1] obtain t where "sfor kvs (\<lambda>(k, v). put k v) t1 = (Ok (), t)"
      "entries t = entries t1 ++ map_of (rev kvs)" by blast
  moreover have "entries t1 ++ map_of (rev kvs) = entries s ++ map_of (rev kvs @ [(k, v)])"
    by (simp add: t1 map_add_def fun_eq_iff split: option.split)
  ultimately show ?case using t1 kv by (auto simp: go_simps)
qed

lemma get_Ok_iff: "get k s = Ok v \<longleftrightarrow> entries s k = Some v"
  by (simp add: get_ok split: option.split)

end

locale kv_store_delete = kv_store put get entries missing
  for put :: "'k \<Rightarrow> 'v \<Rightarrow> ('s, unit) go"
    and get :: "'k \<Rightarrow> 's \<Rightarrow> 'v result"
    and entries :: "'s \<Rightarrow> 'k \<rightharpoonup> 'v"
    and missing :: "'k \<Rightarrow> goerror" +
  fixes delete :: "'k \<Rightarrow> ('s, unit) go"
  assumes delete_ok: "\<exists>t. delete k s = (Ok (), t) \<and> entries t = (entries s)(k := None)"
begin

lemma get_after_delete:
  "delete k s = (r, t) \<Longrightarrow> get k' t = (if k' = k then Err (missing k) else get k' s)"
  using delete_ok [of k s] by (auto simp: get_ok)

end

subsection \<open>The contract state\<close>

text \<open>The values on the stack and in the contract state (\<^verbatim>\<open>any\<close>): what the machine
  pushes. \<open>VNil\<close> is the zero value of \<^verbatim>\<open>any\<close>.\<close>

datatype val = VNil | VInt goint | VByte byte | VBytes bytes

type_synonym key = bytes

record cstate =
  cs_data :: "key \<rightharpoonup> val"

definition NewState :: cstate where
  "NewState = \<lparr>cs_data = Map.empty\<rparr>"

definition State_Put :: "key \<Rightarrow> val \<Rightarrow> (cstate, unit) go" where
  "State_Put k v = smodify (\<lambda>s. s\<lparr>cs_data := (cs_data s)(k \<mapsto> v)\<rparr>)"

definition State_Delete :: "key \<Rightarrow> (cstate, unit) go" where
  "State_Delete k = smodify (\<lambda>s. s\<lparr>cs_data := (cs_data s)(k := None)\<rparr>)"

definition State_Get :: "key \<Rightarrow> cstate \<Rightarrow> val result" where
  "State_Get k s = (case cs_data s k of None \<Rightarrow> Err (KeyMissing k) | Some v \<Rightarrow> Ok v)"

interpretation cstate_kv: kv_store_delete State_Put State_Get cs_data KeyMissing State_Delete
  by unfold_locales
     (auto simp: State_Put_def State_Get_def State_Delete_def go_simps split: option.split)

end
