(* ===== verification/Vm_Machine.thy ===== *)
theory Vm_Machine
  imports Vm_Stack Vm_State
begin

section \<open>The virtual machine\<close>

text \<open>
  Models \<^verbatim>\<open>vm/instruction.go\<close> and \<^verbatim>\<open>vm/vm.go\<close>: the instruction bytes, the machine, the
  execution of one instruction and the run loop. Operands are not skipped by the loop:
  an instruction reads the byte before it, and that byte has been executed before. The
  record \<open>vm\<close> keeps the code's fields but the logger.

  The second half is the specification: a machine on lists whose run is a recursion over
  the program, and the proof that the run loop refines it.
\<close>

subsection \<open>Instructions\<close>

named_theorems opcodes "the instruction bytes"

definition InstructionPushInt :: byte where [opcodes]: "InstructionPushInt = 0x0a"
definition InstructionAddInt :: byte where [opcodes]: "InstructionAddInt = 0x0b"
definition InstructionPushBytes :: byte where [opcodes]: "InstructionPushBytes = 0x0c"
definition InstructionPack :: byte where [opcodes]: "InstructionPack = 0x0d"
definition InstructionStore :: byte where [opcodes]: "InstructionStore = 0x0f"
definition InstructionGet :: byte where [opcodes]: "InstructionGet = 0x10"

subsection \<open>The machine\<close>

record vm =
  vm_data :: bytes
  vm_ip :: int
  vm_stack :: "val stack"
  vm_cstate :: cstate

definition ContractStateOpt :: "cstate \<Rightarrow> vm \<Rightarrow> vm" where
  "ContractStateOpt cs m = m\<lparr>vm_cstate := cs\<rparr>"

definition NewVM :: "bytes \<Rightarrow> (vm \<Rightarrow> vm) list \<Rightarrow> vm result" where
  "NewVM code opts = bind_result (NewStack VNil []) (\<lambda>st.
     Ok (fold (\<lambda>opt m. opt m) opts
       \<lparr>vm_data = code, vm_ip = 0, vm_stack = st, vm_cstate = NewState\<rparr>))"

text \<open>The stack and the contract state as parts of the machine.\<close>

abbreviation on_stack :: "(val stack, 'a) go \<Rightarrow> (vm, 'a) go" where
  "on_stack \<equiv> szoom vm_stack (\<lambda>st m. m\<lparr>vm_stack := st\<rparr>)"

abbreviation on_cstate :: "(cstate, 'a) go \<Rightarrow> (vm, 'a) go" where
  "on_cstate \<equiv> szoom vm_cstate (\<lambda>cs m. m\<lparr>vm_cstate := cs\<rparr>)"

abbreviation lift_result :: "'a result \<Rightarrow> ('s, 'a) go" where
  "lift_result r \<equiv> sread (\<lambda>_. r)"

text \<open>Type assertions on a value of type \<^verbatim>\<open>any\<close> panic when the type is another.\<close>

fun assert_int :: "val \<Rightarrow> goint result" where
  "assert_int (VInt i) = Ok i"
| "assert_int _ = Panic TypeAssertion"

fun assert_byte :: "val \<Rightarrow> byte result" where
  "assert_byte (VByte b) = Ok b"
| "assert_byte _ = Panic TypeAssertion"

fun mustBeKey :: "val \<Rightarrow> key result" where
  "mustBeKey (VBytes b) = Ok b"
| "mustBeKey _ = Panic TypeAssertion"

text \<open>
  \<^verbatim>\<open>make([]byte, l)\<close> panics for a negative length and for one above the largest
  allocation of the runtime (\<open>2 ^ 48\<close> bytes on the 64-bit platforms). Exhausted memory
  below that bound is not modelled.
\<close>

definition max_alloc :: int where
  "max_alloc = 2 ^ 48"

definition make_bytes :: "int \<Rightarrow> bytes result" where
  "make_bytes l = (if l < 0 \<or> max_alloc < l then Panic MakeSliceLen else Ok (replicate (nat l) 0))"

text \<open>The loop of the pack instruction: pop \<open>l\<close> bytes, filling \<open>data\<close> from its end.\<close>

function pack_loop :: "('s, val) go \<Rightarrow> int \<Rightarrow> int \<Rightarrow> bytes \<Rightarrow> ('s, bytes) go" where
  "pack_loop pop i l data =
     (if i < l then
        sbind pop (\<lambda>v. sbind (lift_result (assert_byte v)) (\<lambda>b.
          sbind (lift_result (go_set data (l - (i + 1)) b)) (\<lambda>data'.
            pack_loop pop (i + 1) l data')))
      else sret data)"
  by pat_completeness auto
termination
  by (relation "measure (\<lambda>(pop, i, l, data). nat (l - i))") auto

declare pack_loop.simps [simp del]

definition vm_exec :: "byte \<Rightarrow> (vm, unit) go" where
  "vm_exec inst =
    (if inst = InstructionPushInt then
       sbind (sread (\<lambda>m. go_index (vm_data m) (vm_ip m - 1))) (\<lambda>d.
         on_stack (Stack_Push (VInt (ucast d))))
     else if inst = InstructionAddInt then
       sbind (on_stack Stack_Pop) (\<lambda>a.
       sbind (on_stack Stack_Pop) (\<lambda>b.
       sbind (lift_result (assert_int a)) (\<lambda>aInt.
       sbind (lift_result (assert_int b)) (\<lambda>bInt.
         on_stack (Stack_Push (VInt (aInt + bInt)))))))
     else if inst = InstructionPushBytes then
       sbind (sread (\<lambda>m. go_index (vm_data m) (vm_ip m - 1))) (\<lambda>d.
         on_stack (Stack_Push (VByte d)))
     else if inst = InstructionPack then
       sbind (on_stack Stack_Pop) (\<lambda>v.
       sbind (lift_result (assert_int v)) (\<lambda>l.
       sbind (lift_result (make_bytes (sint l))) (\<lambda>data.
       sbind (pack_loop (on_stack Stack_Pop) 0 (sint l) data) (\<lambda>data'.
         \<lambda>m. case on_stack (Stack_Push (VBytes data')) m of
               (Panic p, m') \<Rightarrow> (Panic p, m')
             | (_, m') \<Rightarrow> (Ok (), m')))))
     else if inst = InstructionStore then
       sbind (on_stack Stack_Pop) (\<lambda>val.
       sbind (on_stack Stack_Pop) (\<lambda>key.
       sbind (lift_result (mustBeKey key)) (\<lambda>k.
         on_cstate (State_Put k val))))
     else if inst = InstructionGet then
       sbind (on_stack Stack_Pop) (\<lambda>key.
       sbind (lift_result (mustBeKey key)) (\<lambda>k.
       sbind (sread (\<lambda>m. State_Get k (vm_cstate m))) (\<lambda>val.
         on_stack (Stack_Push val))))
     else sret ())"

text \<open>An instruction moves neither the instruction pointer nor the program.\<close>

lemma keeps_pack_loop:
  "keeps I pop \<Longrightarrow> keeps I (pack_loop pop i l data)"
proof (induction pop i l data rule: pack_loop.induct)
  case (1 pop i l data)
  then show ?case
    by (subst pack_loop.simps) (auto intro!: keeps_intro)
qed

lemma keeps_ignore_error:
  "keeps I m \<Longrightarrow> keeps I (\<lambda>s. case m s of (Panic p, s') \<Rightarrow> (Panic p, s') | (_, s') \<Rightarrow> (Ok (), s'))"
  by (fastforce simp: keeps_def split: prod.split result.split)

lemma vm_exec_frame:
  assumes "vm_exec inst m = (r, m')"
  shows "vm_ip m' = vm_ip m \<and> vm_data m' = vm_data m"
proof -
  have "keeps (\<lambda>m'. vm_ip m' = vm_ip m \<and> vm_data m' = vm_data m) (vm_exec inst)"
    unfolding vm_exec_def by (auto intro!: keeps_intro keeps_pack_loop keeps_ignore_error)
  from keepsD [OF this _ assms] show ?thesis by simp
qed

text \<open>
  The run loop. It reads the instruction before it compares the pointer with the length,
  so an empty program panics.
\<close>

function vm_run :: "(vm, unit) go" where
  "vm_run m =
     (case go_index (vm_data m) (vm_ip m) of
        Panic p \<Rightarrow> (Panic p, m)
      | Err e \<Rightarrow> (Err e, m)
      | Ok inst \<Rightarrow>
          (case vm_exec inst m of
             (Err e, m1) \<Rightarrow> (Err (VmRun e), m1)
           | (Panic p, m1) \<Rightarrow> (Panic p, m1)
           | (Ok _, m1) \<Rightarrow>
               (let m2 = m1\<lparr>vm_ip := vm_ip m1 + 1\<rparr>
                in if vm_ip m2 \<ge> int (length (vm_data m2)) then (Ok (), m2) else vm_run m2)))"
  by pat_completeness auto
termination
  by (relation "measure (\<lambda>m. nat (int (length (vm_data m)) - vm_ip m))")
     (auto dest!: vm_exec_frame [OF sym])

declare vm_run.simps [simp del]

subsection \<open>Specification: a machine on lists\<close>

text \<open>
  The list machine keeps the stack as a list of at most \<open>stack_depth\<close> values, top first,
  and runs a program by recursion over its bytes, carrying the byte before the current
  one (\<open>None\<close> at the start of the program).
\<close>

definition stack_depth :: nat where
  "stack_depth = 1024"

record lmachine =
  lm_stack :: "val list"
  lm_cstate :: cstate

abbreviation lm_on_stack :: "(val list, 'a) go \<Rightarrow> (lmachine, 'a) go" where
  "lm_on_stack \<equiv> szoom lm_stack (\<lambda>st m. m\<lparr>lm_stack := st\<rparr>)"

abbreviation lm_push :: "val \<Rightarrow> (lmachine, unit) go" where
  "lm_push v \<equiv> lm_on_stack (list_push stack_depth v)"

abbreviation lm_pop :: "(lmachine, val) go" where
  "lm_pop \<equiv> lm_on_stack list_pop"

definition operand :: "byte option \<Rightarrow> byte result" where
  "operand prev = (case prev of None \<Rightarrow> Panic IndexOutOfRange | Some b \<Rightarrow> Ok b)"

definition lm_exec :: "byte option \<Rightarrow> byte \<Rightarrow> (lmachine, unit) go" where
  "lm_exec prev inst =
    (if inst = InstructionPushInt then
       sbind (lift_result (operand prev)) (\<lambda>d. lm_push (VInt (ucast d)))
     else if inst = InstructionAddInt then
       sbind lm_pop (\<lambda>a. sbind lm_pop (\<lambda>b.
       sbind (lift_result (assert_int a)) (\<lambda>x.
       sbind (lift_result (assert_int b)) (\<lambda>y. lm_push (VInt (x + y))))))
     else if inst = InstructionPushBytes then
       sbind (lift_result (operand prev)) (\<lambda>d. lm_push (VByte d))
     else if inst = InstructionPack then
       sbind lm_pop (\<lambda>v.
       sbind (lift_result (assert_int v)) (\<lambda>l.
       sbind (lift_result (make_bytes (sint l))) (\<lambda>data.
       sbind (pack_loop lm_pop 0 (sint l) data) (\<lambda>data'.
         \<lambda>m. case lm_push (VBytes data') m of
               (Panic p, m') \<Rightarrow> (Panic p, m')
             | (_, m') \<Rightarrow> (Ok (), m')))))
     else if inst = InstructionStore then
       sbind lm_pop (\<lambda>val. sbind lm_pop (\<lambda>key.
       sbind (lift_result (mustBeKey key)) (\<lambda>k.
         szoom lm_cstate (\<lambda>cs m. m\<lparr>lm_cstate := cs\<rparr>) (State_Put k val))))
     else if inst = InstructionGet then
       sbind lm_pop (\<lambda>key.
       sbind (lift_result (mustBeKey key)) (\<lambda>k.
       sbind (sread (\<lambda>m. State_Get k (lm_cstate m))) (\<lambda>val. lm_push val)))
     else sret ())"

primrec lm_run :: "byte option \<Rightarrow> bytes \<Rightarrow> (lmachine, unit) go" where
  "lm_run prev [] = sret ()"
| "lm_run prev (b # bs) = sbind (swrap VmRun (lm_exec prev b)) (\<lambda>_. lm_run (Some b) bs)"

definition last_byte :: "byte option \<Rightarrow> bytes \<Rightarrow> byte option" where
  "last_byte prev bs = (if bs = [] then prev else Some (last bs))"

lemma lm_run_append:
  "lm_run prev (xs @ ys) m = sbind (lm_run prev xs) (\<lambda>_. lm_run (last_byte prev xs) ys) m"
proof (induction xs arbitrary: prev m)
  case Nil
  then show ?case by (simp add: go_simps last_byte_def)
next
  case (Cons x xs)
  have "last_byte (Some x) xs = last_byte prev (x # xs)"
    by (simp add: last_byte_def)
  with Cons.IH show ?case
    by (auto simp: sbind_def split: prod.split result.split)
qed

subsection \<open>The run loop refines the list machine\<close>

definition vm_rel :: "bytes \<Rightarrow> int \<Rightarrow> vm \<Rightarrow> lmachine \<Rightarrow> bool" where
  "vm_rel code i m l \<longleftrightarrow> vm_data m = code \<and> vm_ip m = i \<and> vm_cstate m = lm_cstate l \<and>
     vmstk.rep stack_depth (vm_stack m) (lm_stack l)"

lemma sim_on_stack:
  "sim (vmstk.rep stack_depth) f g \<Longrightarrow> sim (vm_rel code i) (on_stack f) (lm_on_stack g)"
  by (erule sim_szoom) (auto simp: vm_rel_def)

lemma sim_on_cstate:
  "sim (vm_rel code i) (on_cstate f) (szoom lm_cstate (\<lambda>cs m. m\<lparr>lm_cstate := cs\<rparr>) f)"
  by (rule sim_szoom [where Q = "(=)"]) (auto simp: vm_rel_def sim_def)

lemmas sim_stack_ops =
  sim_on_stack [OF vmstk.sim_push] sim_on_stack [OF vmstk.sim_pop] sim_on_cstate

lemma sim_pack_loop:
  "sim R pop pop' \<Longrightarrow> sim R (pack_loop pop i l data) (pack_loop pop' i l data)"
proof (induction pop i l data rule: pack_loop.induct)
  case (1 pop i l data)
  then show ?case
    by (subst pack_loop.simps, subst pack_loop.simps) (auto intro!: sim_intro)
qed

lemma sim_ignore_error:
  "sim R m m' \<Longrightarrow>
   sim R (\<lambda>s. case m s of (Panic p, s') \<Rightarrow> (Panic p, s') | (_, s') \<Rightarrow> (Ok (), s'))
         (\<lambda>s. case m' s of (Panic p, s') \<Rightarrow> (Panic p, s') | (_, s') \<Rightarrow> (Ok (), s'))"
  by (rule simI) (auto elim!: simE split: result.split)

lemma vm_exec_sim:
  assumes "prev = (if i = 0 then None else Some (code ! nat (i - 1)))"
    and "0 \<le> i" "i < int (length code)"
  shows "sim (vm_rel code i) (vm_exec inst) (lm_exec prev inst)"
proof -
  have op: "sim (vm_rel code i) (sread (\<lambda>m. go_index (vm_data m) (vm_ip m - 1)))
      (lift_result (operand prev))"
    using assms by (intro sim_sread) (auto simp: vm_rel_def operand_def go_index_def)
  have get: "sim (vm_rel code i) (sread (\<lambda>m. State_Get k (vm_cstate m)))
      (sread (\<lambda>m. State_Get k (lm_cstate m)))" for k
    by (intro sim_sread) (simp add: vm_rel_def)
  show ?thesis
    unfolding vm_exec_def lm_exec_def
    by (intro sim_if sim_sbind sim_sret op get sim_stack_ops sim_pack_loop sim_ignore_error
        sim_sread refl)
qed

lemma vm_run_step:
  assumes "go_index (vm_data m) (vm_ip m) = Ok inst" "vm_exec inst m = (r, m1)"
  shows "vm_run m =
    (case r of Err e \<Rightarrow> (Err (VmRun e), m1) | Panic p \<Rightarrow> (Panic p, m1)
     | Ok _ \<Rightarrow> let m2 = m1\<lparr>vm_ip := vm_ip m1 + 1\<rparr>
              in if vm_ip m2 \<ge> int (length (vm_data m2)) then (Ok (), m2) else vm_run m2)"
  using assms by (subst vm_run.simps) (simp split: result.split)

lemma vm_run_sim:
  assumes "vm_rel code i m l" "0 \<le> i" "i < int (length code)"
    and "prev = (if i = 0 then None else Some (code ! nat (i - 1)))"
  shows "\<exists>r m' l'. vm_run m = (r, m') \<and> lm_run prev (drop (nat i) code) l = (r, l') \<and>
     vm_cstate m' = lm_cstate l' \<and> vmstk.rep stack_depth (vm_stack m') (lm_stack l')"
  using assms
proof (induction m arbitrary: i l prev rule: vm_run.induct)
  case (1 m)
  let ?inst = "code ! nat i"
  have ix: "go_index (vm_data m) (vm_ip m) = Ok ?inst"
    using 1(2,3,4) by (auto simp: vm_rel_def go_index_def)
  have dr: "drop (nat i) code = ?inst # drop (nat (i + 1)) code"
    using 1(3,4) by (simp add: Cons_nth_drop_Suc [symmetric] nat_add_distrib)
  from vm_exec_sim [OF 1(5) 1(3,4)] 1(2) obtain r m1 l1 where
    ex: "vm_exec ?inst m = (r, m1)" "lm_exec prev ?inst l = (r, l1)" "vm_rel code i m1 l1"
    by (rule simE)
  note step = vm_run_step [OF ix ex(1)]
  show ?case
  proof (cases r)
    case (Ok u)
    let ?m2 = "m1\<lparr>vm_ip := vm_ip m1 + 1\<rparr>"
    have rel2: "vm_rel code (i + 1) ?m2 l1"
      using ex(3) by (simp add: vm_rel_def)
    show ?thesis
    proof (cases "i + 1 < int (length code)")
      case True
      have "(if i + 1 = 0 then None else Some (code ! nat (i + 1 - 1))) = Some ?inst"
        using 1(3) by simp
      with 1(1) [OF ix _ _ refl _ rel2 _ True, of r u] ex Ok True 1(3) obtain r' m' l' where
        "vm_run ?m2 = (r', m')" "lm_run (Some ?inst) (drop (nat (i + 1)) code) l1 = (r', l')"
        "vm_cstate m' = lm_cstate l'" "vmstk.rep stack_depth (vm_stack m') (lm_stack l')"
        by (auto simp: vm_rel_def)
      then show ?thesis
        using step ex(2,3) Ok True by (simp add: dr go_simps vm_rel_def)
    next
      case False
      then have "drop (nat (i + 1)) code = []" by simp
      then show ?thesis
        using step ex(2,3) Ok False by (simp add: dr go_simps vm_rel_def)
    qed
  qed (use step ex(2,3) in \<open>simp_all add: dr go_simps vm_rel_def\<close>)
qed

end
