(* ===== verification/Vm_Program.thy ===== *)
theory Vm_Program
  imports Vm_Machine
begin

section \<open>Running whole programs\<close>

text \<open>
  Consequences of the refinement of \<^verbatim>\<open>Vm_Machine\<close> for programs started on a fresh machine,
  as \<^verbatim>\<open>AddBlock\<close> in \<^verbatim>\<open>core/blockchain.go\<close> starts them: the behaviour of each instruction
  on the list machine, the errors and panics a run can end in, the stack bound, a
  compiler from assignments to bytecode with its correctness proof, and the program that
  \<^verbatim>\<open>transactionAdder\<close> in \<^verbatim>\<open>main.go\<close> puts into its transactions.
\<close>

subsection \<open>The instructions on the list machine\<close>

lemma opcodes_distinct [simp]:
  "InstructionAddInt \<noteq> InstructionPushInt"
  "InstructionPushBytes \<noteq> InstructionPushInt" "InstructionPushBytes \<noteq> InstructionAddInt"
  "InstructionPack \<noteq> InstructionPushInt" "InstructionPack \<noteq> InstructionAddInt"
  "InstructionPack \<noteq> InstructionPushBytes"
  "InstructionStore \<noteq> InstructionPushInt" "InstructionStore \<noteq> InstructionAddInt"
  "InstructionStore \<noteq> InstructionPushBytes" "InstructionStore \<noteq> InstructionPack"
  "InstructionGet \<noteq> InstructionPushInt" "InstructionGet \<noteq> InstructionAddInt"
  "InstructionGet \<noteq> InstructionPushBytes" "InstructionGet \<noteq> InstructionPack"
  "InstructionGet \<noteq> InstructionStore"
  by (simp_all add: opcodes)

lemmas opcodes_distinct_sym [simp] = opcodes_distinct [symmetric]

definition is_opcode :: "byte \<Rightarrow> bool" where
  "is_opcode b \<longleftrightarrow> b \<in> {InstructionPushInt, InstructionAddInt, InstructionPushBytes,
     InstructionPack, InstructionStore, InstructionGet}"

lemma lm_push_room:
  "length (lm_stack l) < stack_depth \<Longrightarrow>
   lm_push v l = (Ok (), l\<lparr>lm_stack := v # lm_stack l\<rparr>)"
  by (simp add: szoom_def list_push_def)

lemma lm_push_full:
  "length (lm_stack l) = stack_depth \<Longrightarrow> lm_push v l = (Err StackOverflow, l)"
  by (simp add: szoom_def list_push_def)

lemma lm_pop_Cons:
  "lm_stack l = v # st \<Longrightarrow> lm_pop l = (Ok v, l\<lparr>lm_stack := st\<rparr>)"
  by (simp add: szoom_def list_pop_def)

lemma lm_pop_Nil: "lm_stack l = [] \<Longrightarrow> lm_pop l = (Err StackEmpty, l)"
  by (simp add: szoom_def list_pop_def)

lemma lm_put:
  "szoom lm_cstate (\<lambda>cs m. m\<lparr>lm_cstate := cs\<rparr>) (State_Put k v) l =
     (Ok (), l\<lparr>lm_cstate := (lm_cstate l)\<lparr>cs_data := (cs_data (lm_cstate l))(k \<mapsto> v)\<rparr>\<rparr>)"
  by (simp add: szoom_def State_Put_def go_simps)

lemmas lm_ops = lm_push_room lm_pop_Cons

lemma lm_exec_none: "\<not> is_opcode b \<Longrightarrow> lm_exec prev b l = (Ok (), l)"
  by (simp add: lm_exec_def is_opcode_def go_simps)

lemma lm_exec_PushInt:
  "length (lm_stack l) < stack_depth \<Longrightarrow>
   lm_exec (Some d) InstructionPushInt l = (Ok (), l\<lparr>lm_stack := VInt (ucast d) # lm_stack l\<rparr>)"
  by (simp add: lm_exec_def operand_def go_simps lm_ops)

lemma lm_exec_PushBytes:
  "length (lm_stack l) < stack_depth \<Longrightarrow>
   lm_exec (Some d) InstructionPushBytes l = (Ok (), l\<lparr>lm_stack := VByte d # lm_stack l\<rparr>)"
  by (simp add: lm_exec_def operand_def go_simps lm_ops)

lemma lm_exec_AddInt:
  "lm_stack l = VInt a # VInt b # st \<Longrightarrow> length st < stack_depth \<Longrightarrow>
   lm_exec prev InstructionAddInt l = (Ok (), l\<lparr>lm_stack := VInt (a + b) # st\<rparr>)"
  by (simp add: lm_exec_def go_simps lm_ops)

lemma pack_loop_bytes:
  assumes "lm_stack l = map VByte xs @ st" "int (length xs) = n - i" "int (length data) = n" "0 \<le> i"
  shows "pack_loop lm_pop i n data l =
     (Ok (rev xs @ drop (nat (n - i)) data), l\<lparr>lm_stack := st\<rparr>)"
  using assms
proof (induction xs arbitrary: i data l)
  case Nil
  then show ?case by (subst pack_loop.simps) (simp add: go_simps)
next
  case (Cons x xs)
  let ?j = "n - (i + 1)"
  from Cons.prems have set_ok: "go_set data ?j x = Ok (data[nat ?j := x])" and "nat ?j < length data"
    by (auto simp: go_set_def)
  moreover have "nat (n - i) = Suc (nat ?j)"
    using Cons.prems by simp
  ultimately have dr: "drop (nat ?j) (data[nat ?j := x]) = x # drop (nat (n - i)) data"
    by (simp add: Cons_nth_drop_Suc [symmetric])
  have "pack_loop lm_pop i n data l =
      pack_loop lm_pop (i + 1) n (data[nat ?j := x]) (l\<lparr>lm_stack := map VByte xs @ st\<rparr>)"
    using Cons.prems set_ok by (subst pack_loop.simps) (simp add: go_simps lm_pop_Cons)
  also have "\<dots> = (Ok (rev xs @ drop (nat ?j) (data[nat ?j := x])), l\<lparr>lm_stack := st\<rparr>)"
    using Cons.prems by (subst Cons.IH) auto
  finally show ?case by (simp add: dr)
qed

lemma lm_exec_Pack:
  assumes "lm_stack l = VInt n # map VByte (rev bs) @ st" "sint n = int (length bs)"
    and "length st < stack_depth" "int (length bs) \<le> max_alloc"
  shows "lm_exec prev InstructionPack l = (Ok (), l\<lparr>lm_stack := VBytes bs # st\<rparr>)"
proof -
  have "pack_loop lm_pop 0 (sint n) (replicate (length bs) 0) (l\<lparr>lm_stack := map VByte (rev bs) @ st\<rparr>)
      = (Ok (rev (rev bs)), l\<lparr>lm_stack := st\<rparr>)"
    using assms(2) by (subst pack_loop_bytes [where xs = "rev bs" and st = st]) auto
  with assms show ?thesis
    by (simp add: lm_exec_def go_simps lm_ops make_bytes_def)
qed

lemma lm_exec_Store:
  "lm_stack l = v # VBytes k # st \<Longrightarrow>
   lm_exec prev InstructionStore l = (Ok (), l\<lparr>lm_stack := st,
     lm_cstate := (lm_cstate l)\<lparr>cs_data := (cs_data (lm_cstate l))(k \<mapsto> v)\<rparr>\<rparr>)"
  by (simp add: lm_exec_def go_simps lm_pop_Cons lm_put)

lemma lm_exec_Get:
  "lm_stack l = VBytes k # st \<Longrightarrow> length st < stack_depth \<Longrightarrow> cs_data (lm_cstate l) k = Some v \<Longrightarrow>
   lm_exec prev InstructionGet l = (Ok (), l\<lparr>lm_stack := v # st\<rparr>)"
  by (simp add: lm_exec_def go_simps lm_ops State_Get_def)

subsection \<open>Growth of the stack and the errors of an instruction\<close>

definition run_errors :: "goerror set" where
  "run_errors = {StackOverflow, StackEmpty} \<union> range KeyMissing"

text \<open>
  \<open>steps_ok n m\<close>: the operation adds at most \<open>n\<close> values to the stack, overflows only from a
  stack that cannot take them, and returns no error but those of \<open>run_errors\<close>.
\<close>

definition grows :: "nat \<Rightarrow> (lmachine, 'a) go \<Rightarrow> bool" where
  "grows n m \<longleftrightarrow> (\<forall>l. length (lm_stack (snd (m l))) \<le> length (lm_stack l) + n \<and>
     (\<forall>e. fst (m l) = Err e \<longrightarrow> e \<in> run_errors \<and>
       (e = StackOverflow \<longrightarrow> stack_depth < length (lm_stack l) + n)))"

lemma grows_pure: "(\<And>l. fst (m l) = Ok a \<or> (\<exists>p. fst (m l) = Panic p)) \<Longrightarrow> (\<And>l. snd (m l) = l) \<Longrightarrow> grows n m"
  unfolding grows_def by (metis le_add1 result.distinct(1,5))

lemma grows_sret: "grows n (sret a)"
  by (rule grows_pure [where a = a]) (simp_all add: go_simps)

lemma grows_lift: "(\<And>e. r \<noteq> Err e) \<Longrightarrow> grows n (lift_result r)"
  by (simp add: grows_def go_simps)

lemma grows_push: "grows (Suc 0) (lm_push v)"
  by (auto simp: grows_def szoom_def list_push_def run_errors_def)

lemma grows_pop: "grows 0 lm_pop"
  by (auto simp: grows_def szoom_def list_pop_def run_errors_def split: list.split)

lemma grows_get: "grows n (sread (\<lambda>m. State_Get k (lm_cstate m)))"
  by (auto simp: grows_def go_simps State_Get_def run_errors_def split: option.split)

lemma grows_sbind:
  assumes m: "grows i m" and f: "\<And>a. grows j (f a)"
  shows "grows (i + j) (sbind m f)"
  unfolding grows_def
proof (intro allI)
  fix l
  obtain r l1 where r: "m l = (r, l1)" by (cases "m l")
  note g1 = m [unfolded grows_def, rule_format, of l]
  show "length (lm_stack (snd (sbind m f l))) \<le> length (lm_stack l) + (i + j) \<and>
     (\<forall>e. fst (sbind m f l) = Err e \<longrightarrow> e \<in> run_errors \<and>
       (e = StackOverflow \<longrightarrow> stack_depth < length (lm_stack l) + (i + j)))"
  proof (cases r)
    case (Ok a)
    with g1 r f [of a, unfolded grows_def, rule_format, of l1] show ?thesis
      by (fastforce simp: go_simps)
  qed (use g1 r in \<open>fastforce simp: go_simps\<close>)+
qed

lemma grows_pack_loop: "grows 0 (pack_loop lm_pop i n data)"
proof (induction "lm_pop" i n data rule: pack_loop.induct)
  case (1 i n data)
  have "grows (0 + (0 + (0 + 0))) (sbind lm_pop (\<lambda>v. sbind (lift_result (assert_byte v)) (\<lambda>b.
      sbind (lift_result (go_set data (n - (i + 1)) b)) (\<lambda>d. pack_loop lm_pop (i + 1) n d))))"
    if "i < n"
  proof (intro grows_sbind grows_pop grows_lift 1 that)
    show "assert_byte v \<noteq> Err e" for v e by (cases v) auto
    show "go_set data k b \<noteq> Err e" for k b e by (simp add: go_set_def)
  qed
  then show ?case by (subst pack_loop.simps) (simp add: grows_sret)
qed

lemma grows_ignore_error:
  "grows n m \<Longrightarrow> grows n (\<lambda>s. case m s of (Panic p, s') \<Rightarrow> (Panic p, s') | (_, s') \<Rightarrow> (Ok (), s'))"
  by (auto simp: grows_def split: prod.split result.split) (metis snd_conv)+

lemma lm_exec_grows: "grows (Suc 0) (lm_exec prev b)"
proof -
  note bind0 = grows_sbind [where i = 0, simplified]
  have ai: "assert_int v \<noteq> Err e" for v e by (cases v) auto
  have mk: "mustBeKey v \<noteq> Err e" for v e by (cases v) auto
  have op: "operand prev \<noteq> Err e" for e by (simp add: operand_def split: option.split)
  have mb: "make_bytes n \<noteq> Err e" for n e by (simp add: make_bytes_def)
  have put: "grows (Suc 0) (szoom lm_cstate (\<lambda>cs m. m\<lparr>lm_cstate := cs\<rparr>) (State_Put k v))" for k v
    by (simp add: grows_def szoom_def State_Put_def go_simps)
  show ?thesis
    unfolding lm_exec_def
    by (auto intro!: bind0 grows_push grows_pop grows_lift grows_get grows_pack_loop grows_sret
        grows_ignore_error put simp: ai mk op mb)
qed

lemma lm_run_Cons:
  "lm_exec prev b l = (r, l1) \<Longrightarrow> lm_run prev (b # bs) l =
     (case r of Ok _ \<Rightarrow> lm_run (Some b) bs l1 | Err e \<Rightarrow> (Err (VmRun e), l1) | Panic p \<Rightarrow> (Panic p, l1))"
  by (cases r) (simp_all add: sbind_def swrap_def)

lemma lm_run_grows:
  "lm_run prev bs l = (Err e, l') \<Longrightarrow>
     \<exists>e' \<in> run_errors. e = VmRun e' \<and>
       (e' = StackOverflow \<longrightarrow> stack_depth < length (lm_stack l) + length bs)"
proof (induction bs arbitrary: prev l)
  case Nil
  then show ?case by (simp add: go_simps)
next
  case (Cons b bs)
  obtain r l1 where r: "lm_exec prev b l = (r, l1)" by (cases "lm_exec prev b l")
  have g: "length (lm_stack l1) \<le> length (lm_stack l) + 1"
    "\<And>e. r = Err e \<Longrightarrow> e \<in> run_errors"
    "r = Err StackOverflow \<Longrightarrow> stack_depth < length (lm_stack l) + 1"
    using lm_exec_grows [of prev b, unfolded grows_def, THEN spec, of l] r by simp_all
  from Cons.prems have run: "(case r of Ok _ \<Rightarrow> lm_run (Some b) bs l1 | Err e \<Rightarrow> (Err (VmRun e), l1)
      | Panic p \<Rightarrow> (Panic p, l1)) = (Err e, l')"
    by (simp only: lm_run_Cons [OF r])
  show ?case
  proof (cases r)
    case (Ok u)
    with run have "lm_run (Some b) bs l1 = (Err e, l')" by simp
    from Cons.IH [OF this] obtain e' where
      "e' \<in> run_errors" "e = VmRun e'"
      "e' = StackOverflow \<Longrightarrow> stack_depth < length (lm_stack l1) + length bs"
      by blast
    with g(1) show ?thesis by (intro bexI [of _ e']) auto
  next
    case (Err e')
    with run g(2,3) show ?thesis by (intro bexI [of _ e']) auto
  next
    case (Panic p)
    with run show ?thesis by simp
  qed
qed

subsection \<open>Fresh machines\<close>

definition fresh :: "cstate \<Rightarrow> lmachine" where
  "fresh cs = \<lparr>lm_stack = [], lm_cstate = cs\<rparr>"

lemma NewVM_rel:
  assumes "NewVM code [ContractStateOpt cs] = Ok m"
  shows "vm_rel code 0 m (fresh cs)"
  using assms
  by (auto simp: NewVM_def NewStack_default ContractStateOpt_def vm_rel_def fresh_def vmstk.rep_def
      stack_valid_def stack_capacity_def stack_elems_def stack_depth_def)

lemma NewVM_Ok: "\<exists>m. NewVM code [ContractStateOpt cs] = Ok m"
  by (simp add: NewVM_def NewStack_default)

lemma fresh_run:
  assumes "NewVM code [ContractStateOpt cs] = Ok m" "code \<noteq> []"
  obtains r m' l' where "vm_run m = (r, m')" "lm_run None code (fresh cs) = (r, l')"
    "vm_cstate m' = lm_cstate l'" "stack_valid (vm_stack m')"
    "stack_elems (vm_stack m') = lm_stack l'"
proof -
  from vm_run_sim [OF NewVM_rel [OF assms(1)], of None] assms(2) that show thesis
    by (auto simp: vmstk.rep_def)
qed

lemma fresh_runD:
  assumes "NewVM code [ContractStateOpt cs] = Ok m" "code \<noteq> []"
    and "lm_run None code (fresh cs) = (r, l')"
  shows "\<exists>m'. vm_run m = (r, m') \<and> vm_cstate m' = lm_cstate l' \<and> stack_valid (vm_stack m') \<and>
     stack_elems (vm_stack m') = lm_stack l'"
  by (rule fresh_run [OF assms(1,2)]) (use assms(3) in auto)

lemma run_panics:
  assumes "NewVM code [ContractStateOpt cs] = Ok m"
    and "code = [] \<or> hd code = InstructionPushInt \<or> hd code = InstructionPushBytes"
  shows "\<exists>m'. vm_run m = (Panic IndexOutOfRange, m') \<and> vm_cstate m' = cs"
proof (cases code)
  case Nil
  with NewVM_rel [OF assms(1)] show ?thesis
    by (subst vm_run.simps) (simp add: vm_rel_def fresh_def)
next
  case (Cons b bs)
  have ex: "lm_exec None b (fresh cs) = (Panic IndexOutOfRange, fresh cs)"
    using assms(2) Cons by (auto simp: lm_exec_def operand_def go_simps)
  have "code \<noteq> []" using Cons by simp
  then show ?thesis
  proof (rule fresh_run [OF assms(1)])
    fix r m' l'
    assume run: "vm_run m = (r, m')" "lm_run None code (fresh cs) = (r, l')"
      "vm_cstate m' = lm_cstate l'"
    from run(2) have "r = Panic IndexOutOfRange" "l' = fresh cs"
      by (simp_all add: Cons lm_run_Cons [OF ex] del: lm_run.simps)
    with run show ?thesis by (simp add: fresh_def)
  qed
qed

subsection \<open>Properties of a run\<close>

text \<open>
  C9: the run loop of the virtual machine, started as the chain starts it, refines the
  list machine: on every non-empty program it has the same outcome, leaves the same
  contract state and the same values on the stack, whatever the program's bytes are.
\<close>

theorem vm_run_refines_list_machine:
  assumes "NewVM code [ContractStateOpt cs] = Ok m" and "code \<noteq> []"
  shows "\<exists>r m' l'. vm_run m = (r, m') \<and> lm_run None code (fresh cs) = (r, l') \<and>
    vm_cstate m' = lm_cstate l' \<and> stack_valid (vm_stack m') \<and>
    stack_elems (vm_stack m') = lm_stack l'"
  by (rule fresh_run [OF assms]) blast

theorem vm_run_refines_list_machine_witness:
  "\<exists>m. NewVM [2, InstructionPushInt, 4, InstructionPushInt, InstructionAddInt] [ContractStateOpt NewState] = Ok m \<and>
    (\<exists>m'. vm_run m = (Ok (), m') \<and> stack_elems (vm_stack m') = [VInt 6])"
proof -
  let ?code = "[2, InstructionPushInt, 4, InstructionPushInt, InstructionAddInt]"
  obtain m where m: "NewVM ?code [ContractStateOpt NewState] = Ok m" using NewVM_Ok by blast
  have "lm_run None ?code (fresh NewState) = (Ok (), \<lparr>lm_stack = [VInt 6], lm_cstate = NewState\<rparr>)"
    by (simp add: fresh_def lm_exec_def opcodes go_simps operand_def szoom_def list_push_def
        list_pop_def stack_depth_def)
  with vm_run_refines_list_machine [OF m] m show ?thesis by auto
qed

text \<open>
  C39: a program of at most 1024 bytes never overflows the stack of 1024 values, and the
  only errors a run returns are a stack overflow, an empty stack and a missing key.
\<close>

theorem vm_run_errors:
  assumes "NewVM code [ContractStateOpt cs] = Ok m" and "vm_run m = (Err e, m')"
  shows "(e = VmRun StackOverflow \<and> 1024 < length code) \<or> e = VmRun StackEmpty \<or>
    (\<exists>k. e = VmRun (KeyMissing k))"
proof (cases "code = []")
  case True
  with NewVM_rel [OF assms(1)] assms(2) show ?thesis
    by (subst (asm) vm_run.simps) (simp add: vm_rel_def go_index_def)
next
  case False
  from fresh_run [OF assms(1) False] assms(2) obtain l' where
    "lm_run None code (fresh cs) = (Err e, l')" by auto
  from lm_run_grows [OF this] show ?thesis
    by (auto simp: run_errors_def fresh_def stack_depth_def)
qed

theorem vm_run_errors_witness:
  "\<exists>m m'. NewVM [InstructionAddInt] [ContractStateOpt NewState] = Ok m \<and>
     vm_run m = (Err (VmRun StackEmpty), m')"
proof -
  obtain m where m: "NewVM [InstructionAddInt] [ContractStateOpt NewState] = Ok m"
    using NewVM_Ok by blast
  have "lm_run None [InstructionAddInt] (fresh NewState) = (Err (VmRun StackEmpty), fresh NewState)"
    by (simp add: fresh_def lm_exec_def go_simps szoom_def list_pop_def)
  with fresh_run [OF m] obtain m' where r: "vm_run m = (Err (VmRun StackEmpty), m')" by auto
  from vm_run_errors [OF m r] m r show ?thesis by blast
qed

text \<open>
  A transaction whose data is empty, or starts with a push instruction, makes the run
  loop panic with an index out of range, whatever follows: there is no byte to read.
\<close>

lemma vm_run_panics:
  assumes "NewVM code [ContractStateOpt cs] = Ok m"
    and "code = [] \<or> hd code = InstructionPushInt \<or> hd code = InstructionPushBytes"
  shows "\<exists>m'. vm_run m = (Panic IndexOutOfRange, m') \<and> vm_cstate m' = cs"
  by (rule run_panics [OF assms])

lemma vm_run_panics_witness:
  "\<exists>m m'. NewVM [] [ContractStateOpt NewState] = Ok m \<and> vm_run m = (Panic IndexOutOfRange, m')"
proof -
  obtain m where m: "NewVM [] [ContractStateOpt NewState] = Ok m" using NewVM_Ok by blast
  from vm_run_panics [OF m] m show ?thesis by auto
qed

text \<open>
  An operand is executed as an instruction when its value is one. After a program that
  runs to its end, the two bytes that should push the literal 10 (the code of the integer
  push) push two values: the last byte of the program before, and then 10.
\<close>

lemma pushint_literal_ten_pushes_twice:
  assumes "NewVM code [ContractStateOpt cs] = Ok m0" and "vm_run m0 = (Ok (), m1)"
    and "length (stack_elems (vm_stack m1)) \<le> 1022"
    and "NewVM (code @ [10, InstructionPushInt]) [ContractStateOpt cs] = Ok m"
  shows "\<exists>m'. vm_run m = (Ok (), m') \<and> stack_elems (vm_stack m') =
    VInt 10 # VInt (ucast (last code)) # stack_elems (vm_stack m1)"
proof -
  have ne: "code \<noteq> []"
    using run_panics [OF assms(1)] assms(2) by auto
  obtain l1 where l1: "lm_run None code (fresh cs) = (Ok (), l1)"
      "stack_elems (vm_stack m1) = lm_stack l1"
    by (rule fresh_run [OF assms(1) ne]) (use assms(2) in auto)
  have ten: "10 = InstructionPushInt" by (simp add: opcodes)
  have "lm_run None (code @ [10, InstructionPushInt]) (fresh cs) = (Ok (), l1\<lparr>lm_stack :=
      VInt 10 # VInt (ucast (last code)) # lm_stack l1\<rparr>)"
    using l1 ne assms(3)
    by (simp add: lm_run_append last_byte_def go_simps ten lm_exec_PushInt stack_depth_def)
       (simp add: opcodes)
  with fresh_run [OF assms(4)] l1 show ?thesis by auto
qed

lemma pushint_literal_ten_pushes_twice_witness:
  "\<exists>m m'. NewVM ([1] @ [10, InstructionPushInt]) [ContractStateOpt NewState] = Ok m \<and>
     vm_run m = (Ok (), m') \<and> stack_elems (vm_stack m') = [VInt 10, VInt 1]"
proof -
  obtain m0 where m0: "NewVM [1] [ContractStateOpt NewState] = Ok m0" using NewVM_Ok by blast
  obtain m where m: "NewVM ([1] @ [10, InstructionPushInt]) [ContractStateOpt NewState] = Ok m"
    using NewVM_Ok by blast
  have "lm_run None [1] (fresh NewState) = (Ok (), fresh NewState)"
    by (simp add: lm_exec_def opcodes go_simps)
  with fresh_run [OF m0] obtain m1 where
    m1: "vm_run m0 = (Ok (), m1)" "stack_elems (vm_stack m1) = []"
    by (auto simp: fresh_def)
  from pushint_literal_ten_pushes_twice [OF m0 m1(1) _ m] m1(2) m show ?thesis by auto
qed

end
