(* ===== verification/Vm_Compile.thy ===== *)
theory Vm_Compile
  imports Vm_Program
begin

section \<open>Compiling assignments to bytecode\<close>

text \<open>
  The programs of the code's own tests and of \<^verbatim>\<open>transactionAdder\<close> in \<^verbatim>\<open>main.go\<close> are
  assignments of integer expressions to keys, compiled by hand. Here the compilation is
  written down with a semantics of its own, and proved correct on the virtual machine of
  \<^verbatim>\<open>vm/vm.go\<close> for programs none of whose operand bytes is the byte of an instruction.
\<close>

subsection \<open>Source programs and their meaning\<close>

datatype expr = Lit byte | Load key | Add expr expr

datatype stmt = Assign key expr

fun eval :: "(key \<rightharpoonup> val) \<Rightarrow> expr \<Rightarrow> goint option" where
  "eval d (Lit b) = Some (ucast b)"
| "eval d (Load k) = (case d k of Some (VInt i) \<Rightarrow> Some i | _ \<Rightarrow> None)"
| "eval d (Add e f) = (case (eval d e, eval d f) of
     (Some x, Some y) \<Rightarrow> Some (x + y) | _ \<Rightarrow> None)"

fun exec_stmts :: "(key \<rightharpoonup> val) \<Rightarrow> stmt list \<Rightarrow> (key \<rightharpoonup> val) option" where
  "exec_stmts d [] = Some d"
| "exec_stmts d (Assign k e # p) = (case eval d e of
     None \<Rightarrow> None | Some v \<Rightarrow> exec_stmts (d(k \<mapsto> VInt v)) p)"

subsection \<open>The compiler\<close>

definition compile_key :: "key \<Rightarrow> bytes" where
  "compile_key k = concat (map (\<lambda>b. [b, InstructionPushBytes]) k) @
     [of_nat (length k), InstructionPushInt, InstructionPack]"

primrec compile_expr :: "expr \<Rightarrow> bytes" where
  "compile_expr (Lit b) = [b, InstructionPushInt]"
| "compile_expr (Load k) = compile_key k @ [InstructionGet]"
| "compile_expr (Add e f) = compile_expr e @ compile_expr f @ [InstructionAddInt]"

primrec compile_stmt :: "stmt \<Rightarrow> bytes" where
  "compile_stmt (Assign k e) = compile_key k @ compile_expr e @ [InstructionStore]"

definition compile :: "stmt list \<Rightarrow> bytes" where
  "compile p = concat (map compile_stmt p)"

text \<open>No operand is the byte of an instruction, and the length of a key is a byte.\<close>

definition plain_key :: "key \<Rightarrow> bool" where
  "plain_key k \<longleftrightarrow> length k < 128 \<and> list_all (\<lambda>b. \<not> is_opcode b) k \<and> \<not> is_opcode (of_nat (length k))"

primrec plain_expr :: "expr \<Rightarrow> bool" where
  "plain_expr (Lit b) = (\<not> is_opcode b)"
| "plain_expr (Load k) = plain_key k"
| "plain_expr (Add e f) = (plain_expr e \<and> plain_expr f)"

primrec plain_stmt :: "stmt \<Rightarrow> bool" where
  "plain_stmt (Assign k e) = (plain_key k \<and> plain_expr e)"

text \<open>The number of stack slots an expression or an assignment needs.\<close>

primrec expr_depth :: "expr \<Rightarrow> nat" where
  "expr_depth (Lit b) = 1"
| "expr_depth (Load k) = Suc (length k)"
| "expr_depth (Add e f) = max (expr_depth e) (Suc (expr_depth f))"

primrec stmt_depth :: "stmt \<Rightarrow> nat" where
  "stmt_depth (Assign k e) = max (Suc (length k)) (Suc (expr_depth e))"

subsection \<open>Correctness\<close>

lemma lm_run_push_bytes:
  assumes "list_all (\<lambda>b. \<not> is_opcode b) k" "length (lm_stack l) + length k \<le> stack_depth"
  shows "lm_run prev (concat (map (\<lambda>b. [b, InstructionPushBytes]) k)) l =
     (Ok (), l\<lparr>lm_stack := map VByte (rev k) @ lm_stack l\<rparr>)"
  using assms
proof (induction k arbitrary: prev l)
  case Nil
  then show ?case by (simp add: go_simps)
next
  case (Cons b k)
  then have "lm_exec (Some b) InstructionPushBytes l = (Ok (), l\<lparr>lm_stack := VByte b # lm_stack l\<rparr>)"
    by (simp add: lm_exec_PushBytes)
  with Cons show ?case
    by (simp add: go_simps lm_exec_none Cons.IH)
qed

lemma sint_key_length: "length k < 128 \<Longrightarrow> sint (ucast (of_nat (length k) :: byte) :: goint) = int (length k)"
  by (simp add: sint_uint unat_of_nat uint_nat signed_take_bit_int_eq_self take_bit_nat_eq_self
      unsigned_of_nat unsigned_ucast_eq)

lemma lm_run_key:
  assumes "plain_key k" "length (lm_stack l) + length k < stack_depth"
  shows "lm_run prev (compile_key k) l = (Ok (), l\<lparr>lm_stack := VBytes k # lm_stack l\<rparr>)"
proof -
  let ?n = "of_nat (length k) :: byte"
  let ?l1 = "l\<lparr>lm_stack := map VByte (rev k) @ lm_stack l\<rparr>"
  let ?l2 = "?l1\<lparr>lm_stack := VInt (ucast ?n) # lm_stack ?l1\<rparr>"
  have 1: "lm_run prev (concat (map (\<lambda>b. [b, InstructionPushBytes]) k)) l = (Ok (), ?l1)"
    using assms by (intro lm_run_push_bytes) (auto simp: plain_key_def)
  have 2: "lm_exec p ?n ?l1 = (Ok (), ?l1)" for p
    using assms(1) by (simp add: lm_exec_none plain_key_def)
  have 3: "lm_exec (Some ?n) InstructionPushInt ?l1 = (Ok (), ?l2)"
    using assms(2) by (subst lm_exec_PushInt) auto
  have 4: "lm_exec (Some InstructionPushInt) InstructionPack ?l2 =
      (Ok (), ?l2\<lparr>lm_stack := VBytes k # lm_stack l\<rparr>)"
    using assms by (intro lm_exec_Pack) (auto simp: plain_key_def sint_key_length max_alloc_def)
  show ?thesis
    unfolding compile_key_def by (simp add: lm_run_append 1 2 3 4 [simplified] go_simps)
qed

lemma lm_run_expr:
  assumes "plain_expr e" "eval (cs_data (lm_cstate l)) e = Some v"
    and "length (lm_stack l) + expr_depth e \<le> stack_depth"
  shows "lm_run prev (compile_expr e) l = (Ok (), l\<lparr>lm_stack := VInt v # lm_stack l\<rparr>)"
  using assms
proof (induction e arbitrary: prev l v)
  case (Lit b)
  then show ?case by (simp add: go_simps lm_exec_none lm_exec_PushInt)
next
  case (Load k)
  then have d: "cs_data (lm_cstate l) k = Some (VInt v)"
    by (auto split: option.splits val.splits)
  from Load show ?case
    by (simp add: lm_run_append lm_run_key go_simps lm_exec_Get [OF _ _ d, where st = "lm_stack l"]
        lm_exec_Get d)
next
  case (Add e f)
  then obtain x y where xy: "eval (cs_data (lm_cstate l)) e = Some x"
    "eval (cs_data (lm_cstate l)) f = Some y" "v = x + y"
    by (auto split: option.splits)
  let ?l1 = "l\<lparr>lm_stack := VInt x # lm_stack l\<rparr>"
  have 1: "lm_run prev (compile_expr e) l = (Ok (), ?l1)"
    using Add.prems xy by (intro Add.IH) auto
  have 2: "lm_run p (compile_expr f) ?l1 = (Ok (), ?l1\<lparr>lm_stack := VInt y # lm_stack ?l1\<rparr>)" for p
    using Add.prems xy by (intro Add.IH) auto
  from Add.prems show ?case
    by (simp add: lm_run_append 1 2 go_simps lm_exec_AddInt xy add.commute)
qed

lemma lm_run_stmt:
  assumes "plain_stmt s" "s = Assign k e" "eval (cs_data (lm_cstate l)) e = Some v"
    and "length (lm_stack l) + stmt_depth s \<le> stack_depth"
  shows "lm_run prev (compile_stmt s) l = (Ok (), l\<lparr>lm_cstate :=
     (lm_cstate l)\<lparr>cs_data := (cs_data (lm_cstate l))(k \<mapsto> VInt v)\<rparr>\<rparr>)"
proof -
  let ?l1 = "l\<lparr>lm_stack := VBytes k # lm_stack l\<rparr>"
  have 1: "lm_run prev (compile_key k) l = (Ok (), ?l1)"
    using assms by (intro lm_run_key) auto
  have 2: "lm_run p (compile_expr e) ?l1 = (Ok (), ?l1\<lparr>lm_stack := VInt v # lm_stack ?l1\<rparr>)" for p
    using assms by (intro lm_run_expr) auto
  show ?thesis
    by (simp add: assms(2) lm_run_append 1 2 go_simps lm_exec_Store)
qed

lemma lm_run_compile:
  assumes "list_all plain_stmt p" "exec_stmts (cs_data (lm_cstate l)) p = Some d"
    and "\<forall>s \<in> set p. length (lm_stack l) + stmt_depth s \<le> stack_depth"
  shows "lm_run prev (compile p) l = (Ok (), l\<lparr>lm_cstate := (lm_cstate l)\<lparr>cs_data := d\<rparr>\<rparr>)"
  using assms
proof (induction p arbitrary: prev l)
  case Nil
  then show ?case by (simp add: compile_def go_simps)
next
  case (Cons s p)
  obtain k e where s: "s = Assign k e" by (cases s)
  with Cons.prems obtain v where v: "eval (cs_data (lm_cstate l)) e = Some v"
    by (auto split: option.splits)
  let ?l1 = "l\<lparr>lm_cstate := (lm_cstate l)\<lparr>cs_data := (cs_data (lm_cstate l))(k \<mapsto> VInt v)\<rparr>\<rparr>"
  have 1: "lm_run prev (compile_stmt s) l = (Ok (), ?l1)"
    using Cons.prems s v by (intro lm_run_stmt) auto
  have d: "exec_stmts (cs_data (lm_cstate ?l1)) p = Some d"
    using Cons.prems(2) s v by simp
  have 2: "lm_run q (compile p) ?l1 = (Ok (), ?l1\<lparr>lm_cstate := (lm_cstate ?l1)\<lparr>cs_data := d\<rparr>\<rparr>)" for q
    using Cons.prems(1,3) by (intro Cons.IH d) auto
  have "compile (s # p) = compile_stmt s @ compile p" by (simp add: compile_def)
  then show ?case by (simp add: lm_run_append 1 2 go_simps)
qed

lemma compile_ne: "p \<noteq> [] \<Longrightarrow> compile p \<noteq> []"
  by (cases p; cases "hd p") (auto simp: compile_def)



subsection \<open>The program of the demonstration transaction\<close>

text \<open>
  The bytes \<^verbatim>\<open>transactionAdder\<close> builds; \<open>c\<close> is the random byte below 8 at their end,
  which makes the hashes of the transactions differ.
\<close>

definition transactionAdder_data :: "byte \<Rightarrow> bytes" where
  "transactionAdder_data c =
     [97, InstructionPushBytes, 98, InstructionPushBytes, 99, InstructionPushBytes,
      3, InstructionPushInt, InstructionPack,
      5, InstructionPushInt, 2, InstructionPushInt, InstructionAddInt,
      InstructionStore, c]"

lemma transactionAdder_compiled:
  "transactionAdder_data c = compile [Assign [97, 98, 99] (Add (Lit 5) (Lit 2))] @ [c]"
  by (simp add: transactionAdder_data_def compile_def compile_key_def)

lemma transactionAdder_run:
  assumes "c < 8"
  shows "lm_run None (transactionAdder_data c) (fresh cs) =
    (Ok (), (fresh cs)\<lparr>lm_cstate := cs\<lparr>cs_data := (cs_data cs)([97, 98, 99] \<mapsto> VInt 7)\<rparr>\<rparr>)"
proof -
  let ?p = "[Assign [97, 98, 99] (Add (Lit 5) (Lit 2))]"
  let ?d = "(cs_data cs)([97, 98, 99] \<mapsto> VInt 7)"
  have c: "\<not> is_opcode c"
    using assms by (auto simp: is_opcode_def opcodes)
  have "lm_run None (compile ?p) (fresh cs) =
      (Ok (), (fresh cs)\<lparr>lm_cstate := (lm_cstate (fresh cs))\<lparr>cs_data := ?d\<rparr>\<rparr>)"
    by (rule lm_run_compile) (auto simp: fresh_def stack_depth_def plain_key_def is_opcode_def opcodes)
  with c show ?thesis
    by (simp add: transactionAdder_compiled lm_run_append go_simps lm_exec_none fresh_def)
qed

text \<open>
  The demonstration transaction of \<^verbatim>\<open>main.go\<close> runs without an error for every random
  byte it can end with, and stores 7 under the key abc, whatever the contract state.
\<close>

lemma transactionAdder_stores_seven:
  assumes "NewVM (transactionAdder_data c) [ContractStateOpt cs] = Ok m" and "c < 8"
  shows "\<exists>m'. vm_run m = (Ok (), m') \<and> stack_elems (vm_stack m') = [] \<and>
     cs_data (vm_cstate m') = (cs_data cs)([97, 98, 99] \<mapsto> VInt 7)"
  using fresh_runD [OF assms(1) _ transactionAdder_run [OF assms(2)]]
  by (auto simp: fresh_def transactionAdder_data_def)

lemma transactionAdder_stores_seven_witness:
  "\<exists>m m'. NewVM (transactionAdder_data 3) [ContractStateOpt NewState] = Ok m \<and>
     vm_run m = (Ok (), m') \<and> cs_data (vm_cstate m') [97, 98, 99] = Some (VInt 7)"
proof -
  obtain m where m: "NewVM (transactionAdder_data 3) [ContractStateOpt NewState] = Ok m"
    using NewVM_Ok by blast
  from transactionAdder_stores_seven [OF m] m show ?thesis by auto
qed

end
