(* ===== verification/Vm_Types.thy ===== *)
theory Vm_Types
  imports Vm_Compile
begin

section \<open>Types for programs of the virtual machine\<close>

text \<open>
  \<^verbatim>\<open>vm/vm.go\<close> asserts the types of the values on its stack and panics when they are others.
  Here is a check of a program before its run, on the types of the values alone, and the
  proof that a program that passes it does not panic on the machine of \<open>Vm_Machine\<close>. The
  length of a key is an integer on the stack, so the types of integers know the literals.
\<close>

subsection \<open>Types of values\<close>

datatype ty = IntT "nat option" | ByteT | BytesT | AnyT

fun has_ty :: "val \<Rightarrow> ty \<Rightarrow> bool" where
  "has_ty v AnyT \<longleftrightarrow> True"
| "has_ty (VInt i) (IntT n) \<longleftrightarrow> (case n of None \<Rightarrow> True | Some k \<Rightarrow> sint i = int k)"
| "has_ty (VByte b) ByteT \<longleftrightarrow> True"
| "has_ty (VBytes b) BytesT \<longleftrightarrow> True"
| "has_ty v t \<longleftrightarrow> False"

fun subty :: "ty \<Rightarrow> ty \<Rightarrow> bool" where
  "subty t AnyT \<longleftrightarrow> True"
| "subty (IntT n) (IntT None) \<longleftrightarrow> True"
| "subty t u \<longleftrightarrow> t = u"

lemma has_ty_subty: "has_ty v t \<Longrightarrow> subty t u \<Longrightarrow> has_ty v u"
  by (cases "(t, u)" rule: subty.cases; cases v) auto

text \<open>All values of the contract state have one type.\<close>

definition state_typed :: "ty \<Rightarrow> cstate \<Rightarrow> bool" where
  "state_typed vt cs \<longleftrightarrow> (\<forall>k v. cs_data cs k = Some v \<longrightarrow> has_ty v vt)"

subsection \<open>The check\<close>

text \<open>
  One instruction on the types of the stack, top first; \<open>prev\<close> is the byte before it and
  \<open>vt\<close> the type of the values of the contract state.
\<close>

definition check_push :: "ty \<Rightarrow> byte option \<Rightarrow> ty list \<Rightarrow> ty list option" where
  "check_push t prev ts = (if prev \<noteq> None \<and> length ts < stack_depth then Some (t # ts) else None)"

fun check_add :: "ty list \<Rightarrow> ty list option" where
  "check_add (IntT m # IntT n # ts) = Some (IntT None # ts)"
| "check_add ts = None"

fun check_pack :: "ty list \<Rightarrow> ty list option" where
  "check_pack (IntT (Some n) # ts) =
     (if n \<le> length ts \<and> take n ts = replicate n ByteT then Some (BytesT # drop n ts) else None)"
| "check_pack ts = None"

fun check_store :: "ty \<Rightarrow> ty list \<Rightarrow> ty list option" where
  "check_store vt (t # BytesT # ts) = (if subty t vt then Some ts else None)"
| "check_store vt ts = None"

fun check_get :: "ty \<Rightarrow> ty list \<Rightarrow> ty list option" where
  "check_get vt (BytesT # ts) = Some (vt # ts)"
| "check_get vt ts = None"

definition check_inst :: "ty \<Rightarrow> byte option \<Rightarrow> byte \<Rightarrow> ty list \<Rightarrow> ty list option" where
  "check_inst vt prev inst ts =
    (if inst = InstructionPushInt then check_push (IntT (map_option unat prev)) prev ts
     else if inst = InstructionAddInt then check_add ts
     else if inst = InstructionPushBytes then check_push ByteT prev ts
     else if inst = InstructionPack then check_pack ts
     else if inst = InstructionStore then check_store vt ts
     else if inst = InstructionGet then check_get vt ts
     else Some ts)"

primrec check_from :: "ty \<Rightarrow> byte option \<Rightarrow> bytes \<Rightarrow> ty list \<Rightarrow> ty list option" where
  "check_from vt prev [] ts = Some ts"
| "check_from vt prev (b # bs) ts = Option.bind (check_inst vt prev b ts) (check_from vt (Some b) bs)"

definition check_program :: "ty \<Rightarrow> bytes \<Rightarrow> ty list option" where
  "check_program vt code = (if code = [] then None else check_from vt None code [])"

subsection \<open>Preservation and progress\<close>

text \<open>What the check promises of an instruction or a run from a stack of the types \<open>ts\<close>.\<close>

definition typed :: "ty \<Rightarrow> lmachine \<Rightarrow> ty list \<Rightarrow> bool" where
  "typed vt l ts \<longleftrightarrow> list_all2 has_ty (lm_stack l) ts \<and> length ts \<le> stack_depth \<and> state_typed vt (lm_cstate l)"

definition safe :: "ty \<Rightarrow> (goerror \<Rightarrow> goerror) \<Rightarrow> unit result \<times> lmachine \<Rightarrow> ty list \<Rightarrow> bool" where
  "safe vt wrap out ts \<longleftrightarrow> (case out of (r, l) \<Rightarrow> state_typed vt (lm_cstate l) \<and>
     (r = Ok () \<and> typed vt l ts \<or> (\<exists>k. r = Err (wrap (KeyMissing k)))))"

lemma sint_ucast_byte: "sint (ucast (d :: byte) :: goint) = int (unat d)"
proof -
  have "uint (ucast d :: goint) = uint d" by (rule uint_up_ucast) (simp add: is_up_def source_size_def target_size_def word_size)
  moreover have "uint d < 256" using uint_lt2p [of d] by simp
  moreover have "- (2 ^ 63) \<le> uint d" by (rule order_trans [OF _ uint_ge_0]) simp
  moreover from calculation have "signed_take_bit 63 (uint d) = uint d" by (intro signed_take_bit_int_eq_self) simp_all
  ultimately show ?thesis by (simp add: sint_uint)
qed

lemma check_push_safe:
  assumes "typed vt l ts" "check_push t prev ts = Some us" "\<And>d. prev = Some d \<Longrightarrow> has_ty (f d) t"
  shows "safe vt id (sbind (lift_result (operand prev)) (\<lambda>d. lm_push (f d)) l) us"
  using assms
  by (auto simp: check_push_def operand_def go_simps lm_push_room safe_def typed_def list_all2_lengthD split: if_splits)

lemma check_add_safe:
  assumes "typed vt l ts" "check_add ts = Some us"
  shows "safe vt id (lm_exec prev InstructionAddInt l) us"
  using assms(2)
proof (cases ts rule: check_add.cases)
  case (1 m n rest)
  with assms(1) obtain a b st where st: "lm_stack l = VInt a # VInt b # st" "list_all2 has_ty st rest"
    by (auto simp: typed_def list_all2_Cons2 elim!: has_ty.elims)
  moreover have "length st < stack_depth" using assms(1) 1 list_all2_lengthD [OF st(2)] by (simp add: typed_def)
  ultimately show ?thesis using assms 1 by (auto simp: lm_exec_AddInt safe_def typed_def)
qed auto

lemma typed_bytes:
  "list_all2 has_ty xs (replicate n ByteT) \<Longrightarrow> \<exists>bs. xs = map VByte bs \<and> length bs = n"
proof (induction n arbitrary: xs)
  case (Suc n)
  from Suc.prems obtain x ys where x: "xs = x # ys" "has_ty x ByteT" "list_all2 has_ty ys (replicate n ByteT)"
    by (auto simp: list_all2_Cons2)
  from Suc.IH [OF x(3)] obtain bs where "ys = map VByte bs" "length bs = n" by blast
  with x show ?case by (cases x) (auto intro: exI [of _ "_ # bs"])
qed simp

lemma check_pack_safe:
  assumes "typed vt l ts" "check_pack ts = Some us"
  shows "safe vt id (lm_exec prev InstructionPack l) us"
  using assms(2)
proof (cases ts rule: check_pack.cases)
  case (1 n rest)
  with assms(2) have n: "n \<le> length rest" "take n rest = replicate n ByteT" and us: "us = BytesT # drop n rest"
    by (simp_all split: if_splits)
  from assms(1) 1 obtain a xs where l: "lm_stack l = VInt a # xs" "sint a = int n" "list_all2 has_ty xs rest"
    by (auto simp: typed_def list_all2_Cons2 elim!: has_ty.elims)
  have "list_all2 has_ty (take n xs) (replicate n ByteT)" using list_all2_takeI [OF l(3), of n] by (simp add: n(2))
  then obtain bs where bs: "take n xs = map VByte bs" "length bs = n" using typed_bytes by blast
  then have "lm_stack l = VInt a # map VByte (rev (rev bs)) @ drop n xs" using l(1) by (metis append_take_drop_id rev_rev_ident)
  moreover have "length rest < stack_depth" using assms(1) 1 by (simp add: typed_def)
  then have "length (drop n xs) < stack_depth" "n \<le> 1024" using list_all2_lengthD [OF l(3)] n(1) by (simp_all add: stack_depth_def)
  ultimately have "lm_exec prev InstructionPack l = (Ok (), l\<lparr>lm_stack := VBytes (rev bs) # drop n xs\<rparr>)"
    using l(2) bs(2) by (intro lm_exec_Pack) (simp_all add: max_alloc_def)
  moreover have "list_all2 has_ty (drop n xs) (drop n rest)" by (rule list_all2_dropI [OF l(3)])
  ultimately show ?thesis using assms(1) \<open>length rest < stack_depth\<close> us n(1) by (simp add: safe_def typed_def)
qed auto

lemma check_store_safe:
  assumes "typed vt l ts" "check_store vt ts = Some us"
  shows "safe vt id (lm_exec prev InstructionStore l) us"
  using assms(2)
proof (cases "(vt, ts)" rule: check_store.cases)
  case (1 vt' t rest)
  with assms obtain v k st where l: "lm_stack l = v # VBytes k # st" "list_all2 has_ty st rest" "has_ty v t" "subty t vt"
    by (auto simp: typed_def list_all2_Cons2 elim!: has_ty.elims [of _ BytesT] split: if_splits)
  moreover have "has_ty v vt" by (rule has_ty_subty [OF l(3,4)])
  ultimately show ?thesis using assms 1 by (auto simp: lm_exec_Store safe_def typed_def state_typed_def split: if_splits)
qed auto

lemma check_get_safe:
  assumes "typed vt l ts" "check_get vt ts = Some us"
  shows "safe vt id (lm_exec prev InstructionGet l) us"
  using assms(2)
proof (cases "(vt, ts)" rule: check_get.cases)
  case (1 vt' rest)
  with assms(1) obtain k st where l: "lm_stack l = VBytes k # st" "list_all2 has_ty st rest" "length rest < stack_depth"
    by (auto simp: typed_def list_all2_Cons2 elim!: has_ty.elims [of _ BytesT])
  have len: "length st < stack_depth" using l(3) list_all2_lengthD [OF l(2)] by simp
  show ?thesis
  proof (cases "cs_data (lm_cstate l) k")
    case None
    with assms(1) show ?thesis by (simp add: lm_exec_def go_simps lm_pop_Cons [OF l(1)] State_Get_def safe_def typed_def)
  next
    case (Some v)
    with assms 1 l len show ?thesis by (auto simp: lm_exec_Get safe_def typed_def state_typed_def)
  qed
qed auto

lemma check_inst_safe:
  assumes "typed vt l ts" "check_inst vt prev b ts = Some us"
  shows "safe vt id (lm_exec prev b l) us"
proof -
  consider "b = InstructionPushInt" | "b = InstructionAddInt" | "b = InstructionPushBytes" | "b = InstructionPack"
    | "b = InstructionStore" | "b = InstructionGet" | "\<not> is_opcode b" by (auto simp: is_opcode_def)
  then show ?thesis
  proof cases
    case 1
    have "safe vt id (sbind (lift_result (operand prev)) (\<lambda>d. lm_push (VInt (ucast d))) l) us"
      by (rule check_push_safe [OF assms(1), of "IntT (map_option unat prev)" prev])
         (use assms(2) 1 in \<open>auto simp: check_inst_def sint_ucast_byte\<close>)
    then show ?thesis by (simp add: 1 lm_exec_def)
  next
    case 3
    have "safe vt id (sbind (lift_result (operand prev)) (\<lambda>d. lm_push (VByte d)) l) us"
      by (rule check_push_safe [OF assms(1), of ByteT prev]) (use assms(2) 3 in \<open>simp_all add: check_inst_def\<close>)
    then show ?thesis by (simp add: 3 lm_exec_def)
  next
    case 7
    with assms show ?thesis by (simp add: check_inst_def lm_exec_none safe_def typed_def is_opcode_def)
  qed (use assms check_add_safe check_pack_safe check_store_safe check_get_safe in \<open>simp_all add: check_inst_def\<close>)
qed

lemma check_from_safe:
  "typed vt l ts \<Longrightarrow> check_from vt prev bs ts = Some us \<Longrightarrow> safe vt VmRun (lm_run prev bs l) us"
proof (induction bs arbitrary: prev l ts)
  case Nil
  then show ?case by (simp add: go_simps safe_def typed_def)
next
  case (Cons b bs)
  from Cons.prems(2) obtain vs where vs: "check_inst vt prev b ts = Some vs" "check_from vt (Some b) bs vs = Some us"
    by (auto simp: bind_eq_Some_conv)
  obtain r l1 where r: "lm_exec prev b l = (r, l1)" by fastforce
  from check_inst_safe [OF Cons.prems(1) vs(1)] consider "r = Ok ()" "typed vt l1 vs"
    | k where "r = Err (KeyMissing k)" "state_typed vt (lm_cstate l1)" by (auto simp: safe_def r)
  then show ?case
  proof cases
    case 1
    from Cons.IH [OF 1(2) vs(2)] show ?thesis by (simp add: lm_run_Cons [OF r] 1(1) del: lm_run.simps)
  next
    case (2 k)
    then show ?thesis by (simp add: lm_run_Cons [OF r] safe_def del: lm_run.simps)
  qed
qed

subsection \<open>Type safety of a run\<close>

text \<open>
  C10: types. A program that passes the check, on a contract state whose values have the
  type \<open>vt\<close>, never panics: its run ends without an error and with values of the inferred
  types on the stack, or with the error of a missing key; either way the values of the
  contract state still have the type \<open>vt\<close>, so the next program can be checked the same way.
\<close>

theorem checked_program_is_safe:
  assumes "check_program vt code = Some ts" and "state_typed vt cs" and "NewVM code [ContractStateOpt cs] = Ok m"
  shows "\<exists>r m'. vm_run m = (r, m') \<and> state_typed vt (vm_cstate m') \<and>
    (r = Ok () \<and> list_all2 has_ty (stack_elems (vm_stack m')) ts \<or> (\<exists>k. r = Err (VmRun (KeyMissing k))))"
proof -
  have code: "code \<noteq> []" "check_from vt None code [] = Some ts" using assms(1) by (simp_all add: check_program_def split: if_splits)
  have "typed vt (fresh cs) []" using assms(2) by (simp add: typed_def fresh_def)
  note s = check_from_safe [OF this code(2)]
  show ?thesis
    by (rule fresh_run [OF assms(3) code(1)]) (use s in \<open>auto simp: safe_def typed_def\<close>)
qed

text \<open>The demonstration transaction passes, for contract states of integers.\<close>

theorem checked_program_is_safe_witness:
  "\<exists>m r m'. check_program (IntT None) (transactionAdder_data 3) = Some [] \<and>
     NewVM (transactionAdder_data 3) [ContractStateOpt NewState] = Ok m \<and> vm_run m = (r, m') \<and> state_typed (IntT None) (vm_cstate m')"
proof -
  have "replicate 3 ByteT = [ByteT, ByteT, ByteT]" by (simp add: numeral_3_eq_3)
  then have "check_program (IntT None) (transactionAdder_data 3) = Some []"
    by (simp add: check_program_def transactionAdder_data_def check_inst_def check_push_def opcodes stack_depth_def)
  moreover have "state_typed (IntT None) NewState" by (simp add: state_typed_def NewState_def)
  moreover obtain m where "NewVM (transactionAdder_data 3) [ContractStateOpt NewState] = Ok m" using NewVM_Ok by blast
  ultimately show ?thesis using checked_program_is_safe by blast
qed

end
