(* ===== verification/Types_List.thy ===== *)
theory Types_List
  imports Prelude
begin

section \<open>Generic lists\<close>

text \<open>
  Models \<^verbatim>\<open>types/list.go\<close>. Elements are compared with \<^verbatim>\<open>reflect.DeepEqual\<close>, which is a
  parameter \<open>eq\<close> of the operations that use it: on pointers it compares what they point
  to, so it depends on the memory. The interface \<open>deep_eq\<close> is what the list relies on.
\<close>

subsection \<open>The operations\<close>

record 'a golist =
  l_data :: "'a list"

definition NewList :: "'a golist" where
  "NewList = \<lparr>l_data = []\<rparr>"

definition List_Len :: "'a golist \<Rightarrow> int" where
  "List_Len l = int (length (l_data l))"

definition List_Get :: "'a golist \<Rightarrow> int \<Rightarrow> 'a result" where
  "List_Get l idx =
     (if idx > int (length (l_data l)) - 1 \<or> idx < 0
      then Err (ListIndex idx (int (length (l_data l))))
      else go_index (l_data l) idx)"

definition List_Append :: "'a \<Rightarrow> 'a golist \<Rightarrow> 'a golist" where
  "List_Append v l = l\<lparr>l_data := l_data l @ [v]\<rparr>"

definition List_Clear :: "'a golist \<Rightarrow> 'a golist" where
  "List_Clear l = l\<lparr>l_data := []\<rparr>"

text \<open>The loop of \<^verbatim>\<open>Index\<close> from position \<open>i\<close> on.\<close>

primrec index_from :: "('a \<Rightarrow> 'a \<Rightarrow> bool) \<Rightarrow> int \<Rightarrow> 'a list \<Rightarrow> 'a \<Rightarrow> int" where
  "index_from eq i [] v = - 1"
| "index_from eq i (x # xs) v = (if eq x v then i else index_from eq (i + 1) xs v)"

definition List_Index :: "('a \<Rightarrow> 'a \<Rightarrow> bool) \<Rightarrow> 'a golist \<Rightarrow> 'a \<Rightarrow> int" where
  "List_Index eq l v = index_from eq 0 (l_data l) v"

definition List_DeleteAt :: "int \<Rightarrow> 'a golist \<Rightarrow> 'a golist" where
  "List_DeleteAt idx l =
     (if idx < 0 \<or> idx \<ge> int (length (l_data l)) then l
      else let out = take (nat idx) (l_data l);
               out' = (if idx \<noteq> int (length (l_data l)) - 1
                       then out @ drop (nat (idx + 1)) (l_data l) else out)
           in l\<lparr>l_data := out'\<rparr>)"

definition List_Delete :: "('a \<Rightarrow> 'a \<Rightarrow> bool) \<Rightarrow> 'a \<Rightarrow> 'a golist \<Rightarrow> 'a golist" where
  "List_Delete eq v l =
     (let idx = List_Index eq l v in if idx \<noteq> - 1 then List_DeleteAt idx l else l)"

primrec contains_loop :: "('a \<Rightarrow> 'a \<Rightarrow> bool) \<Rightarrow> 'a list \<Rightarrow> 'a \<Rightarrow> bool" where
  "contains_loop eq [] v = False"
| "contains_loop eq (x # xs) v = (if eq x v then True else contains_loop eq xs v)"

definition List_Contains :: "('a \<Rightarrow> 'a \<Rightarrow> bool) \<Rightarrow> 'a golist \<Rightarrow> 'a \<Rightarrow> bool" where
  "List_Contains eq l v = contains_loop eq (l_data l) v"

definition List_Last :: "'a golist \<Rightarrow> 'a result" where
  "List_Last l = go_index (l_data l) (int (length (l_data l)) - 1)"

definition List_Slice :: "'a golist \<Rightarrow> 'a list" where
  "List_Slice l = l_data l"

subsection \<open>Facts that hold for every comparison\<close>

lemma List_Get_Ok_iff: "List_Get l idx = Ok v \<longleftrightarrow>
    0 \<le> idx \<and> idx < int (length (l_data l)) \<and> v = l_data l ! nat idx"
  by (auto simp: List_Get_def go_index_def)

lemma List_DeleteAt_data:
  "i < length (l_data l) \<Longrightarrow>
   l_data (List_DeleteAt (int i) l) = take i (l_data l) @ drop (Suc i) (l_data l)"
  by (auto simp: List_DeleteAt_def Let_def nat_add_distrib)

lemma index_from_ge: "index_from eq i xs v = - 1 \<or> i \<le> index_from eq i xs v"
proof (induction xs arbitrary: i)
  case (Cons x xs)
  from Cons.IH [of "i + 1"] show ?case by auto
qed simp

lemma index_from_cases:
  "0 \<le> i \<Longrightarrow> (index_from eq i xs v = - 1 \<and> (\<forall>x \<in> set xs. \<not> eq x v)) \<or>
   (\<exists>j < length xs. index_from eq i xs v = i + int j \<and> eq (xs ! j) v \<and> (\<forall>k < j. \<not> eq (xs ! k) v))"
proof (induction xs arbitrary: i)
  case (Cons x xs)
  show ?case
  proof (cases "eq x v")
    case True
    then show ?thesis by (intro disjI2 exI [of _ 0]) simp
  next
    case False
    have "0 \<le> i + 1" using Cons.prems by simp
    from Cons.IH [OF this] show ?thesis
    proof (elim disjE exE conjE)
      fix j
      assume "j < length xs" "index_from eq (i + 1) xs v = i + 1 + int j" "eq (xs ! j) v"
        "\<forall>k < j. \<not> eq (xs ! k) v"
      with False show ?thesis
        by (intro disjI2 exI [of _ "Suc j"]) (auto simp: nth_Cons split: nat.split)
    qed (use False in auto)
  qed
qed simp

lemma contains_loop_iff: "contains_loop eq xs v \<longleftrightarrow> (\<exists>x \<in> set xs. eq x v)"
  by (induction xs) auto

subsection \<open>The interface of the comparison\<close>

locale deep_eq =
  fixes eq :: "'a \<Rightarrow> 'a \<Rightarrow> bool"
  assumes eq_refl: "eq x x"
    and eq_sym: "eq x y \<Longrightarrow> eq y x"
    and eq_trans: "eq x y \<Longrightarrow> eq y z \<Longrightarrow> eq x z"
begin

lemma contains_index: "List_Contains eq l v \<longleftrightarrow> List_Index eq l v \<noteq> - 1"
  using index_from_cases [of 0 eq "l_data l" v]
  by (auto simp: List_Contains_def List_Index_def contains_loop_iff)

lemma contains_member: "v \<in> set (l_data l) \<Longrightarrow> List_Contains eq l v"
  by (auto simp: List_Contains_def contains_loop_iff intro: eq_refl)

lemma delete_absent: "\<not> List_Contains eq l v \<Longrightarrow> List_Delete eq v l = l"
  by (simp add: contains_index List_Delete_def)

lemma delete_split:
  assumes "List_Contains eq l v"
  obtains xs x ys where "l_data l = xs @ x # ys" "eq x v" "\<forall>z \<in> set xs. \<not> eq z v"
    "l_data (List_Delete eq v l) = xs @ ys"
proof -
  from assms index_from_cases [of 0 eq "l_data l" v] obtain j where
    j: "j < length (l_data l)" "List_Index eq l v = int j" "eq (l_data l ! j) v"
    "\<forall>k < j. \<not> eq (l_data l ! k) v"
    by (auto simp: contains_index List_Index_def)
  show thesis
  proof (rule that [of "take j (l_data l)" "l_data l ! j" "drop (Suc j) (l_data l)"])
    show "l_data l = take j (l_data l) @ l_data l ! j # drop (Suc j) (l_data l)"
      using j(1) by (rule id_take_nth_drop)
    show "\<forall>z \<in> set (take j (l_data l)). \<not> eq z v"
      using j(1,4) by (auto simp: in_set_conv_nth)
    show "l_data (List_Delete eq v l) = take j (l_data l) @ drop (Suc j) (l_data l)"
      using j by (simp add: List_Delete_def List_DeleteAt_data)
  qed (rule j)
qed

lemma delete_member_length:
  "v \<in> set (l_data l) \<Longrightarrow> length (l_data (List_Delete eq v l)) = length (l_data l) - 1"
  by (erule contains_member [THEN delete_split]) simp

lemma delete_subset: "set (l_data (List_Delete eq v l)) \<subseteq> set (l_data l)"
  by (cases "List_Contains eq l v") (auto elim: delete_split simp: delete_absent)

end

interpretation plain_eq: deep_eq "(=)"
  by unfold_locales auto

lemma List_Delete_remove1: "l_data (List_Delete (=) v l) = remove1 v (l_data l)"
proof (cases "List_Contains (=) l v")
  case True
  then show ?thesis
    by (rule plain_eq.delete_split) (auto simp: remove1_append)
next
  case False
  then have "v \<notin> set (l_data l)" by (rule contrapos_nn) (rule plain_eq.contains_member)
  with plain_eq.delete_absent [OF False] show ?thesis by (simp add: remove1_idem)
qed

text \<open>
  Deleting a value that is in the list removes exactly its first deep-equal element and
  keeps the order of the others: afterwards \<^verbatim>\<open>Get\<close> reads the elements behind it one
  position earlier, and the error of a position out of range names the new length.
\<close>

lemma List_Delete_first_match:
  assumes "List_Index eq l v = int i"
  shows "eq (l_data l ! i) v \<and> (\<forall>j < i. \<not> eq (l_data l ! j) v) \<and>
    List_Len (List_Delete eq v l) = List_Len l - 1 \<and>
    (\<forall>k. List_Get (List_Delete eq v l) (int k) =
       (if k < i then List_Get l (int k)
        else if Suc k < length (l_data l) then List_Get l (int k + 1)
        else Err (ListIndex (int k) (List_Len l - 1))))"
proof -
  from index_from_cases [of 0 eq "l_data l" v] assms have
    i: "i < length (l_data l)" "eq (l_data l ! i) v" "\<forall>j < i. \<not> eq (l_data l ! j) v"
    by (auto simp: List_Index_def)
  then have d: "l_data (List_Delete eq v l) = take i (l_data l) @ drop (Suc i) (l_data l)"
    using assms by (simp add: List_Delete_def List_DeleteAt_data)
  from i show ?thesis
    by (auto simp: List_Len_def List_Get_def d nth_append go_index_def nat_add_distrib min_def)
qed

lemma List_Delete_first_match_witness:
  "List_Index (=) \<lparr>l_data = [7, 8, 9, 8 :: nat]\<rparr> 8 = int 1 \<and>
   List_Get (List_Delete (=) 8 \<lparr>l_data = [7, 8, 9, 8 :: nat]\<rparr>) 1 = Ok 9"
proof -
  have i: "List_Index (=) \<lparr>l_data = [7, 8, 9, 8 :: nat]\<rparr> 8 = int 1"
    by (simp add: List_Index_def)
  from List_Delete_first_match [OF i] i show ?thesis
    by (auto simp: List_Get_def go_index_def dest: spec [of _ "1 :: nat"])
qed

end
