(* ===== verification/Types_Hash.thy ===== *)
theory Types_Hash
  imports Prelude "HOL-Library.Char_ord"
begin

section \<open>Hashes and addresses\<close>

text \<open>
  Models \<^verbatim>\<open>types/hash.go\<close> and \<^verbatim>\<open>types/address.go\<close>. The arrays of 32 and 20 bytes are byte
  lists of that length. \<^verbatim>\<open>encoding/hex\<close>, which the code prints and parses hashes with, is
  written out: two lower-case digits for a byte, both cases accepted, an error for an odd
  length or another character.
\<close>

subsection \<open>Hexadecimal digits\<close>

definition hex_digit :: "nat \<Rightarrow> char" where
  "hex_digit n = ''0123456789abcdef'' ! n"

definition EncodeToString :: "bytes \<Rightarrow> string" where
  "EncodeToString bs = concat (map (\<lambda>b. [hex_digit (unat b div 16), hex_digit (unat b mod 16)]) bs)"

definition fromHexChar :: "char \<Rightarrow> nat option" where
  "fromHexChar c =
     (if CHR ''0'' \<le> c \<and> c \<le> CHR ''9'' then Some (of_char c - 48)
      else if CHR ''a'' \<le> c \<and> c \<le> CHR ''f'' then Some (of_char c - 87)
      else if CHR ''A'' \<le> c \<and> c \<le> CHR ''F'' then Some (of_char c - 55)
      else None)"

fun DecodeString :: "string \<Rightarrow> bytes result" where
  "DecodeString [] = Ok []"
| "DecodeString [c] = (if fromHexChar c = None then Err (HexInvalidByte c) else Err HexOddLength)"
| "DecodeString (c # d # s) =
     (case fromHexChar c of None \<Rightarrow> Err (HexInvalidByte c)
      | Some x \<Rightarrow> (case fromHexChar d of None \<Rightarrow> Err (HexInvalidByte d)
          | Some y \<Rightarrow> bind_result (DecodeString s) (\<lambda>bs. Ok (of_nat (16 * x + y) # bs))))"

lemma fromHexChar_hex_digit: "n < 16 \<Longrightarrow> fromHexChar (hex_digit n) = Some n"
proof -
  assume "n < 16"
  then have "n \<in> {0, 1, 2, 3, 4, 5, 6, 7, 8, 9, 10, 11, 12, 13, 14, 15}" by (simp, arith)
  then show ?thesis
    by (elim insertE emptyE; simp; simp add: hex_digit_def fromHexChar_def less_eq_char_def)
qed

lemma DecodeString_Encode: "DecodeString (EncodeToString bs) = Ok bs"
proof (induction bs)
  case (Cons b bs)
  have "unat b < 256" using unsigned_less [of b, where 'a = nat] by simp
  then have "unat b div 16 < 16" "unat b mod 16 < 16" by auto
  moreover have "16 * (unat b div 16) + unat b mod 16 = unat b" by simp
  ultimately show ?case
    using Cons by (simp add: EncodeToString_def fromHexChar_hex_digit)
qed (simp add: EncodeToString_def)

lemma length_EncodeToString [simp]: "length (EncodeToString bs) = 2 * length bs"
  by (induction bs) (simp_all add: EncodeToString_def)

lemma length_DecodeString: "DecodeString s = Ok bs \<Longrightarrow> length s = 2 * length bs"
  by (induction s arbitrary: bs rule: DecodeString.induct)
     (auto split: option.splits if_splits)

lemma DecodeString_not_Panic: "DecodeString s \<noteq> Panic p"
proof (induction s rule: DecodeString.induct)
  case (3 c d s)
  show ?case
  proof (cases "fromHexChar c")
    case (Some x)
    show ?thesis
    proof (cases "fromHexChar d")
      case (Some y)
      with \<open>fromHexChar c = Some x\<close> 3 show ?thesis by (cases "DecodeString s") auto
    qed (use Some in simp)
  qed simp
qed auto

subsection \<open>Hashes\<close>

definition HASH_BYTE_LEN :: nat where
  "HASH_BYTE_LEN = 32"

definition zero_hash :: hash where
  "zero_hash = replicate HASH_BYTE_LEN 0"

definition HashFromBytes :: "bytes \<Rightarrow> hash result" where
  "HashFromBytes b = (if length b \<noteq> HASH_BYTE_LEN then Panic ExplicitPanic else Ok b)"

text \<open>
  The random bytes of \<^verbatim>\<open>math/rand\<close> are a parameter: the successive bytes of its source,
  with which \<^verbatim>\<open>rand.Read\<close> fills the whole slice.
\<close>

definition RandomBytes :: "(nat \<Rightarrow> byte) \<Rightarrow> nat \<Rightarrow> bytes" where
  "RandomBytes source n = fold (\<lambda>i val. val[i := source i]) [0..<n] (replicate n 0)"

definition RandomHash :: "(nat \<Rightarrow> byte) \<Rightarrow> hash result" where
  "RandomHash source = HashFromBytes (RandomBytes source HASH_BYTE_LEN)"

lemma RandomBytes_prefix:
  fixes source :: "nat \<Rightarrow> byte"
  shows "k \<le> n \<Longrightarrow> fold (\<lambda>i val. val[i := source i]) [0..<k] (replicate n 0) =
    map source [0..<k] @ replicate (n - k) 0"
proof (induction k)
  case (Suc k)
  then have "n - k = Suc (n - Suc k)" by simp
  then have "replicate (n - k) (0 :: byte) = 0 # replicate (n - Suc k) 0" by (simp only: replicate_Suc)
  with Suc show ?case by (simp add: list_update_append del: replicate_Suc)
qed simp

lemma RandomHash_Ok: "RandomHash source = Ok (map source [0..<HASH_BYTE_LEN])"
  by (simp add: RandomHash_def RandomBytes_def RandomBytes_prefix HashFromBytes_def)

primrec Hash_IsZero :: "hash \<Rightarrow> bool" where
  "Hash_IsZero [] = True"
| "Hash_IsZero (b # h) = (if b \<noteq> 0 then False else Hash_IsZero h)"

definition Hash_ToSlice :: "hash \<Rightarrow> bytes" where
  "Hash_ToSlice h = h"

definition Hash_String :: "hash \<Rightarrow> string" where
  "Hash_String h = EncodeToString (Hash_ToSlice h)"

definition Hash_Prefix :: "hash \<Rightarrow> string" where
  "Hash_Prefix h = take 8 (Hash_String h)"

definition Hash_MarshalJSON :: "hash \<Rightarrow> string" where
  "Hash_MarshalJSON h = [CHR 0x22] @ Hash_String h @ [CHR 0x22]"

definition HashFromHex :: "string \<Rightarrow> hash result" where
  "HashFromHex hx = bind_result (DecodeString hx) HashFromBytes"

lemma Hash_IsZero_iff: "Hash_IsZero h \<longleftrightarrow> h = replicate (length h) 0"
  by (induction h) auto

lemma Hash_IsZero_zero_hash [simp]: "Hash_IsZero zero_hash"
  by (simp add: Hash_IsZero_iff zero_hash_def)

subsection \<open>Addresses\<close>

definition AddressLen :: nat where
  "AddressLen = 20"

definition Address_ToSlice :: "bytes \<Rightarrow> bytes" where
  "Address_ToSlice a = a"

text \<open>The copying loop writes every byte of the argument into an array of 20.\<close>

primrec address_copy :: "int \<Rightarrow> bytes \<Rightarrow> bytes \<Rightarrow> bytes result" where
  "address_copy i [] out = Ok out"
| "address_copy i (b # bs) out = bind_result (go_set out i b) (address_copy (i + 1) bs)"

definition MustAddressFromBytes :: "bytes \<Rightarrow> bytes result" where
  "MustAddressFromBytes b =
     (if length b < AddressLen then Panic ExplicitPanic
      else address_copy 0 b (replicate AddressLen 0))"

definition Address_String :: "bytes \<Rightarrow> string" where
  "Address_String a = EncodeToString (Address_ToSlice a)"

lemma address_copy_spec:
  "int (length out) = int i + int n \<Longrightarrow> address_copy (int i) bs out =
     (if length bs \<le> n then Ok (take i out @ bs @ drop (i + length bs) out)
      else Panic IndexOutOfRange)"
proof (induction bs arbitrary: i n out)
  case (Cons b bs)
  show ?case
  proof (cases n)
    case 0
    with Cons.prems show ?thesis by (simp add: go_set_def)
  next
    case (Suc m)
    with Cons.prems have l: "i < length out" by linarith
    with Cons.prems Suc have "address_copy (int (Suc i)) bs (out[i := b]) =
       (if length bs \<le> m then Ok (take (Suc i) (out[i := b]) @ bs @ drop (Suc i + length bs) (out[i := b]))
        else Panic IndexOutOfRange)"
      by (intro Cons.IH) simp
    with l Suc show ?thesis
      by (simp add: take_Suc_conv_app_nth add.commute)
  qed
qed simp

text \<open>
  Printing a hash and parsing it back gives the same hash; the print has 64 digits and
  the prefix, which is used in messages, 8.
\<close>

lemma HashFromHex_String:
  assumes "length h = 32"
  shows "HashFromHex (Hash_String h) = Ok h \<and> length (Hash_String h) = 64 \<and>
    length (Hash_Prefix h) = 8"
  using assms
  by (simp add: HashFromHex_def Hash_String_def Hash_ToSlice_def DecodeString_Encode
      HashFromBytes_def HASH_BYTE_LEN_def Hash_Prefix_def)

lemma HashFromHex_String_witness:
  "length (replicate 32 (171 :: byte)) = 32 \<and>
   HashFromHex (Hash_String (replicate 32 171)) = Ok (replicate 32 171)"
  using HashFromHex_String [of "replicate 32 171"] by simp

text \<open>
  \<^verbatim>\<open>HashFromHex\<close> returns an error only for a string that is not hexadecimal; a
  hexadecimal string of another length than 64 digits makes it panic.
\<close>

lemma HashFromHex_outcome:
  "(\<exists>e. HashFromHex s = Err e) = (\<exists>e. DecodeString s = Err e) \<and>
   (HashFromHex s = Panic ExplicitPanic) = ((\<exists>b. DecodeString s = Ok b) \<and> length s \<noteq> 64) \<and>
   (\<exists>h. HashFromHex s = Ok h) = ((\<exists>b. DecodeString s = Ok b) \<and> length s = 64)"
proof (cases "DecodeString s")
  case (Ok b)
  with length_DecodeString [OF Ok] show ?thesis
    by (auto simp: HashFromHex_def HashFromBytes_def HASH_BYTE_LEN_def)
next
  case (Err e)
  then show ?thesis by (simp add: HashFromHex_def)
next
  case (Panic p)
  with DecodeString_not_Panic [of s p] show ?thesis by simp
qed

lemma MustAddressFromBytes_20:
  "length b = 20 \<Longrightarrow> MustAddressFromBytes b = Ok b"
  using address_copy_spec [of "replicate AddressLen 0" 0 AddressLen b]
  by (simp add: MustAddressFromBytes_def AddressLen_def)

text \<open>
  \<^verbatim>\<open>MustAddressFromBytes\<close> accepts exactly 20 bytes: fewer panic with its message, more
  panic with an index out of range in the copying loop.
\<close>

lemma MustAddressFromBytes_outcome:
  "MustAddressFromBytes b =
     (if length b = 20 then Ok b
      else if length b < 20 then Panic ExplicitPanic else Panic IndexOutOfRange)"
  using address_copy_spec [of "replicate AddressLen 0" 0 AddressLen b]
  by (auto simp: MustAddressFromBytes_def AddressLen_def)

end
