(* ===== verification/Core_Data.thy ===== *)
theory Core_Data
  imports Types_Hash
begin

section \<open>Transactions, blocks and the memory they live in\<close>

text \<open>
  The data of \<^verbatim>\<open>core/transaction.go\<close> and \<^verbatim>\<open>core/block.go\<close>. Transactions, headers and blocks
  are reached through pointers, shared between the mempool, the blocks and the stores, and
  written through them (a cached hash, the hasher, a data hash). So the model has a
  memory: references are natural numbers, and the heap maps a reference to the object it
  points to, one map for each type. \<open>h_next\<close> is the next unused reference.

  What the code uses of the standard library but has no code for in the repository is a
  record of functions, \<open>lib\<close>: SHA-256, the gob encodings, elliptic curve keys and
  signatures. Properties that rely on one of them name the documented behaviour as a
  hypothesis, one of the contracts at the end.
\<close>

subsection \<open>Objects\<close>

type_synonym ref = nat

record header =
  hd_Version :: u32
  hd_DataHash :: hash
  hd_PreviousBlockHash :: hash
  hd_Timestamp :: u64
  hd_Height :: u32

text \<open>The only implementation of the hasher interface for transactions.\<close>

datatype tx_hasher = DefaultTxHasher

text \<open>
  A nil pointer is \<open>None\<close>. The creation time is in nanoseconds, 0 for the zero time.
\<close>

record transaction =
  tx_Data :: bytes
  tx_From :: bytes
  tx_Signature :: "bytes option"
  tx_hash :: hash
  tx_createdAt :: int
  tx_hasher :: "tx_hasher option"

record block =
  blk_Header :: "ref option"
  blk_Transactions :: "ref list"
  blk_Validator :: bytes
  blk_Signature :: "bytes option"
  blk_hash :: hash

subsection \<open>The memory\<close>

record heap =
  h_txs :: "ref \<Rightarrow> transaction"
  h_headers :: "ref \<Rightarrow> header"
  h_blocks :: "ref \<Rightarrow> block"
  h_next :: ref

definition on_tx :: "ref \<Rightarrow> (transaction, 'a) go \<Rightarrow> (heap, 'a) go" where
  "on_tx r = szoom (\<lambda>h. h_txs h r) (\<lambda>t h. h\<lparr>h_txs := (h_txs h)(r := t)\<rparr>)"

definition on_header :: "ref \<Rightarrow> (header, 'a) go \<Rightarrow> (heap, 'a) go" where
  "on_header r = szoom (\<lambda>h. h_headers h r) (\<lambda>t h. h\<lparr>h_headers := (h_headers h)(r := t)\<rparr>)"

definition on_block :: "ref \<Rightarrow> (block, 'a) go \<Rightarrow> (heap, 'a) go" where
  "on_block r = szoom (\<lambda>h. h_blocks h r) (\<lambda>t h. h\<lparr>h_blocks := (h_blocks h)(r := t)\<rparr>)"

definition alloc_header :: "header \<Rightarrow> (heap, ref) go" where
  "alloc_header x = (\<lambda>h. (Ok (h_next h),
     h\<lparr>h_headers := (h_headers h)(h_next h := x), h_next := h_next h + 1\<rparr>))"

definition alloc_block :: "block \<Rightarrow> (heap, ref) go" where
  "alloc_block x = (\<lambda>h. (Ok (h_next h),
     h\<lparr>h_blocks := (h_blocks h)(h_next h := x), h_next := h_next h + 1\<rparr>))"

definition alloc_tx :: "transaction \<Rightarrow> (heap, ref) go" where
  "alloc_tx x = (\<lambda>h. (Ok (h_next h),
     h\<lparr>h_txs := (h_txs h)(h_next h := x), h_next := h_next h + 1\<rparr>))"

text \<open>\<^verbatim>\<open>reflect.DeepEqual\<close> on transaction pointers: the same pointer or equal contents.\<close>

definition deep_equal_tx :: "heap \<Rightarrow> ref \<Rightarrow> ref \<Rightarrow> bool" where
  "deep_equal_tx h r s \<longleftrightarrow> r = s \<or> h_txs h r = h_txs h s"

subsection \<open>The standard library\<close>

text \<open>The exported fields of a transaction, which gob encodes.\<close>

type_synonym tx_wire = "bytes \<times> bytes \<times> bytes option"

definition tx_wire :: "transaction \<Rightarrow> tx_wire" where
  "tx_wire t = (tx_Data t, tx_From t, tx_Signature t)"

text \<open>
  \<open>sha256\<close> is \<^verbatim>\<open>crypto/sha256\<close>; \<open>gob_header\<close> and \<open>gob_tx\<close> are one gob message (\<open>None\<close> for
  an encoding error); \<open>key_public\<close> is the compressed public point of a key,
  \<open>unmarshal_point\<close> its inverse (\<open>None\<close> for the nil point of bad bytes); \<open>ecdsa_sign\<close>
  takes the random input first; \<open>ecdsa_verify\<close> takes the point, the data and the
  signature.
\<close>

record lib =
  sha256 :: "bytes \<Rightarrow> hash"
  gob_header :: "header \<Rightarrow> bytes option"
  gob_tx :: "tx_wire \<Rightarrow> bytes option"
  key_public :: "nat \<Rightarrow> bytes"
  unmarshal_point :: "bytes \<Rightarrow> (int \<times> int) option"
  ecdsa_sign :: "nat \<Rightarrow> nat \<Rightarrow> bytes \<Rightarrow> bytes option"
  ecdsa_verify :: "(int \<times> int) option \<Rightarrow> bytes \<Rightarrow> bytes \<Rightarrow> bool"

text \<open>What the documentation of these packages says, as hypotheses of properties.\<close>

definition sha256_length :: "lib \<Rightarrow> bool" where
  "sha256_length L \<longleftrightarrow> (\<forall>b. length (sha256 L b) = 32)"

definition ecdsa_signs :: "lib \<Rightarrow> bool" where
  "ecdsa_signs L \<longleftrightarrow> (\<forall>r k d s. ecdsa_sign L r k d = Some s \<longrightarrow>
     ecdsa_verify L (unmarshal_point L (key_public L k)) d s)"

text \<open>Data longer than the bit length of the curve order (256) is truncated to it.\<close>

definition ecdsa_truncates :: "lib \<Rightarrow> bool" where
  "ecdsa_truncates L \<longleftrightarrow> (\<forall>p d s. ecdsa_verify L p d s = ecdsa_verify L p (take 32 d) s)"

text \<open>A gob stream starts with the description of its type, longer than 32 bytes here.\<close>

definition gob_describes_type_first :: "lib \<Rightarrow> bool" where
  "gob_describes_type_first L \<longleftrightarrow> (\<forall>x y a b. gob_header L x = Some a \<longrightarrow> gob_header L y = Some b \<longrightarrow>
     take 32 a = take 32 b)"

definition gob_total :: "lib \<Rightarrow> bool" where
  "gob_total L \<longleftrightarrow> (\<forall>x. gob_header L x \<noteq> None) \<and> (\<forall>t. gob_tx L t \<noteq> None)"

text \<open>No two headers of a set have the same hash.\<close>

definition header_hash :: "lib \<Rightarrow> header \<Rightarrow> hash option" where
  "header_hash L x = map_option (sha256 L) (gob_header L x)"

definition no_header_collision :: "lib \<Rightarrow> header set \<Rightarrow> bool" where
  "no_header_collision L X \<longleftrightarrow> inj_on (header_hash L) X"

subsection \<open>An instance of the library\<close>

text \<open>
  A concrete instance for evaluating the model on examples: the hash keeps the last 31
  bytes, the gob message of a header has 32 constant bytes first, a signature is the key
  and the first 32 bytes of the data. The gob message of a transaction has its fields with a
  mark before every byte and one at the end of a field. It satisfies the contracts.
\<close>

primrec framed :: "bytes \<Rightarrow> bytes" where
  "framed [] = [0]"
| "framed (b # bs) = 1 # b # framed bs"


definition demo_lib :: lib where
  "demo_lib = \<lparr>
     sha256 = (\<lambda>b. 1 # take 31 (rev b @ replicate 31 0)),
     gob_header = (\<lambda>x. Some (replicate 32 7 @ take 8 (hd_PreviousBlockHash x) @ take 8 (hd_DataHash x) @
        [ucast (hd_Timestamp x), ucast (hd_Version x), ucast (hd_Height x)])),
     gob_tx = (\<lambda>(d, f, s). Some (framed f @ framed (case s of None \<Rightarrow> [] | Some x \<Rightarrow> x) @ framed d)),
     key_public = (\<lambda>k. [of_nat k]),
     unmarshal_point = (\<lambda>b. case b of [x] \<Rightarrow> Some (uint x, 0) | _ \<Rightarrow> None),
     ecdsa_sign = (\<lambda>r k d. Some (of_nat k # take 32 d)),
     ecdsa_verify = (\<lambda>p d s. case p of None \<Rightarrow> False | Some (x, _) \<Rightarrow> s = word_of_int x # take 32 d)\<rparr>"

lemma demo_lib_contracts:
  "sha256_length demo_lib" "ecdsa_signs demo_lib" "ecdsa_truncates demo_lib"
  "gob_describes_type_first demo_lib" "gob_total demo_lib"
  by (auto simp: demo_lib_def sha256_length_def ecdsa_signs_def ecdsa_truncates_def
      gob_describes_type_first_def gob_total_def split: option.splits prod.splits)

end
