(* ===== verification/Crypto_Keys.thy ===== *)
theory Crypto_Keys
  imports Core_Data
begin

section \<open>Keys and signatures\<close>

text \<open>
  Models \<^verbatim>\<open>crypto/keypair.go\<close>: a private key wraps a pointer to the library's key, a
  public key is its compressed encoding, an address is the end of the public key's hash.
\<close>

record private_key =
  pk_key :: "nat option"

text \<open>\<open>generated\<close> is what the library's key generation returned.\<close>

definition MustGeneratePrivateKey :: "nat option \<Rightarrow> private_key result" where
  "MustGeneratePrivateKey generated =
     (case generated of None \<Rightarrow> Panic ExplicitPanic | Some k \<Rightarrow> Ok \<lparr>pk_key = Some k\<rparr>)"

definition PrivateKey_IsZero :: "private_key \<Rightarrow> bool" where
  "PrivateKey_IsZero k \<longleftrightarrow> pk_key k = None"

definition PrivateKey_PublicKey :: "lib \<Rightarrow> private_key \<Rightarrow> bytes result" where
  "PrivateKey_PublicKey L k =
     (case pk_key k of None \<Rightarrow> Panic NilDereference | Some p \<Rightarrow> Ok (key_public L p))"

definition PrivateKey_Sign :: "lib \<Rightarrow> nat \<Rightarrow> private_key \<Rightarrow> bytes \<Rightarrow> bytes result" where
  "PrivateKey_Sign L rnd k data =
     (case pk_key k of None \<Rightarrow> Panic NilDereference
      | Some p \<Rightarrow> (case ecdsa_sign L rnd p data of None \<Rightarrow> Err SignError | Some s \<Rightarrow> Ok s))"

definition PublicKey_ToSlice :: "bytes \<Rightarrow> bytes" where
  "PublicKey_ToSlice k = k"

definition PublicKey_Address :: "lib \<Rightarrow> bytes \<Rightarrow> bytes result" where
  "PublicKey_Address L k =
     (let h = sha256 L (PublicKey_ToSlice k)
      in MustAddressFromBytes (drop (length h - 20) h))"

definition Signature_Verify :: "lib \<Rightarrow> bytes \<Rightarrow> bytes \<Rightarrow> bytes \<Rightarrow> bool" where
  "Signature_Verify L s pubKey data = ecdsa_verify L (unmarshal_point L pubKey) data s"

lemma Sign_Verify:
  assumes "ecdsa_signs L" "PrivateKey_Sign L rnd k data = Ok s" "PrivateKey_PublicKey L k = Ok pub"
  shows "Signature_Verify L s pub data"
  using assms
  by (auto simp: ecdsa_signs_def PrivateKey_Sign_def PrivateKey_PublicKey_def Signature_Verify_def
      split: option.splits)

lemma Signature_Verify_take:
  "ecdsa_truncates L \<Longrightarrow> take 32 d = take 32 d' \<Longrightarrow>
   Signature_Verify L s pub d = Signature_Verify L s pub d'"
  unfolding ecdsa_truncates_def Signature_Verify_def by metis

text \<open>
  The address of a public key is always defined, 20 bytes long, and depends on the
  key through the last 20 bytes of its SHA-256 hash only.
\<close>

lemma PublicKey_Address_20_bytes:
  assumes "sha256_length L"
  shows "PublicKey_Address L k = Ok (drop 12 (sha256 L k)) \<and> length (drop 12 (sha256 L k)) = 20"
  using assms
  by (simp add: PublicKey_Address_def PublicKey_ToSlice_def MustAddressFromBytes_20 sha256_length_def)

lemma PublicKey_Address_20_bytes_witness:
  "PublicKey_Address demo_lib [9] = Ok (replicate 20 0)"
  using PublicKey_Address_20_bytes [OF demo_lib_contracts(1), of "[9]"]
  by (simp add: demo_lib_def)

end
