(* ===== verification/Core_Coding.thy ===== *)
theory Core_Coding
  imports Core_Data
begin

section \<open>Coders\<close>

text \<open>
  Models \<^verbatim>\<open>core/coding.go\<close>: the encoder and the decoder of transactions over gob. A writer
  is the bytes written to it, and a reader the bytes that are left to read. The gob package
  is a parameter: \<open>enc\<close> makes the bytes of a value, type description first, and \<open>dec\<close> takes
  one value off the front of the bytes that are left; every reader of the code reads byte
  by byte, so a decoder takes no more than that. The coders of blocks are in
  \<open>Protocol_Message\<close>, with what gob sends of a block.
\<close>

subsection \<open>Encoders and decoders\<close>

text \<open>
  The interfaces \<^verbatim>\<open>Encoder\<close> and \<^verbatim>\<open>Decoder\<close>: one method each, which writes a value, and which
  fills the value it is given.
\<close>

type_synonym 'v encoder = "'v \<Rightarrow> (bytes, unit) go"

type_synonym 'v decoder = "'v \<Rightarrow> (bytes, 'v) go"

text \<open>\<^verbatim>\<open>gob.NewEncoder(w).Encode(v)\<close> and \<^verbatim>\<open>gob.NewDecoder(r).Decode(v)\<close>, each with a coder of its own.\<close>

definition gob_Encode :: "('w \<Rightarrow> bytes option) \<Rightarrow> 'w encoder" where
  "gob_Encode enc v = (\<lambda>buf. case enc v of
     None \<Rightarrow> (Err EncodeError, buf) | Some b \<Rightarrow> (Ok (), buf @ b))"

definition gob_Decode :: "(bytes \<Rightarrow> ('w \<times> bytes) option) \<Rightarrow> (bytes, 'w) go" where
  "gob_Decode dec = (\<lambda>r. case dec r of
     None \<Rightarrow> (Err DecodeError, r) | Some (v, rest) \<Rightarrow> (Ok v, rest))"

text \<open>
  Gob sends the exported fields that are not empty, and leaves the others of the value it
  fills as they are.
\<close>

definition tx_filled :: "tx_wire \<Rightarrow> transaction \<Rightarrow> transaction" where
  "tx_filled w t = (case w of (d, f, s) \<Rightarrow> t\<lparr>
     tx_Data := (if d = [] then tx_Data t else d),
     tx_From := (if f = [] then tx_From t else f),
     tx_Signature := (if s = None then tx_Signature t else s)\<rparr>)"

definition GobTxEncoder_Encode :: "(tx_wire \<Rightarrow> bytes option) \<Rightarrow> transaction encoder" where
  "GobTxEncoder_Encode enc t = gob_Encode enc (tx_wire t)"

definition GobTxDecoder_Decode :: "(bytes \<Rightarrow> (tx_wire \<times> bytes) option) \<Rightarrow> transaction decoder" where
  "GobTxDecoder_Decode dec t = sbind (gob_Decode dec) (\<lambda>w. sret (tx_filled w t))"

definition Tx_Encode :: "transaction encoder \<Rightarrow> transaction \<Rightarrow> (bytes, unit) go" where
  "Tx_Encode encoder t = encoder t"

definition Tx_Decode :: "transaction decoder \<Rightarrow> transaction \<Rightarrow> (bytes, transaction) go" where
  "Tx_Decode decoder t = decoder t"

text \<open>\<^verbatim>\<open>new(Transaction)\<close>.\<close>

definition zero_tx :: transaction where
  "zero_tx = \<lparr>tx_Data = [], tx_From = [], tx_Signature = None, tx_hash = zero_hash,
     tx_createdAt = 0, tx_hasher = None\<rparr>"

lemma Tx_Encode_gob:
  "Tx_Encode (GobTxEncoder_Encode enc) t buf = (case enc (tx_wire t) of
     None \<Rightarrow> (Err EncodeError, buf) | Some b \<Rightarrow> (Ok (), buf @ b))"
  by (simp add: Tx_Encode_def GobTxEncoder_Encode_def gob_Encode_def)

subsection \<open>A stream of values\<close>

text \<open>
  What the documentation says of the two: an encoder writes something, and a decoder takes
  it off the front, whatever follows, and gives the value back, but for an empty signature,
  which is not sent.
\<close>

definition wire_sent :: "tx_wire \<Rightarrow> tx_wire" where
  "wire_sent w = (case w of (d, f, s) \<Rightarrow> (d, f, if s = Some [] then None else s))"

definition gob_streams :: "(tx_wire \<Rightarrow> bytes option) \<Rightarrow> (bytes \<Rightarrow> (tx_wire \<times> bytes) option) \<Rightarrow> bool" where
  "gob_streams enc dec \<longleftrightarrow> (\<forall>w b rest. enc w = Some b \<longrightarrow> b \<noteq> [] \<and> dec (b @ rest) = Some (wire_sent w, rest))"

text \<open>Transactions written one after the other to one writer, and read back from it.\<close>

definition encode_txs :: "(tx_wire \<Rightarrow> bytes option) \<Rightarrow> transaction list \<Rightarrow> (bytes, unit) go" where
  "encode_txs enc ts = sfor ts (Tx_Encode (GobTxEncoder_Encode enc))"

primrec decode_txs :: "(bytes \<Rightarrow> (tx_wire \<times> bytes) option) \<Rightarrow> nat \<Rightarrow> (bytes, transaction list) go" where
  "decode_txs dec 0 = sret []"
| "decode_txs dec (Suc n) =
     sbind (Tx_Decode (GobTxDecoder_Decode dec) zero_tx) (\<lambda>t.
     sbind (decode_txs dec n) (\<lambda>ts. sret (t # ts)))"

definition tx_sent :: "tx_wire \<Rightarrow> transaction" where
  "tx_sent w = tx_filled (wire_sent w) zero_tx"

lemma tx_wire_sent: "tx_wire (tx_sent w) = wire_sent w"
  by (simp add: tx_sent_def tx_filled_def wire_sent_def zero_tx_def tx_wire_def split: prod.split)

lemma Tx_Decode_gob:
  assumes "gob_streams enc dec" "enc w = Some b"
  shows "Tx_Decode (GobTxDecoder_Decode dec) zero_tx (b @ rest) = (Ok (tx_sent w), rest)"
proof -
  have "dec (b @ rest) = Some (wire_sent w, rest)" using assms unfolding gob_streams_def by blast
  then show ?thesis
    by (simp add: Tx_Decode_def GobTxDecoder_Decode_def gob_Decode_def sbind_def sret_def tx_sent_def)
qed

lemma encode_txs_Nil [simp]: "encode_txs enc [] buf = (Ok (), buf)"
  by (simp add: encode_txs_def go_simps)

lemma encode_txs_Cons:
  "encode_txs enc (t # ts) buf = (case enc (tx_wire t) of
     None \<Rightarrow> (Err EncodeError, buf) | Some b \<Rightarrow> encode_txs enc ts (buf @ b))"
  by (simp add: encode_txs_def sbind_def Tx_Encode_gob split: option.split)

text \<open>Several coders on one stream: what was written in turn is read in turn.\<close>

lemma stream_round_trip:
  assumes "gob_streams enc dec" "encode_txs enc ts buf = (Ok (), buf')"
  shows "\<exists>b. buf' = buf @ b \<and> (\<forall>rest. decode_txs dec (length ts) (b @ rest) = (Ok (map (tx_sent \<circ> tx_wire) ts), rest))"
  using assms(2)
proof (induction ts arbitrary: buf)
  case Nil
  then show ?case by (auto simp: go_simps)
next
  case (Cons t ts)
  from Cons.prems obtain b where b: "enc (tx_wire t) = Some b" "encode_txs enc ts (buf @ b) = (Ok (), buf')"
    by (auto simp: encode_txs_Cons split: option.splits)
  from Cons.IH [OF b(2)] obtain c where c: "buf' = (buf @ b) @ c"
    "\<And>rest. decode_txs dec (length ts) (c @ rest) = (Ok (map (tx_sent \<circ> tx_wire) ts), rest)" by blast
  then show ?case
    using Tx_Decode_gob [OF assms(1) b(1)] by (intro exI [of _ "b @ c"]) (simp add: sbind_def go_simps)
qed

text \<open>So the bytes of a list of transactions determine what was sent of it.\<close>

lemma encode_txs_inj:
  assumes "gob_streams enc dec"
    and "encode_txs enc ts buf = (Ok (), x)" "encode_txs enc us buf = (Ok (), x)"
  shows "map (tx_sent \<circ> tx_wire) ts = map (tx_sent \<circ> tx_wire) us"
  using assms(2,3)
proof (induction ts arbitrary: us buf)
  case Nil
  show ?case
  proof (cases us)
    case (Cons u us')
    with Nil obtain b where b: "enc (tx_wire u) = Some b" "encode_txs enc us' (buf @ b) = (Ok (), buf)"
      by (auto simp: encode_txs_Cons split: option.splits)
    from stream_round_trip [OF assms(1) b(2)] have "b = []" by auto
    with b(1) assms(1) show ?thesis unfolding gob_streams_def by blast
  qed simp
next
  case (Cons t ts)
  then obtain b where b: "enc (tx_wire t) = Some b" "encode_txs enc ts (buf @ b) = (Ok (), x)"
    by (auto simp: encode_txs_Cons split: option.splits)
  from stream_round_trip [OF assms(1) b(2)] obtain c where c: "x = buf @ b @ c" by auto
  show ?case
  proof (cases us)
    case Nil
    with Cons.prems c have "b = []" by simp
    with b(1) assms(1) show ?thesis unfolding gob_streams_def by blast
  next
    case (Cons u us')
    with Cons.prems obtain b' where b': "enc (tx_wire u) = Some b'" "encode_txs enc us' (buf @ b') = (Ok (), x)"
      by (auto simp: encode_txs_Cons split: option.splits)
    from stream_round_trip [OF assms(1) b'(2)] c obtain c' where "b @ c = b' @ c'" by auto
    with Tx_Decode_gob [OF assms(1) b(1), of c] Tx_Decode_gob [OF assms(1) b'(1), of c']
    have "tx_sent (tx_wire t) = tx_sent (tx_wire u)" "b = b'" by auto
    with Cons.IH [OF b(2)] b'(2) \<open>us = u # us'\<close> show ?thesis by simp
  qed
qed

text \<open>The bytes of a list of what is sent, for a coder that does not fail.\<close>

definition wires_bytes :: "(tx_wire \<Rightarrow> bytes option) \<Rightarrow> tx_wire list \<Rightarrow> bytes" where
  "wires_bytes enc ws = concat (map (\<lambda>w. the (enc w)) ws)"

lemma encode_txs_total:
  "\<forall>w. enc w \<noteq> None \<Longrightarrow> encode_txs enc ts buf = (Ok (), buf @ wires_bytes enc (map tx_wire ts))"
proof (induction ts arbitrary: buf)
  case (Cons t ts)
  from Cons.prems obtain b where "enc (tx_wire t) = Some b" by blast
  with Cons show ?case by (simp add: encode_txs_Cons wires_bytes_def)
qed (simp add: wires_bytes_def)

lemma wires_bytes_inj:
  assumes "gob_streams enc dec" "\<forall>w. enc w \<noteq> None" "wires_bytes enc ws = wires_bytes enc us"
  shows "map wire_sent ws = map wire_sent us"
proof -
  define t where "t w = zero_tx\<lparr>tx_Data := fst w, tx_From := fst (snd w), tx_Signature := snd (snd w)\<rparr>" for w
  have t: "tx_wire (t w) = w" for w by (simp add: t_def tx_wire_def)
  have "encode_txs enc (map t ws) [] = (Ok (), wires_bytes enc us)" "encode_txs enc (map t us) [] = (Ok (), wires_bytes enc us)"
    using encode_txs_total [OF assms(2), of "map t ws" "[]"] encode_txs_total [OF assms(2), of "map t us" "[]"] assms(3)
    by (simp_all add: o_def t)
  from encode_txs_inj [OF assms(1) this] have "map tx_sent ws = map tx_sent us" by (simp add: o_def t)
  then have "map tx_wire (map tx_sent ws) = map tx_wire (map tx_sent us)" by (rule arg_cong)
  then show ?thesis by (simp add: o_def tx_wire_sent)
qed

subsection \<open>An instance\<close>

text \<open>The demonstration library has a decoder for its transactions.\<close>

fun unframe :: "bytes \<Rightarrow> (bytes \<times> bytes) option" where
  "unframe [] = None"
| "unframe [m] = (if m = 0 then Some ([], []) else None)"
| "unframe (m # b # bs) = (if m = 0 then Some ([], b # bs) else map_option (\<lambda>(x, r). (b # x, r)) (unframe bs))"

definition demo_dec_tx :: "bytes \<Rightarrow> (tx_wire \<times> bytes) option" where
  "demo_dec_tx r = Option.bind (unframe r) (\<lambda>(f, r). Option.bind (unframe r) (\<lambda>(s, r).
     map_option (\<lambda>(d, r). ((d, f, if s = [] then None else Some s), r)) (unframe r)))"

lemma unframe_framed: "unframe (framed bs @ r) = Some (bs, r)"
proof (induction bs)
  case Nil
  show ?case by (cases r) simp_all
qed simp

lemma demo_lib_streams: "gob_streams (gob_tx demo_lib) demo_dec_tx"
proof -
  have "framed bs \<noteq> []" for bs by (cases bs) simp_all
  then show ?thesis
    by (auto simp: gob_streams_def demo_lib_def demo_dec_tx_def unframe_framed wire_sent_def split: option.split)
qed

end
