(* ===== verification/Core_Transaction.thy ===== *)
theory Core_Transaction
  imports Crypto_Keys Core_Coding
begin

section \<open>Transactions\<close>

text \<open>
  Models \<^verbatim>\<open>core/transaction.go\<close> and the transaction hasher of \<^verbatim>\<open>core/hasher.go\<close>. A method
  is an operation on the transaction it is called on; \<open>on_tx\<close> runs it on an object of the
  memory. A transaction that comes from the network or from JSON has no hasher (the field
  is not exported), and asking it for its hash before one is set panics.
\<close>

subsection \<open>Operations\<close>

definition NewTransaction :: "bytes \<Rightarrow> transaction" where
  "NewTransaction data = \<lparr>tx_Data = data, tx_From = [], tx_Signature = None,
     tx_hash = zero_hash, tx_createdAt = 0, tx_hasher = Some DefaultTxHasher\<rparr>"

definition DefaultTxHasher_Hash :: "lib \<Rightarrow> transaction \<Rightarrow> hash" where
  "DefaultTxHasher_Hash L t = sha256 L (tx_Data t)"

definition Tx_SetHasher :: "tx_hasher option \<Rightarrow> (transaction, unit) go" where
  "Tx_SetHasher hs = smodify (\<lambda>t. t\<lparr>tx_hasher := hs\<rparr>)"

definition Tx_SetCreatedAt :: "int \<Rightarrow> (transaction, unit) go" where
  "Tx_SetCreatedAt now = smodify (\<lambda>t. t\<lparr>tx_createdAt := now\<rparr>)"

definition Tx_GetCreatedAt :: "int \<Rightarrow> (transaction, int) go" where
  "Tx_GetCreatedAt now = sbind
     (\<lambda>t. if tx_createdAt t = 0 then (Ok (), t\<lparr>tx_createdAt := now\<rparr>) else (Ok (), t))
     (\<lambda>_. sget tx_createdAt)"

definition Tx_Hash :: "lib \<Rightarrow> (transaction, hash) go" where
  "Tx_Hash L = (\<lambda>t.
     if Hash_IsZero (tx_hash t) then
       (case tx_hasher t of
          None \<Rightarrow> (Panic NilDereference, t)
        | Some DefaultTxHasher \<Rightarrow>
            let t' = t\<lparr>tx_hash := DefaultTxHasher_Hash L t\<rparr> in (Ok (tx_hash t'), t'))
     else (Ok (tx_hash t), t))"

definition Tx_Sign :: "lib \<Rightarrow> nat \<Rightarrow> private_key \<Rightarrow> (transaction, unit) go" where
  "Tx_Sign L rnd k =
     sbind (sread (\<lambda>t. PrivateKey_Sign L rnd k (tx_Data t))) (\<lambda>sig.
     sbind (sread (\<lambda>_. PrivateKey_PublicKey L k)) (\<lambda>pub.
       smodify (\<lambda>t. t\<lparr>tx_From := pub, tx_Signature := Some sig\<rparr>)))"

definition Tx_Verify :: "lib \<Rightarrow> transaction \<Rightarrow> unit result" where
  "Tx_Verify L t =
     (case tx_Signature t of
        None \<Rightarrow> Err TxNoSignature
      | Some s \<Rightarrow> if \<not> Signature_Verify L s (tx_From t) (tx_Data t) then Err TxBadSignature else Ok ())"

text \<open>The hash of the transactions' gob messages, one after the other.\<close>

primrec data_hash_loop :: "lib \<Rightarrow> bytes \<Rightarrow> transaction list \<Rightarrow> bytes result" where
  "data_hash_loop L buf [] = Ok buf"
| "data_hash_loop L buf (t # ts) =
     (case Tx_Encode (GobTxEncoder_Encode (gob_tx L)) t buf of
        (Ok _, buf') \<Rightarrow> data_hash_loop L buf' ts
      | (Err e, _) \<Rightarrow> Err e
      | (Panic p, _) \<Rightarrow> Panic p)"

definition calculateDataHash :: "lib \<Rightarrow> transaction list \<Rightarrow> hash result" where
  "calculateDataHash L ts = bind_result (data_hash_loop L [] ts) (\<lambda>buf. Ok (sha256 L buf))"

text \<open>The fields of the JSON object: the exported ones and the cached hash.\<close>

definition Tx_MarshalJSON :: "transaction \<Rightarrow> bytes \<times> bytes \<times> bytes option \<times> hash" where
  "Tx_MarshalJSON t = (tx_Data t, tx_From t, tx_Signature t, tx_hash t)"

subsection \<open>Facts\<close>

text \<open>The cached hash of a transaction is empty or right.\<close>

definition tx_cache_ok :: "lib \<Rightarrow> transaction \<Rightarrow> bool" where
  "tx_cache_ok L t \<longleftrightarrow> Hash_IsZero (tx_hash t) \<or> tx_hash t = sha256 L (tx_Data t)"

lemma Tx_Hash_Ok:
  assumes "tx_cache_ok L t" "tx_hasher t \<noteq> None"
  shows "\<exists>t'. Tx_Hash L t = (Ok (sha256 L (tx_Data t)), t') \<and> tx_wire t' = tx_wire t \<and>
    tx_cache_ok L t' \<and> tx_hasher t' = tx_hasher t \<and> tx_createdAt t' = tx_createdAt t"
  using assms
  by (auto simp: Tx_Hash_def tx_cache_ok_def DefaultTxHasher_Hash_def tx_wire_def
      split: option.splits tx_hasher.splits)

lemma Tx_Hash_frame:
  "Tx_Hash L t = (r, t') \<Longrightarrow> \<exists>x. t' = t\<lparr>tx_hash := x\<rparr>"
  by (auto simp: Tx_Hash_def Let_def split: if_splits option.splits tx_hasher.splits
      intro: exI [of _ "tx_hash t"])

lemma data_hash_loop_Cons [simp]:
  "data_hash_loop L buf (t # ts) =
     (case gob_tx L (tx_wire t) of None \<Rightarrow> Err EncodeError | Some b \<Rightarrow> data_hash_loop L (buf @ b) ts)"
  by (cases "gob_tx L (tx_wire t)") (simp_all add: Tx_Encode_gob)

declare data_hash_loop.simps(2) [simp del]

lemma data_hash_loop_encodes: "data_hash_loop L buf ts = Ok b \<longleftrightarrow> encode_txs (gob_tx L) ts buf = (Ok (), b)"
  by (induction ts arbitrary: buf) (auto simp: encode_txs_Cons split: option.splits)

lemma data_hash_loop_wire:
  "map tx_wire ts = map tx_wire us \<Longrightarrow> data_hash_loop L buf ts = data_hash_loop L buf us"
proof (induction ts arbitrary: us buf)
  case (Cons t ts)
  then obtain u us' where "us = u # us'" "tx_wire t = tx_wire u" "map tx_wire ts = map tx_wire us'"
    by (cases us) auto
  with Cons.IH [of us'] show ?case by (auto split: option.split)
qed simp

lemma calculateDataHash_wire:
  "map tx_wire ts = map tx_wire us \<Longrightarrow> calculateDataHash L ts = calculateDataHash L us"
  by (simp add: calculateDataHash_def data_hash_loop_wire [of ts us])

lemma Tx_Verify_wire: "tx_wire t = tx_wire u \<Longrightarrow> Tx_Verify L t = Tx_Verify L u"
  by (auto simp: Tx_Verify_def tx_wire_def split: option.split)

lemma data_hash_loop_total: "gob_total L \<Longrightarrow> \<exists>b. data_hash_loop L buf ts = Ok b"
  by (induction ts arbitrary: buf) (auto simp: gob_total_def tx_wire_def split: option.split)

lemma calculateDataHash_total: "gob_total L \<Longrightarrow> \<exists>h. calculateDataHash L ts = Ok h"
  using data_hash_loop_total [of L "[]" ts] by (auto simp: calculateDataHash_def)

subsection \<open>Properties\<close>

text \<open>
  A transaction that was signed verifies; signing keeps its data and records the
  public key of the signing key as its sender.
\<close>

lemma Tx_Sign_then_Verify:
  assumes "ecdsa_signs L" and "Tx_Sign L rnd k t = (Ok (), t')"
  shows "Tx_Verify L t' = Ok () \<and> tx_Data t' = tx_Data t \<and>
    PrivateKey_PublicKey L k = Ok (tx_From t')"
  using assms Sign_Verify [OF assms(1)]
  by (auto simp: Tx_Sign_def sbind_Ok_iff go_simps Tx_Verify_def)

lemma Tx_Sign_then_Verify_witness:
  "\<exists>t'. Tx_Sign demo_lib 0 \<lparr>pk_key = Some 5\<rparr> (NewTransaction [1, 2]) = (Ok (), t') \<and>
     Tx_Verify demo_lib t' = Ok ()"
proof -
  obtain t' where t': "Tx_Sign demo_lib 0 \<lparr>pk_key = Some 5\<rparr> (NewTransaction [1, 2]) = (Ok (), t')"
    by (simp add: Tx_Sign_def demo_lib_def PrivateKey_Sign_def PrivateKey_PublicKey_def go_simps)
  from Tx_Sign_then_Verify [OF demo_lib_contracts(2) t'] t' show ?thesis by blast
qed

text \<open>
  The signature of a transaction covers only the first 32 bytes of its data, because
  the data is given to the signature scheme unhashed: a signed transaction still verifies
  after everything behind byte 32 has been replaced.
\<close>

lemma Tx_signature_covers_32_bytes:
  assumes "ecdsa_truncates L" and "Tx_Verify L t = Ok ()" and "length (tx_Data t) \<ge> 32"
  shows "Tx_Verify L (t\<lparr>tx_Data := take 32 (tx_Data t) @ tail\<rparr>) = Ok ()"
proof -
  from assms(2) obtain s where s: "tx_Signature t = Some s"
    "Signature_Verify L s (tx_From t) (tx_Data t)"
    by (auto simp: Tx_Verify_def split: option.splits if_splits)
  have "take 32 (take 32 (tx_Data t) @ tail) = take 32 (tx_Data t)"
    using assms(3) by simp
  from Signature_Verify_take [OF assms(1) this, of s "tx_From t"] s show ?thesis
    by (simp add: Tx_Verify_def)
qed

lemma Tx_signature_covers_32_bytes_witness:
  "\<exists>t. Tx_Verify demo_lib t = Ok () \<and> tx_Data t = replicate 32 1 @ [2] \<and>
     Tx_Verify demo_lib (t\<lparr>tx_Data := replicate 32 1 @ [99, 98]\<rparr>) = Ok ()"
proof -
  let ?t = "(NewTransaction (replicate 32 1 @ [2]))\<lparr>tx_From := [5], tx_Signature := Some (5 # replicate 32 1)\<rparr>"
  have v: "Tx_Verify demo_lib ?t = Ok ()"
    by (simp add: Tx_Verify_def Signature_Verify_def demo_lib_def NewTransaction_def)
  have "take 32 (tx_Data ?t) = replicate 32 1" by (simp add: NewTransaction_def)
  with Tx_signature_covers_32_bytes [OF demo_lib_contracts(3) v, of "[99, 98]"] v show ?thesis
    by (intro exI [of _ ?t]) (simp add: NewTransaction_def)
qed

text \<open>
  A transaction's hash is the SHA-256 of its data, computed once and then cached: the
  sender and the signature do not enter it, and a transaction without hasher and without
  cached hash panics.
\<close>

lemma Tx_Hash_outcome:
  assumes "tx_cache_ok L t"
  shows "fst (Tx_Hash L t) =
    (if Hash_IsZero (tx_hash t) \<and> tx_hasher t = None then Panic NilDereference
     else Ok (sha256 L (tx_Data t))) \<and>
    fst (Tx_Hash L (snd (Tx_Hash L t))) = fst (Tx_Hash L t) \<and> tx_wire (snd (Tx_Hash L t)) = tx_wire t"
  using assms
  by (auto simp: Tx_Hash_def tx_cache_ok_def DefaultTxHasher_Hash_def tx_wire_def
      split: option.splits tx_hasher.splits)

lemma Tx_Hash_outcome_witness:
  "fst (Tx_Hash demo_lib (NewTransaction [7])) = Ok (sha256 demo_lib [7]) \<and>
   fst (Tx_Hash demo_lib ((NewTransaction [7])\<lparr>tx_hasher := None\<rparr>)) = Panic NilDereference"
  using Tx_Hash_outcome [of demo_lib "NewTransaction [7]"]
    Tx_Hash_outcome [of demo_lib "(NewTransaction [7])\<lparr>tx_hasher := None\<rparr>"]
  by (simp add: tx_cache_ok_def NewTransaction_def)

end
