(* ===== verification/Core_Block.thy ===== *)
theory Core_Block
  imports Core_Transaction
begin

section \<open>Blocks\<close>

text \<open>
  Models \<^verbatim>\<open>core/block.go\<close> and the block hasher of \<^verbatim>\<open>core/hasher.go\<close>. The operations run on
  the memory: a block points to its header and its transactions. \<open>None\<close> as the header of
  a block is the nil pointer, which a block decoded from the network can have.
\<close>

subsection \<open>Headers\<close>

text \<open>An encoding error of the header is a panic; gob panics on a nil header as well.\<close>

definition Header_MustToBytes :: "lib \<Rightarrow> header \<Rightarrow> bytes result" where
  "Header_MustToBytes L x = (case gob_header L x of None \<Rightarrow> Panic ExplicitPanic | Some b \<Rightarrow> Ok b)"

definition DefaultBlockHasher_Hash :: "lib \<Rightarrow> header \<Rightarrow> hash result" where
  "DefaultBlockHasher_Hash L x = bind_result (Header_MustToBytes L x) (\<lambda>b. Ok (sha256 L b))"

definition newHeaderFromPrev :: "lib \<Rightarrow> u64 \<Rightarrow> header \<Rightarrow> header result" where
  "newHeaderFromPrev L now prev = bind_result (DefaultBlockHasher_Hash L prev) (\<lambda>h.
     Ok \<lparr>hd_Version = 1, hd_DataHash = zero_hash, hd_PreviousBlockHash = h,
         hd_Timestamp = now, hd_Height = hd_Height prev + 1\<rparr>)"

definition setDataHash :: "lib \<Rightarrow> transaction list \<Rightarrow> header \<Rightarrow> header result" where
  "setDataHash L ts x = bind_result (calculateDataHash L ts) (\<lambda>dh. Ok (x\<lparr>hd_DataHash := dh\<rparr>))"

subsection \<open>Blocks in the memory\<close>

definition the_txs :: "heap \<Rightarrow> ref list \<Rightarrow> transaction list" where
  "the_txs h rs = map (h_txs h) rs"

definition NewBlock :: "ref \<Rightarrow> ref list \<Rightarrow> block" where
  "NewBlock hr txns = \<lparr>blk_Header = Some hr, blk_Transactions = txns, blk_Validator = [],
     blk_Signature = None, blk_hash = zero_hash\<rparr>"

definition NewBlockFromPrevHeader :: "lib \<Rightarrow> u64 \<Rightarrow> header \<Rightarrow> ref list \<Rightarrow> (heap, ref) go" where
  "NewBlockFromPrevHeader L now prev txns =
     sbind (sread (\<lambda>h. bind_result (newHeaderFromPrev L now prev) (setDataHash L (the_txs h txns)))) (\<lambda>x.
     sbind (alloc_header x) (\<lambda>hr. alloc_block (NewBlock hr txns)))"

definition Block_AddTransaction :: "ref \<Rightarrow> ref \<Rightarrow> (heap, unit) go" where
  "Block_AddTransaction br tr =
     on_block br (smodify (\<lambda>b. b\<lparr>blk_Transactions := blk_Transactions b @ [tr]\<rparr>))"

text \<open>Reading the header of a block, as every \<^verbatim>\<open>b.Height\<close> or \<^verbatim>\<open>b.Header\<close> does.\<close>

definition block_header :: "heap \<Rightarrow> ref \<Rightarrow> header result" where
  "block_header h br = (case blk_Header (h_blocks h br) of
     None \<Rightarrow> Panic NilDereference | Some hr \<Rightarrow> Ok (h_headers h hr))"

definition Block_Hash :: "lib \<Rightarrow> ref \<Rightarrow> (heap, hash) go" where
  "Block_Hash L br = (\<lambda>h.
     if Hash_IsZero (blk_hash (h_blocks h br)) then
       sbind (sread (\<lambda>h. bind_result (block_header h br) (DefaultBlockHasher_Hash L))) (\<lambda>bh.
       sbind (on_block br (smodify (\<lambda>b. b\<lparr>blk_hash := bh\<rparr>))) (\<lambda>_. sret bh)) h
     else (Ok (blk_hash (h_blocks h br)), h))"

definition Block_Sign :: "lib \<Rightarrow> nat \<Rightarrow> private_key \<Rightarrow> ref \<Rightarrow> (heap, unit) go" where
  "Block_Sign L rnd k br =
     sbind (sread (\<lambda>h. bind_result (block_header h br) (Header_MustToBytes L))) (\<lambda>data.
     sbind (sread (\<lambda>_. PrivateKey_Sign L rnd k data)) (\<lambda>sig.
     sbind (on_block br (smodify (\<lambda>b. b\<lparr>blk_Signature := Some sig\<rparr>))) (\<lambda>_.
     sbind (sread (\<lambda>_. PrivateKey_PublicKey L k)) (\<lambda>pub.
     sbind (on_block br (smodify (\<lambda>b. b\<lparr>blk_Validator := pub\<rparr>))) (\<lambda>_.
     sbind (sread (\<lambda>h. calculateDataHash L (the_txs h (blk_Transactions (h_blocks h br))))) (\<lambda>dh.
       \<lambda>h. case blk_Header (h_blocks h br) of
             None \<Rightarrow> (Panic NilDereference, h)
           | Some hr \<Rightarrow> on_header hr (smodify (\<lambda>x. x\<lparr>hd_DataHash := dh\<rparr>)) h))))))"

text \<open>The loop over the transactions; \<open>i\<close> is the index in the error.\<close>

primrec verify_txs :: "lib \<Rightarrow> nat \<Rightarrow> transaction list \<Rightarrow> unit result" where
  "verify_txs L i [] = Ok ()"
| "verify_txs L i (t # ts) =
     (case Tx_Verify L t of
        Err e \<Rightarrow> Err (BlockTx i e)
      | Panic p \<Rightarrow> Panic p
      | Ok _ \<Rightarrow> verify_txs L (Suc i) ts)"

text \<open>
  An encoding error while the data hash is computed ends the verification without an
  error, as the code does (\<^verbatim>\<open>return nil\<close>).
\<close>

definition Block_Verify :: "lib \<Rightarrow> heap \<Rightarrow> ref \<Rightarrow> unit result" where
  "Block_Verify L h br =
     (let b = h_blocks h br; ts = the_txs h (blk_Transactions b)
      in case blk_Signature b of
           None \<Rightarrow> Err BlockNoSignature
         | Some s \<Rightarrow>
             bind_result (block_header h br) (\<lambda>x.
             bind_result (Header_MustToBytes L x) (\<lambda>data.
               if \<not> Signature_Verify L s (blk_Validator b) data then Err BlockBadSignature
               else bind_result (verify_txs L 0 ts) (\<lambda>_.
                 case calculateDataHash L ts of
                   Err e \<Rightarrow> Ok ()
                 | Panic p \<Rightarrow> Panic p
                 | Ok dh \<Rightarrow>
                     if dh \<noteq> hd_DataHash x then Err (BadDataHash (Hash_String dh) (Hash_String (hd_DataHash x)))
                     else Ok ()))))"

subsection \<open>Facts\<close>

lemma DefaultBlockHasher_header_hash:
  "DefaultBlockHasher_Hash L x = Ok h \<longleftrightarrow> header_hash L x = Some h"
  by (auto simp: DefaultBlockHasher_Hash_def Header_MustToBytes_def header_hash_def split: option.splits)

lemma verify_txs_Ok_iff: "verify_txs L i ts = Ok () \<longleftrightarrow> (\<forall>t \<in> set ts. Tx_Verify L t = Ok ())"
  by (induction ts arbitrary: i) (auto split: result.split)

lemma verify_txs_wire:
  "map tx_wire ts = map tx_wire us \<Longrightarrow> verify_txs L i ts = verify_txs L i us"
proof (induction ts arbitrary: us i)
  case (Cons t ts)
  then obtain u us' where "us = u # us'" "tx_wire t = tx_wire u" "map tx_wire ts = map tx_wire us'"
    by (cases us) auto
  with Cons.IH [of us'] Tx_Verify_wire [of t u L] show ?case by (auto split: result.split)
qed simp

text \<open>The cached hash of a block is empty or the hash of its header.\<close>

definition block_cache_ok :: "lib \<Rightarrow> heap \<Rightarrow> ref \<Rightarrow> bool" where
  "block_cache_ok L h br \<longleftrightarrow> Hash_IsZero (blk_hash (h_blocks h br)) \<or>
     bind_result (block_header h br) (DefaultBlockHasher_Hash L) = Ok (blk_hash (h_blocks h br))"

text \<open>
  What \<open>Block_Hash\<close> may change: the cached hash of the block, nothing else.
\<close>

lemma Block_Hash_effect:
  assumes "Block_Hash L br h = (r, h')"
  shows "\<exists>x. h' = h\<lparr>h_blocks := (h_blocks h)(br := (h_blocks h br)\<lparr>blk_hash := x\<rparr>)\<rparr>"
proof (cases "Hash_IsZero (blk_hash (h_blocks h br))")
  case True
  with assms show ?thesis
    by (auto simp: Block_Hash_def sbind_def sread_def on_block_def szoom_def smodify_def sret_def
        split: result.splits intro: exI [of _ "blk_hash (h_blocks h br)"])
next
  case False
  with assms show ?thesis
    by (auto simp: Block_Hash_def intro: exI [of _ "blk_hash (h_blocks h br)"])
qed

lemma Block_Hash_result:
  assumes "block_cache_ok L h br" "Block_Hash L br h = (Ok bh, h')"
  shows "\<exists>hr. blk_Header (h_blocks h br) = Some hr \<and> header_hash L (h_headers h hr) = Some bh \<and>
    h' = h\<lparr>h_blocks := (h_blocks h)(br := (h_blocks h br)\<lparr>blk_hash := bh\<rparr>)\<rparr>"
proof (cases "Hash_IsZero (blk_hash (h_blocks h br))")
  case True
  with assms(2) show ?thesis
    by (auto simp: Block_Hash_def sbind_def sread_def on_block_def szoom_def smodify_def sret_def
        block_header_def DefaultBlockHasher_header_hash split: result.splits option.splits)
next
  case False
  with assms show ?thesis
    by (auto simp: Block_Hash_def block_cache_ok_def block_header_def DefaultBlockHasher_header_hash
        split: option.splits)
qed

lemma Block_Hash_defined:
  assumes "blk_Header (h_blocks h br) = Some hr" "header_hash L (h_headers h hr) = Some bh"
    and "block_cache_ok L h br"
  shows "Block_Hash L br h =
    (Ok bh, h\<lparr>h_blocks := (h_blocks h)(br := (h_blocks h br)\<lparr>blk_hash := bh\<rparr>)\<rparr>)"
proof (cases "Hash_IsZero (blk_hash (h_blocks h br))")
  case True
  with assms show ?thesis
    by (simp add: Block_Hash_def sbind_def sread_def on_block_def szoom_def smodify_def sret_def
        block_header_def DefaultBlockHasher_header_hash [THEN iffD2])
next
  case False
  with assms show ?thesis
    by (auto simp: Block_Hash_def block_cache_ok_def block_header_def DefaultBlockHasher_header_hash)
qed

lemma Block_Verify_Ok_iff:
  assumes "gob_total L"
  shows "Block_Verify L h br = Ok () \<longleftrightarrow>
    (\<exists>s hr data. blk_Signature (h_blocks h br) = Some s \<and> blk_Header (h_blocks h br) = Some hr \<and>
       gob_header L (h_headers h hr) = Some data \<and>
       Signature_Verify L s (blk_Validator (h_blocks h br)) data \<and>
       (\<forall>r \<in> set (blk_Transactions (h_blocks h br)). Tx_Verify L (h_txs h r) = Ok ()) \<and>
       calculateDataHash L (the_txs h (blk_Transactions (h_blocks h br))) = Ok (hd_DataHash (h_headers h hr)))"
proof -
  obtain dh where dh: "calculateDataHash L (the_txs h (blk_Transactions (h_blocks h br))) = Ok dh"
    using calculateDataHash_total [OF assms] by blast
  show ?thesis
  proof (cases "blk_Signature (h_blocks h br)")
    case None
    then show ?thesis by (simp add: Block_Verify_def Let_def)
  next
    case (Some s)
    note sig = this
    show ?thesis
    proof (cases "blk_Header (h_blocks h br)")
      case None
      with sig show ?thesis by (simp add: Block_Verify_def Let_def block_header_def)
    next
      case (Some hr)
      obtain data where "gob_header L (h_headers h hr) = Some data"
        using assms unfolding gob_total_def by (meson not_None_eq)
      with Some sig dh show ?thesis
        by (simp add: Block_Verify_def Let_def block_header_def Header_MustToBytes_def
            verify_txs_Ok_iff the_txs_def)
    qed
  qed
qed

subsection \<open>Properties\<close>

lemma NewBlockFromPrevHeader_result:
  assumes "NewBlockFromPrevHeader L now prev txns h = (Ok br, h')"
  obtains hr bh dh where "hr = h_next h" "br = h_next h + 1" "header_hash L prev = Some bh"
    "calculateDataHash L (the_txs h txns) = Ok dh"
    "h' = h\<lparr>h_headers := (h_headers h)(hr := \<lparr>hd_Version = 1, hd_DataHash = dh,
        hd_PreviousBlockHash = bh, hd_Timestamp = now, hd_Height = hd_Height prev + 1\<rparr>),
      h_blocks := (h_blocks h)(br := NewBlock hr txns), h_next := h_next h + 2\<rparr>"
  using assms
  by (auto simp: NewBlockFromPrevHeader_def sbind_Ok_iff go_simps newHeaderFromPrev_def setDataHash_def
      alloc_header_def alloc_block_def DefaultBlockHasher_header_hash)

lemma Block_Sign_result:
  assumes "Block_Sign L rnd k br h = (Ok (), h')"
  obtains hr data sig pub dh where "blk_Header (h_blocks h br) = Some hr"
    "gob_header L (h_headers h hr) = Some data" "PrivateKey_Sign L rnd k data = Ok sig"
    "PrivateKey_PublicKey L k = Ok pub"
    "calculateDataHash L (the_txs h (blk_Transactions (h_blocks h br))) = Ok dh"
    "h' = h\<lparr>h_headers := (h_headers h)(hr := (h_headers h hr)\<lparr>hd_DataHash := dh\<rparr>),
      h_blocks := (h_blocks h)(br := (h_blocks h br)\<lparr>blk_Signature := Some sig, blk_Validator := pub\<rparr>)\<rparr>"
  using assms
  by (auto simp: Block_Sign_def sbind_Ok_iff go_simps block_header_def Header_MustToBytes_def the_txs_def
      on_block_def on_header_def szoom_def split: option.splits)

lemma built_and_signed:
  assumes "ecdsa_signs L" and "gob_total L"
    and "NewBlockFromPrevHeader L now prev txns h = (Ok br, h1)"
    and "Block_Sign L rnd k br h1 = (Ok (), h2)"
    and "\<forall>r \<in> set txns. Tx_Verify L (h_txs h r) = Ok ()"
  shows "Block_Verify L h2 br = Ok () \<and>
    (\<exists>x. block_header h2 br = Ok x \<and> hd_Height x = hd_Height prev + 1 \<and> hd_Timestamp x = now \<and>
       header_hash L prev = Some (hd_PreviousBlockHash x) \<and>
       calculateDataHash L (the_txs h txns) = Ok (hd_DataHash x)) \<and>
    blk_Transactions (h_blocks h2 br) = txns"
proof -
  from assms(3) obtain hr bh dh where n: "hr = h_next h" "br = h_next h + 1"
    "header_hash L prev = Some bh" "calculateDataHash L (the_txs h txns) = Ok dh"
    "h1 = h\<lparr>h_headers := (h_headers h)(hr := \<lparr>hd_Version = 1, hd_DataHash = dh,
        hd_PreviousBlockHash = bh, hd_Timestamp = now, hd_Height = hd_Height prev + 1\<rparr>),
      h_blocks := (h_blocks h)(br := NewBlock hr txns), h_next := h_next h + 2\<rparr>"
    by (rule NewBlockFromPrevHeader_result)
  then have b1: "h_blocks h1 br = NewBlock hr txns" and t1: "h_txs h1 = h_txs h"
    by simp_all
  from assms(4) show ?thesis
  proof (rule Block_Sign_result)
    fix hr' data sig pub dh'
    assume s: "blk_Header (h_blocks h1 br) = Some hr'" "gob_header L (h_headers h1 hr') = Some data"
      "PrivateKey_Sign L rnd k data = Ok sig" "PrivateKey_PublicKey L k = Ok pub"
      "calculateDataHash L (the_txs h1 (blk_Transactions (h_blocks h1 br))) = Ok dh'"
      "h2 = h1\<lparr>h_headers := (h_headers h1)(hr' := (h_headers h1 hr')\<lparr>hd_DataHash := dh'\<rparr>),
        h_blocks := (h_blocks h1)(br := (h_blocks h1 br)\<lparr>blk_Signature := Some sig, blk_Validator := pub\<rparr>)\<rparr>"
    have "hr' = hr" using s(1) b1 by (simp add: NewBlock_def)
    moreover have "dh' = dh" using s(5) n(4) b1 t1 by (simp add: NewBlock_def the_txs_def)
    moreover have "hd_DataHash (h_headers h1 hr) = dh" using n(5) by simp
    ultimately have same: "h_headers h2 = h_headers h1" "dh' = dh" "hr' = hr"
      using s(6) by (auto simp: fun_upd_idem_iff)
    have "Signature_Verify L sig pub data"
      by (rule Sign_Verify [OF assms(1) s(3,4)])
    with same s b1 t1 n assms(5) show ?thesis
      by (simp add: Block_Verify_Ok_iff [OF assms(2)] NewBlock_def the_txs_def block_header_def)
  qed
qed

definition demo_heap :: heap where
  "demo_heap = \<lparr>h_txs = (\<lambda>_. NewTransaction []),
     h_headers = (\<lambda>_. \<lparr>hd_Version = 1, hd_DataHash = zero_hash, hd_PreviousBlockHash = zero_hash,
        hd_Timestamp = 0, hd_Height = 0\<rparr>),
     h_blocks = (\<lambda>_. NewBlock 0 []), h_next = 1\<rparr>"

lemma demo_block_signed:
  "\<exists>h1 h2. NewBlockFromPrevHeader demo_lib 3 (h_headers demo_heap 0) [] demo_heap = (Ok 2, h1) \<and>
     Block_Sign demo_lib 0 \<lparr>pk_key = Some 5\<rparr> 2 h1 = (Ok (), h2) \<and> blk_Header (h_blocks h2 2) = Some 1"
  by (simp add: NewBlockFromPrevHeader_def Block_Sign_def go_simps newHeaderFromPrev_def setDataHash_def
      DefaultBlockHasher_Hash_def Header_MustToBytes_def calculateDataHash_def the_txs_def demo_lib_def
      demo_heap_def alloc_header_def alloc_block_def on_block_def on_header_def NewBlock_def
      block_header_def PrivateKey_Sign_def PrivateKey_PublicKey_def szoom_def)

lemma demo_block_verifies:
  assumes "NewBlockFromPrevHeader demo_lib 3 (h_headers demo_heap 0) [] demo_heap = (Ok 2, h1)"
    and "Block_Sign demo_lib 0 \<lparr>pk_key = Some 5\<rparr> 2 h1 = (Ok (), h2)"
  shows "Block_Verify demo_lib h2 2 = Ok ()"
  using assms
  by (auto simp: NewBlockFromPrevHeader_def Block_Sign_def go_simps newHeaderFromPrev_def setDataHash_def
      DefaultBlockHasher_Hash_def Header_MustToBytes_def calculateDataHash_def the_txs_def demo_lib_def
      demo_heap_def alloc_header_def alloc_block_def on_block_def on_header_def NewBlock_def
      block_header_def PrivateKey_Sign_def PrivateKey_PublicKey_def szoom_def Block_Verify_def
      Signature_Verify_def)

text \<open>
  C25: a block built on a header from transactions that verify, and signed, verifies; its
  height is one above (modulo 2^32), it names the hash of the header it was built on, and
  signing keeps the data hash it was built with.
\<close>

theorem built_and_signed_block_verifies:
  assumes "ecdsa_signs L" and "gob_total L"
    and "NewBlockFromPrevHeader L now prev txns h = (Ok br, h1)"
    and "Block_Sign L rnd k br h1 = (Ok (), h2)"
    and "\<forall>r \<in> set txns. Tx_Verify L (h_txs h r) = Ok ()"
  shows "Block_Verify L h2 br = Ok () \<and>
    (\<exists>x. block_header h2 br = Ok x \<and> hd_Height x = hd_Height prev + 1 \<and> hd_Timestamp x = now \<and>
       header_hash L prev = Some (hd_PreviousBlockHash x) \<and>
       calculateDataHash L (the_txs h txns) = Ok (hd_DataHash x)) \<and>
    blk_Transactions (h_blocks h2 br) = txns"
  by (rule built_and_signed [OF assms])

theorem built_and_signed_block_verifies_witness:
  "\<exists>h1 h2. NewBlockFromPrevHeader demo_lib 3 (h_headers demo_heap 0) [] demo_heap = (Ok 2, h1) \<and>
     Block_Sign demo_lib 0 \<lparr>pk_key = Some 5\<rparr> 2 h1 = (Ok (), h2) \<and> Block_Verify demo_lib h2 2 = Ok ()"
proof -
  obtain h1 h2 where h: "NewBlockFromPrevHeader demo_lib 3 (h_headers demo_heap 0) [] demo_heap = (Ok 2, h1)"
    "Block_Sign demo_lib 0 \<lparr>pk_key = Some 5\<rparr> 2 h1 = (Ok (), h2)"
    using demo_block_signed by blast
  from built_and_signed_block_verifies [OF demo_lib_contracts(2,5) h] h show ?thesis by auto
qed

text \<open>
  C38: the signature of a block does not protect its header. The encoded header is signed
  unhashed, and its first 32 bytes, the only ones that count, describe the type. Any
  header with the same data hash can be put under a verified block and it still
  verifies, with another height, another previous hash and another time.
\<close>

theorem block_signature_ignores_header:
  assumes "ecdsa_truncates L" and "gob_describes_type_first L" and "gob_total L"
    and "Block_Verify L h br = Ok ()" and "blk_Header (h_blocks h br) = Some hr"
    and "hd_DataHash x = hd_DataHash (h_headers h hr)"
  shows "Block_Verify L (h\<lparr>h_headers := (h_headers h)(hr := x)\<rparr>) br = Ok ()"
proof -
  from assms(4,5) obtain s data where v: "blk_Signature (h_blocks h br) = Some s"
    "gob_header L (h_headers h hr) = Some data"
    "Signature_Verify L s (blk_Validator (h_blocks h br)) data"
    "\<forall>r \<in> set (blk_Transactions (h_blocks h br)). Tx_Verify L (h_txs h r) = Ok ()"
    "calculateDataHash L (the_txs h (blk_Transactions (h_blocks h br))) = Ok (hd_DataHash (h_headers h hr))"
    by (auto simp: Block_Verify_Ok_iff [OF assms(3)])
  obtain data' where d: "gob_header L x = Some data'"
    using assms(3) unfolding gob_total_def by (meson not_None_eq)
  have "take 32 data' = take 32 data"
    using assms(2) d v(2) unfolding gob_describes_type_first_def by blast
  with v(3) have "Signature_Verify L s (blk_Validator (h_blocks h br)) data'"
    using Signature_Verify_take [OF assms(1)] by blast
  with v d assms(5,6) show ?thesis
    by (simp add: Block_Verify_Ok_iff [OF assms(3)] the_txs_def)
qed

theorem block_signature_ignores_header_witness:
  "\<exists>h. Block_Verify demo_lib h 2 = Ok () \<and> (\<exists>x. block_header h 2 = Ok x \<and>
     Block_Verify demo_lib (h\<lparr>h_headers := (h_headers h)(1 := x\<lparr>hd_Height := 7\<rparr>)\<rparr>) 2 = Ok ())"
proof -
  from demo_block_signed obtain h1 h2 where h: "NewBlockFromPrevHeader demo_lib 3 (h_headers demo_heap 0) [] demo_heap = (Ok 2, h1)"
    "Block_Sign demo_lib 0 \<lparr>pk_key = Some 5\<rparr> 2 h1 = (Ok (), h2)" "blk_Header (h_blocks h2 2) = Some 1"
    by (elim exE conjE)
  have v: "Block_Verify demo_lib h2 2 = Ok ()"
    by (rule demo_block_verifies [OF h(1,2)])
  have x: "block_header h2 2 = Ok (h_headers h2 1)" by (simp add: block_header_def h(3))
  have t: "Block_Verify demo_lib (h2\<lparr>h_headers := (h_headers h2)(1 := (h_headers h2 1)\<lparr>hd_Height := 7\<rparr>)\<rparr>) 2 = Ok ()"
    by (rule block_signature_ignores_header [OF demo_lib_contracts(3,4,5) v h(3)]) simp
  show ?thesis by (rule exI [of _ h2], rule conjI [OF v], rule exI, rule conjI [OF x t])
qed

text \<open>
  C26: a block verifies exactly when it is signed over its encoded header by the key of its
  validator field, every transaction in it verifies, and its data hash is the hash of its
  transactions.
\<close>

theorem Block_Verify_accepts:
  assumes "gob_total L"
  shows "Block_Verify L h br = Ok () \<longleftrightarrow>
    (\<exists>s hr data. blk_Signature (h_blocks h br) = Some s \<and> blk_Header (h_blocks h br) = Some hr \<and>
       gob_header L (h_headers h hr) = Some data \<and>
       Signature_Verify L s (blk_Validator (h_blocks h br)) data \<and>
       (\<forall>r \<in> set (blk_Transactions (h_blocks h br)). Tx_Verify L (h_txs h r) = Ok ()) \<and>
       calculateDataHash L (the_txs h (blk_Transactions (h_blocks h br))) = Ok (hd_DataHash (h_headers h hr)))"
  by (rule Block_Verify_Ok_iff [OF assms])

theorem Block_Verify_accepts_witness:
  "Block_Verify demo_lib demo_heap 0 \<noteq> Ok ()"
  using Block_Verify_accepts [OF demo_lib_contracts(5), of demo_heap 0]
  by (simp add: demo_heap_def NewBlock_def)

end
