(* ===== verification/Core_Storage.thy ===== *)
theory Core_Storage
  imports Vm_State
begin

section \<open>The in-memory store\<close>

text \<open>
  Models \<^verbatim>\<open>core/storage.go\<close>. A store is a map owned by one goroutine that serves requests
  from two unbuffered channels. A client's \<^verbatim>\<open>Put\<close> returns when the goroutine has received
  the request, and the goroutine writes the entry before it receives the next one, so
  requests take effect one at a time in the order they are received: \<open>handle_access\<close> is
  one turn of the goroutine's loop, and a call of \<^verbatim>\<open>Put\<close> or \<^verbatim>\<open>Get\<close> is one such turn.
\<close>

record ('k, 'v) memstore =
  ms_data :: "'k \<rightharpoonup> 'v"

datatype ('k, 'v) request = PutRequest 'k 'v | GetRequest 'k

text \<open>The result of a lookup: the value and whether it exists.\<close>

datatype 'v response = NoResponse | LookupResult "'v option"

definition NewGenericMemStore :: "('k, 'v) memstore" where
  "NewGenericMemStore = \<lparr>ms_data = Map.empty\<rparr>"

fun handle_access :: "('k, 'v) request \<Rightarrow> ('k, 'v) memstore \<Rightarrow> 'v response \<times> ('k, 'v) memstore" where
  "handle_access (PutRequest k v) s = (NoResponse, s\<lparr>ms_data := (ms_data s)(k \<mapsto> v)\<rparr>)"
| "handle_access (GetRequest k) s = (LookupResult (ms_data s k), s)"

definition MemStore_Put :: "'k \<Rightarrow> 'v \<Rightarrow> (('k, 'v) memstore, unit) go" where
  "MemStore_Put k v = (\<lambda>s. let (_, s') = handle_access (PutRequest k v) s in (Ok (), s'))"

definition MemStore_Get :: "'k \<Rightarrow> ('k, 'v) memstore \<Rightarrow> 'v result" where
  "MemStore_Get k s = (case handle_access (GetRequest k) s of
     (LookupResult (Some v), _) \<Rightarrow> Ok v
   | _ \<Rightarrow> Err StoreKeyMissing)"

interpretation memstore_kv: kv_store MemStore_Put MemStore_Get ms_data "\<lambda>_. StoreKeyMissing"
  by unfold_locales (auto simp: MemStore_Put_def MemStore_Get_def split: option.split)

lemma MemStore_Put_apply:
  "MemStore_Put k v s = (Ok (), s\<lparr>ms_data := (ms_data s)(k \<mapsto> v)\<rparr>)"
  by (simp add: MemStore_Put_def)

lemma MemStore_Get_Ok_iff [simp]: "MemStore_Get k s = Ok v \<longleftrightarrow> ms_data s k = Some v"
  by (rule memstore_kv.get_Ok_iff)

text \<open>The requests of all clients, in the order the goroutine receives them.\<close>

primrec serve :: "('k, 'v) request list \<Rightarrow> ('k, 'v) memstore \<Rightarrow> ('k, 'v) memstore" where
  "serve [] s = s"
| "serve (q # qs) s = serve qs (snd (handle_access q s))"

primrec last_put :: "('k, 'v) request list \<Rightarrow> 'k \<Rightarrow> 'v option \<Rightarrow> 'v option" where
  "last_put [] k v = v"
| "last_put (q # qs) k v = last_put qs k (case q of
     PutRequest k' v' \<Rightarrow> if k' = k then Some v' else v | GetRequest _ \<Rightarrow> v)"

lemma serve_data: "ms_data (serve qs s) k = last_put qs k (ms_data s k)"
proof (induction qs arbitrary: s)
  case (Cons q qs)
  then show ?case by (cases q) auto
qed simp

text \<open>
  Whatever the interleaving of the clients, a lookup returns the value of the last
  write to its key that was received before it, and an error when there was none; the
  other requests do not disturb it.
\<close>

lemma memstore_reads_last_write:
  "MemStore_Get k (serve qs NewGenericMemStore) =
     (case last_put qs k None of Some v \<Rightarrow> Ok v | None \<Rightarrow> Err StoreKeyMissing)"
  by (simp add: memstore_kv.get_ok serve_data NewGenericMemStore_def)

end
