(* ===== verification/Core_Chain.thy ===== *)
theory Core_Chain
  imports Vm_Program Core_Block Core_Storage
begin

section \<open>The blockchain\<close>

text \<open>
  Models \<^verbatim>\<open>core/blockchain.go\<close> and \<^verbatim>\<open>core/validator.go\<close>: the header store, the chain with
  its stores and the contract state, the validation of a block, the execution of its
  transactions and its insertion. The locks are left out: each operation of the header
  store runs under one. The operations run on a \<open>world\<close>: the memory and a chain.
\<close>

subsection \<open>The header store\<close>

record header_store =
  hs_data :: "ref list"
  hs_idx :: "hash \<rightharpoonup> int"

definition newheaderStore :: header_store where
  "newheaderStore = \<lparr>hs_data = [], hs_idx = Map.empty\<rparr>"

definition hs_put :: "hash \<Rightarrow> ref \<Rightarrow> (header_store, unit) go" where
  "hs_put blockId hdr = (\<lambda>s.
     case hs_idx s blockId of
       Some got \<Rightarrow> (Err (HeaderExists got), s)
     | None \<Rightarrow>
         let d = hs_data s @ [hdr]
         in (Ok (), s\<lparr>hs_data := d, hs_idx := (hs_idx s)(blockId \<mapsto> int (length d) - 1)\<rparr>))"

definition hs_empty :: "header_store \<Rightarrow> bool" where
  "hs_empty s \<longleftrightarrow> length (hs_data s) = 0"

text \<open>\<^verbatim>\<open>uint32(len(hs.data) - 1)\<close>: the largest value when the store is empty.\<close>

definition hs_height :: "header_store \<Rightarrow> u32" where
  "hs_height s = word_of_int (int (length (hs_data s)) - 1)"

definition hs_getAt :: "u32 \<Rightarrow> header_store \<Rightarrow> ref result" where
  "hs_getAt height s =
     (if height > hs_height s then Err (HeaderOutOfRange height (hs_height s))
      else go_index (hs_data s) (uint height))"

definition hs_getHash :: "hash \<Rightarrow> header_store \<Rightarrow> ref result" where
  "hs_getHash bh s = (case hs_idx s bh of
     None \<Rightarrow> Err (HeaderMissing (Hash_String bh)) | Some ix \<Rightarrow> go_index (hs_data s) ix)"

subsection \<open>The chain\<close>

record blockchain =
  bc_headers :: header_store
  bc_store :: "(ref, ref) memstore"
  bc_txStore :: "(hash, ref) memstore"
  bc_cstate :: cstate

record world =
  w_heap :: heap
  w_bc :: blockchain

abbreviation on_heap :: "(heap, 'a) go \<Rightarrow> (world, 'a) go" where
  "on_heap \<equiv> szoom w_heap (\<lambda>h w. w\<lparr>w_heap := h\<rparr>)"

abbreviation on_bc :: "(blockchain, 'a) go \<Rightarrow> (world, 'a) go" where
  "on_bc \<equiv> szoom w_bc (\<lambda>b w. w\<lparr>w_bc := b\<rparr>)"

abbreviation on_headers :: "(header_store, 'a) go \<Rightarrow> (world, 'a) go" where
  "on_headers m \<equiv> on_bc (szoom bc_headers (\<lambda>x b. b\<lparr>bc_headers := x\<rparr>) m)"

abbreviation on_store :: "((ref, ref) memstore, 'a) go \<Rightarrow> (world, 'a) go" where
  "on_store m \<equiv> on_bc (szoom bc_store (\<lambda>x b. b\<lparr>bc_store := x\<rparr>) m)"

abbreviation on_txStore :: "((hash, ref) memstore, 'a) go \<Rightarrow> (world, 'a) go" where
  "on_txStore m \<equiv> on_bc (szoom bc_txStore (\<lambda>x b. b\<lparr>bc_txStore := x\<rparr>) m)"

definition Chain_Height :: "blockchain \<Rightarrow> u32" where
  "Chain_Height bc = hs_height (bc_headers bc)"

definition HasBlockAtHeight :: "blockchain \<Rightarrow> u32 \<Rightarrow> bool" where
  "HasBlockAtHeight bc h \<longleftrightarrow> h \<le> Chain_Height bc"

definition GetHeader :: "blockchain \<Rightarrow> u32 \<Rightarrow> ref result" where
  "GetHeader bc height = hs_getAt height (bc_headers bc)"

definition GetBlockAt :: "blockchain \<Rightarrow> u32 \<Rightarrow> ref result" where
  "GetBlockAt bc height = bind_result (GetHeader bc height) (\<lambda>hr. MemStore_Get hr (bc_store bc))"

definition GetBlockHash :: "blockchain \<Rightarrow> hash \<Rightarrow> ref result" where
  "GetBlockHash bc h = bind_result (hs_getHash h (bc_headers bc)) (\<lambda>hr. MemStore_Get hr (bc_store bc))"

definition GetTransaction :: "blockchain \<Rightarrow> hash \<Rightarrow> ref result" where
  "GetTransaction bc h = MemStore_Get h (bc_txStore bc)"

subsection \<open>Validation\<close>

text \<open>
  \<^verbatim>\<open>BlockValidator.ValidateBlock\<close>. The lag of an out-of-sync error is computed in \<^verbatim>\<open>int\<close>; a
  failing lookup of the previous header ends the validation without an error, as the code
  does.
\<close>

definition ValidateBlock :: "lib \<Rightarrow> ref \<Rightarrow> (world, unit) go" where
  "ValidateBlock L br =
     sbind (sread (\<lambda>w. block_header (w_heap w) br)) (\<lambda>x w.
       let bc = w_bc w in
       if HasBlockAtHeight bc (hd_Height x) then
         sbind (on_heap (Block_Hash L br)) (\<lambda>bh. sfail (BlockExists (hd_Height x) bh)) w
       else if hd_Height x \<noteq> Chain_Height bc + 1 then
         (Err (OutOfSync (ucast (hd_Height x) - ucast (Chain_Height bc))), w)
       else (case GetHeader bc (hd_Height x - 1) of
           Err e \<Rightarrow> (Ok (), w)
         | Panic p \<Rightarrow> (Panic p, w)
         | Ok prev \<Rightarrow>
             (bind_result (DefaultBlockHasher_Hash L (h_headers (w_heap w) prev)) (\<lambda>onChainHash.
                if onChainHash \<noteq> hd_PreviousBlockHash x
                then Err (BadPreviousHash (Hash_String onChainHash) (hd_PreviousBlockHash x))
                else map_error InvalidBlock (Block_Verify L (w_heap w) br)), w)))"

subsection \<open>Insertion\<close>

text \<open>
  One transaction of a block on the virtual machine. The machine works on the chain's
  contract state itself, so what it has written stays when it fails. The error message
  asks the transaction for its hash. After a run the code looks at the top of the stack,
  for its log, and drops the error of an empty stack.
\<close>

definition run_tx :: "lib \<Rightarrow> ref \<Rightarrow> (world, unit) go" where
  "run_tx L tr = (\<lambda>w.
     case NewVM (tx_Data (h_txs (w_heap w) tr)) [ContractStateOpt (bc_cstate (w_bc w))] of
       Err e \<Rightarrow> (Err e, w)
     | Panic p \<Rightarrow> (Panic p, w)
     | Ok m \<Rightarrow>
         let (r, m') = vm_run m;
             w' = w\<lparr>w_bc := (w_bc w)\<lparr>bc_cstate := vm_cstate m'\<rparr>\<rparr>
         in case r of
              Ok _ \<Rightarrow> (case Stack_Peek (vm_stack m') of Panic p \<Rightarrow> (Panic p, w') | _ \<Rightarrow> (Ok (), w'))
            | Panic p \<Rightarrow> (Panic p, w')
            | Err e \<Rightarrow> sbind (on_heap (on_tx tr (Tx_Hash L)))
                         (\<lambda>h. sfail (AddBlockVm (Hash_Prefix h) e)) w')"

definition persist_tx :: "lib \<Rightarrow> ref \<Rightarrow> (world, unit) go" where
  "persist_tx L tr =
     sbind (on_heap (on_tx tr (Tx_SetHasher (Some DefaultTxHasher)))) (\<lambda>_.
     sbind (on_heap (on_tx tr (Tx_Hash L))) (\<lambda>h.
       on_txStore (MemStore_Put h tr)))"

definition persistBlock :: "lib \<Rightarrow> ref \<Rightarrow> (world, unit) go" where
  "persistBlock L br =
     sbind (on_heap (Block_Hash L br)) (\<lambda>bh.
     sbind (sread (\<lambda>w. case blk_Header (h_blocks (w_heap w) br) of
              None \<Rightarrow> Panic NilDereference | Some hr \<Rightarrow> Ok hr)) (\<lambda>hr.
     sbind (on_headers (hs_put bh hr)) (\<lambda>_ w.
       case on_store (MemStore_Put hr br) w of
         (Err e, w') \<Rightarrow> (Ok (), w')
       | (Panic p, w') \<Rightarrow> (Panic p, w')
       | (Ok _, w') \<Rightarrow> sfor (blk_Transactions (h_blocks (w_heap w') br)) (persist_tx L) w')))"

definition AddBlock :: "lib \<Rightarrow> ref \<Rightarrow> (world, unit) go" where
  "AddBlock L br =
     sbind (ValidateBlock L br) (\<lambda>_.
     sbind (sget (\<lambda>w. blk_Transactions (h_blocks (w_heap w) br))) (\<lambda>txns.
     sbind (sfor txns (run_tx L)) (\<lambda>_. persistBlock L br)))"

definition addGensisBlock :: "lib \<Rightarrow> ref \<Rightarrow> (world, unit) go" where
  "addGensisBlock L br = (\<lambda>w.
     if \<not> hs_empty (bc_headers (w_bc w)) then (Err GenesisOnNonEmptyChain, w)
     else persistBlock L br w)"

definition empty_chain :: blockchain where
  "empty_chain = \<lparr>bc_headers = newheaderStore, bc_store = NewGenericMemStore,
     bc_txStore = NewGenericMemStore, bc_cstate = NewState\<rparr>"

definition NewBlockchain :: "lib \<Rightarrow> ref \<Rightarrow> heap \<Rightarrow> unit result \<times> world" where
  "NewBlockchain L genesis h = addGensisBlock L genesis \<lparr>w_heap = h, w_bc = empty_chain\<rparr>"

end
