(* ===== verification/Core_Chain_Inv.thy ===== *)
theory Core_Chain_Inv
  imports Core_Chain
begin

section \<open>The invariant of the chain\<close>

text \<open>
  The invariant that ties the header store, its index, the block store, the transaction
  store and the memory together, what each step of \<^verbatim>\<open>AddBlock\<close> may change, and the
  preservation of the invariant on every outcome of an insertion.
\<close>

subsection \<open>Cached values\<close>

text \<open>
  Every cached hash in the memory is empty or right. An object that comes from the network
  has no cached hash, and the code fills the caches itself.
\<close>

definition heap_ok :: "lib \<Rightarrow> heap \<Rightarrow> bool" where
  "heap_ok L h \<longleftrightarrow> (\<forall>r. tx_cache_ok L (h_txs h r)) \<and> (\<forall>r. block_cache_ok L h r)"

text \<open>
  What the chain's operations leave alone: they may fill a cache and set a hasher, and
  nothing else of the memory changes.
\<close>

definition same_content :: "block \<Rightarrow> block \<Rightarrow> bool" where
  "same_content b b' \<longleftrightarrow> blk_Header b' = blk_Header b \<and> blk_Transactions b' = blk_Transactions b \<and>
     blk_Validator b' = blk_Validator b \<and> blk_Signature b' = blk_Signature b"

definition quiet :: "lib \<Rightarrow> heap \<Rightarrow> heap \<Rightarrow> bool" where
  "quiet L h h' \<longleftrightarrow> h_headers h' = h_headers h \<and> h_next h' = h_next h \<and>
     (\<forall>r. same_content (h_blocks h r) (h_blocks h' r)) \<and>
     (\<forall>r. tx_wire (h_txs h' r) = tx_wire (h_txs h r)) \<and> (heap_ok L h \<longrightarrow> heap_ok L h')"

lemma same_content_refl [simp]: "same_content b b"
  by (simp add: same_content_def)

lemma quiet_refl [simp]: "quiet L h h"
  by (simp add: quiet_def)

lemma quiet_trans: "quiet L h h1 \<Longrightarrow> quiet L h1 h2 \<Longrightarrow> quiet L h h2"
  by (simp add: quiet_def same_content_def)

lemma quiet_block: "quiet L h h' \<Longrightarrow> blk_Header (h_blocks h' r) = blk_Header (h_blocks h r)"
  "quiet L h h' \<Longrightarrow> blk_Transactions (h_blocks h' r) = blk_Transactions (h_blocks h r)"
  "quiet L h h' \<Longrightarrow> h_headers h' = h_headers h"
  by (simp_all add: quiet_def same_content_def)

lemma quiet_data: "quiet L h h' \<Longrightarrow> tx_Data (h_txs h' r) = tx_Data (h_txs h r)"
  by (simp add: quiet_def tx_wire_def)

lemma quiet_heap_ok: "quiet L h h' \<Longrightarrow> heap_ok L h \<Longrightarrow> heap_ok L h'"
  by (simp add: quiet_def)

text \<open>Verification reads only what stays.\<close>

lemma quiet_wires: "quiet L h h' \<Longrightarrow> map tx_wire (the_txs h' rs) = map tx_wire (the_txs h rs)"
  by (simp add: quiet_def the_txs_def)

lemma quiet_verify:
  assumes "quiet L h h'"
  shows "Block_Verify L h' br = Block_Verify L h br"
proof -
  note w = quiet_wires [OF assms, of "blk_Transactions (h_blocks h br)"]
  have "block_header h' br = block_header h br"
    using assms by (simp add: block_header_def quiet_block cong: option.case_cong)
  moreover have "blk_Signature (h_blocks h' br) = blk_Signature (h_blocks h br)"
    "blk_Validator (h_blocks h' br) = blk_Validator (h_blocks h br)"
    using assms by (simp_all add: quiet_def same_content_def)
  ultimately show ?thesis
    using verify_txs_wire [OF w, of L 0] calculateDataHash_wire [OF w, of L]
    by (simp add: Block_Verify_def Let_def quiet_block(2) [OF assms] cong: option.case_cong if_cong)
qed

subsection \<open>The steps are quiet\<close>

lemma block_header_tx [simp]: "block_header (h\<lparr>h_txs := x\<rparr>) br = block_header h br"
  by (simp add: block_header_def cong: option.case_cong)

lemma block_header_hash [simp]:
  "block_header (h\<lparr>h_blocks := (h_blocks h)(br := (h_blocks h br)\<lparr>blk_hash := x\<rparr>)\<rparr>) r = block_header h r"
  by (simp add: block_header_def cong: option.case_cong)

lemma quiet_tx:
  assumes "tx_wire t = tx_wire (h_txs h r)"
    and "tx_cache_ok L (h_txs h r) \<Longrightarrow> tx_cache_ok L t"
  shows "quiet L h (h\<lparr>h_txs := (h_txs h)(r := t)\<rparr>)"
  using assms by (simp add: quiet_def heap_ok_def block_cache_ok_def)

lemma keeps_quiet_on_tx:
  assumes "\<And>t t' a. m t = (a, t') \<Longrightarrow> tx_wire t' = tx_wire t \<and> (tx_cache_ok L t \<longrightarrow> tx_cache_ok L t')"
  shows "keeps (quiet L h0) (on_tx tr m)"
proof (rule keepsI)
  fix h a h'
  assume q: "quiet L h0 h" and r: "on_tx tr m h = (a, h')"
  obtain t' where t': "m (h_txs h tr) = (a, t')" "h' = h\<lparr>h_txs := (h_txs h)(tr := t')\<rparr>"
    using r by (auto simp: on_tx_def szoom_def split: prod.splits)
  have "quiet L h h'"
    unfolding t'(2) using assms [OF t'(1)] by (intro quiet_tx) auto
  with q show "quiet L h0 h'" by (rule quiet_trans)
qed

lemma Tx_Hash_quiet:
  "Tx_Hash L t = (a, t') \<Longrightarrow> tx_wire t' = tx_wire t \<and> (tx_cache_ok L t \<longrightarrow> tx_cache_ok L t')"
  by (auto simp: Tx_Hash_def tx_wire_def tx_cache_ok_def DefaultTxHasher_Hash_def Let_def
      split: if_splits option.splits tx_hasher.splits)

lemma SetHasher_quiet:
  "Tx_SetHasher hs t = (a, t') \<Longrightarrow> tx_wire t' = tx_wire t \<and> (tx_cache_ok L t \<longrightarrow> tx_cache_ok L t')"
  by (auto simp: Tx_SetHasher_def go_simps tx_wire_def tx_cache_ok_def)

lemma Block_Hash_quiet:
  assumes "Block_Hash L br h = (r, h')"
  shows "quiet L h h'"
proof -
  obtain x where x: "h' = h\<lparr>h_blocks := (h_blocks h)(br := (h_blocks h br)\<lparr>blk_hash := x\<rparr>)\<rparr>"
    using Block_Hash_effect [OF assms] by blast
  have "block_cache_ok L h' br" if "block_cache_ok L h br"
  proof (cases r)
    case (Ok bh)
    with Block_Hash_result [OF that] assms show ?thesis
      by (auto simp: block_cache_ok_def block_header_def DefaultBlockHasher_header_hash)
  next
    case (Err e)
    with assms that show ?thesis
      by (auto simp: Block_Hash_def sbind_def sread_def on_block_def szoom_def smodify_def sret_def
          split: if_splits result.splits)
  next
    case (Panic p)
    with assms that show ?thesis
      by (auto simp: Block_Hash_def sbind_def sread_def on_block_def szoom_def smodify_def sret_def
          split: if_splits result.splits)
  qed
  then show ?thesis
    using x by (auto simp: quiet_def same_content_def heap_ok_def block_cache_ok_def)
qed

subsection \<open>The invariant\<close>

text \<open>
  A chain is well formed when it has a block; the header at position \<open>k\<close> has height \<open>k\<close>;
  each header names the hash of the one before; the index maps the hash of a header to its
  position and nothing else; for each header the store has a block with that header, whose
  transactions are found in the transaction store under the hash of their data; and what
  the transaction store has under a hash is a transaction whose data has that hash.
\<close>

definition linked :: "lib \<Rightarrow> header list \<Rightarrow> bool" where
  "linked L xs \<longleftrightarrow> (\<forall>k. Suc k < length xs \<longrightarrow>
     header_hash L (xs ! k) = Some (hd_PreviousBlockHash (xs ! Suc k)))"

definition heights_ok :: "header list \<Rightarrow> bool" where
  "heights_ok xs \<longleftrightarrow> (\<forall>k < length xs. hd_Height (xs ! k) = of_nat k)"

definition index_ok :: "lib \<Rightarrow> header list \<Rightarrow> (hash \<rightharpoonup> int) \<Rightarrow> bool" where
  "index_ok L xs m \<longleftrightarrow> (\<forall>k < length xs. \<exists>bh. header_hash L (xs ! k) = Some bh \<and> m bh = Some (int k)) \<and>
     (\<forall>bh i. m bh = Some i \<longrightarrow> (\<exists>k < length xs. i = int k \<and> header_hash L (xs ! k) = Some bh))"

definition stored_ok :: "lib \<Rightarrow> heap \<Rightarrow> (ref \<rightharpoonup> ref) \<Rightarrow> (hash \<rightharpoonup> ref) \<Rightarrow> ref \<Rightarrow> bool" where
  "stored_ok L h store txs hr \<longleftrightarrow> (\<exists>br. store hr = Some br \<and> blk_Header (h_blocks h br) = Some hr \<and>
     (\<forall>r \<in> set (blk_Transactions (h_blocks h br)). txs (sha256 L (tx_Data (h_txs h r))) \<noteq> None))"

definition keyed_by_hash :: "lib \<Rightarrow> heap \<Rightarrow> (hash \<rightharpoonup> ref) \<Rightarrow> bool" where
  "keyed_by_hash L h txs \<longleftrightarrow> (\<forall>x r. txs x = Some r \<longrightarrow> x = sha256 L (tx_Data (h_txs h r)))"

abbreviation chain_refs :: "blockchain \<Rightarrow> ref list" where
  "chain_refs b \<equiv> hs_data (bc_headers b)"

abbreviation chain_headers :: "heap \<Rightarrow> blockchain \<Rightarrow> header list" where
  "chain_headers h b \<equiv> map (h_headers h) (chain_refs b)"

definition chain_pre :: "lib \<Rightarrow> heap \<Rightarrow> blockchain \<Rightarrow> bool" where
  "chain_pre L h b \<longleftrightarrow> length (chain_refs b) \<le> 2 ^ 32 \<and>
     heights_ok (chain_headers h b) \<and> linked L (chain_headers h b) \<and>
     index_ok L (chain_headers h b) (hs_idx (bc_headers b)) \<and>
     (\<forall>hr \<in> set (chain_refs b). stored_ok L h (ms_data (bc_store b)) (ms_data (bc_txStore b)) hr) \<and>
     keyed_by_hash L h (ms_data (bc_txStore b))"

definition chain_ok :: "lib \<Rightarrow> world \<Rightarrow> bool" where
  "chain_ok L w \<longleftrightarrow> heap_ok L (w_heap w) \<and> chain_refs (w_bc w) \<noteq> [] \<and> chain_pre L (w_heap w) (w_bc w)"

text \<open>The contract state is no part of the invariant, and quiet changes keep it.\<close>

lemma chain_pre_quiet:
  assumes "quiet L h h'" "chain_pre L h b"
  shows "chain_pre L h' (b\<lparr>bc_cstate := cs\<rparr>)"
  using assms by (simp add: chain_pre_def stored_ok_def keyed_by_hash_def quiet_block [OF assms(1)]
      quiet_data [OF assms(1)])

text \<open>Quiet steps of a world: quiet in the memory, and only the contract state of the chain changes.\<close>

definition wquiet :: "lib \<Rightarrow> world \<Rightarrow> world \<Rightarrow> bool" where
  "wquiet L w w' \<longleftrightarrow> quiet L (w_heap w) (w_heap w') \<and> (\<exists>cs. w_bc w' = (w_bc w)\<lparr>bc_cstate := cs\<rparr>)"

lemma wquiet_refl [simp]: "wquiet L w w"
  by (auto simp: wquiet_def intro: exI [of _ "bc_cstate (w_bc w)"])

lemma wquiet_trans: "wquiet L w w1 \<Longrightarrow> wquiet L w1 w2 \<Longrightarrow> wquiet L w w2"
  by (auto simp: wquiet_def intro: quiet_trans)

lemma wquiet_chain_ok: "wquiet L w w' \<Longrightarrow> chain_ok L w \<Longrightarrow> chain_ok L w'"
  by (auto simp: wquiet_def chain_ok_def quiet_heap_ok chain_pre_quiet)

lemma keeps_on_heap:
  assumes "\<And>h a h'. m h = (a, h') \<Longrightarrow> quiet L h h'"
  shows "keeps (wquiet L w0) (on_heap m)"
proof (rule keepsI)
  fix w a w'
  assume q: "wquiet L w0 w" and r: "on_heap m w = (a, w')"
  then obtain h' where h': "m (w_heap w) = (a, h')" "w' = w\<lparr>w_heap := h'\<rparr>"
    by (auto simp: szoom_def split: prod.splits)
  have "wquiet L w w'"
    using assms [OF h'(1)] by (auto simp: wquiet_def h'(2) intro: exI [of _ "bc_cstate (w_bc w)"])
  with q show "wquiet L w0 w'" by (rule wquiet_trans)
qed

lemma on_tx_quiet:
  assumes "on_tx tr m h = (a, h')"
    and "\<And>t t' a. m t = (a, t') \<Longrightarrow> tx_wire t' = tx_wire t \<and> (tx_cache_ok L t \<longrightarrow> tx_cache_ok L t')"
  shows "quiet L h h'"
  using keepsD [OF keeps_quiet_on_tx [of m L h, OF assms(2)] _ assms(1)] by auto

lemmas keeps_Block_Hash = keeps_on_heap [OF Block_Hash_quiet]
lemmas keeps_Tx_Hash = keeps_on_heap [OF on_tx_quiet [OF _ Tx_Hash_quiet]]
lemmas keeps_SetHasher = keeps_on_heap [OF on_tx_quiet [OF _ SetHasher_quiet]]

lemma ValidateBlock_quiet:
  assumes "ValidateBlock L br w = (r, w')"
  shows "quiet L (w_heap w) (w_heap w') \<and> w_bc w' = w_bc w"
  using assms
  by (auto simp: ValidateBlock_def Let_def sbind_def sread_def sfail_def szoom_def Block_Hash_quiet
      split: result.splits prod.splits if_splits)

lemma ValidateBlock_wquiet: "keeps (wquiet L w0) (ValidateBlock L br)"
proof (rule keepsI)
  fix w r w'
  assume "wquiet L w0 w" "ValidateBlock L br w = (r, w')"
  moreover from ValidateBlock_quiet [OF this(2)] have "wquiet L w w'"
    by (auto simp: wquiet_def intro: exI [of _ "bc_cstate (w_bc w)"])
  ultimately show "wquiet L w0 w'" by (blast intro: wquiet_trans)
qed

lemma run_tx_wquiet: "keeps (wquiet L w0) (run_tx L tr)"
proof (rule keepsI)
  fix w r w'
  assume q: "wquiet L w0 w" and run: "run_tx L tr w = (r, w')"
  have step: "wquiet L w (w\<lparr>w_bc := (w_bc w)\<lparr>bc_cstate := cs\<rparr>\<rparr>)" for cs
    by (auto simp: wquiet_def)
  have hash: "keeps (wquiet L w) (sbind (on_heap (on_tx tr (Tx_Hash L)))
      (\<lambda>h. sfail (AddBlockVm (Hash_Prefix h) e) :: (world, unit) go))" for e
    by (intro keeps_sbind keeps_sfail keeps_Tx_Hash)
  have "wquiet L w w'"
    using run step keepsD [OF hash step]
    by (auto simp: run_tx_def Let_def split: result.splits prod.splits)
  with q show "wquiet L w0 w'" by (rule wquiet_trans)
qed

lemma run_txs_wquiet: "keeps (wquiet L w0) (sfor txns (run_tx L))"
  by (intro keeps_sfor run_tx_wquiet)

subsection \<open>Storing a block\<close>

text \<open>The transaction store after a block: its entries, the last one of a hash first.\<close>

definition tx_entries :: "lib \<Rightarrow> heap \<Rightarrow> ref list \<Rightarrow> (hash \<rightharpoonup> ref)" where
  "tx_entries L h rs = map_of (rev (map (\<lambda>r. (sha256 L (tx_Data (h_txs h r)), r)) rs))"

lemma tx_entries_quiet: "quiet L h h' \<Longrightarrow> tx_entries L h' rs = tx_entries L h rs"
  by (simp add: tx_entries_def quiet_data)

lemma tx_entries_keyed: "tx_entries L h rs x = Some r \<Longrightarrow> r \<in> set rs \<and> x = sha256 L (tx_Data (h_txs h r))"
  by (auto simp: tx_entries_def dest!: map_of_SomeD)

lemma tx_entries_defined: "r \<in> set rs \<Longrightarrow> tx_entries L h rs (sha256 L (tx_Data (h_txs h r))) \<noteq> None"
  unfolding tx_entries_def map_of_eq_None_iff by force

lemma tx_entries_Cons: "m ++ tx_entries L h (r # rs) = (m(sha256 L (tx_Data (h_txs h r)) \<mapsto> r)) ++ tx_entries L h rs"
  by (simp add: fun_eq_iff map_add_def tx_entries_def split: option.split)

lemma persist_tx_result:
  assumes "heap_ok L (w_heap w)"
  shows "\<exists>h'. quiet L (w_heap w) h' \<and> persist_tx L tr w =
    (Ok (), w\<lparr>w_heap := h', w_bc := (w_bc w)\<lparr>bc_txStore := (bc_txStore (w_bc w))
      \<lparr>ms_data := (ms_data (bc_txStore (w_bc w)))(sha256 L (tx_Data (h_txs (w_heap w) tr)) \<mapsto> tr)\<rparr>\<rparr>\<rparr>)"
proof -
  let ?h = "w_heap w" and ?t = "(h_txs (w_heap w) tr)\<lparr>tx_hasher := Some DefaultTxHasher\<rparr>"
  let ?h1 = "?h\<lparr>h_txs := (h_txs ?h)(tr := ?t)\<rparr>"
  have s: "on_tx tr (Tx_SetHasher (Some DefaultTxHasher)) ?h = (Ok (), ?h1)"
    by (simp add: on_tx_def szoom_def Tx_SetHasher_def go_simps)
  have q1: "quiet L ?h ?h1"
    by (rule on_tx_quiet [OF s SetHasher_quiet])
  have "tx_cache_ok L ?t"
    using assms by (simp add: heap_ok_def tx_cache_ok_def)
  from Tx_Hash_Ok [OF this] obtain t' where t': "Tx_Hash L ?t = (Ok (sha256 L (tx_Data (h_txs ?h tr))), t')"
    by auto
  let ?h2 = "?h1\<lparr>h_txs := (h_txs ?h1)(tr := t')\<rparr>"
  have r: "on_tx tr (Tx_Hash L) ?h1 = (Ok (sha256 L (tx_Data (h_txs ?h tr))), ?h2)"
    by (simp add: on_tx_def szoom_def t')
  from q1 on_tx_quiet [OF r Tx_Hash_quiet] have "quiet L ?h ?h2" by (rule quiet_trans)
  moreover have "persist_tx L tr w =
    (Ok (), w\<lparr>w_heap := ?h2, w_bc := (w_bc w)\<lparr>bc_txStore := (bc_txStore (w_bc w))
      \<lparr>ms_data := (ms_data (bc_txStore (w_bc w)))(sha256 L (tx_Data (h_txs (w_heap w) tr)) \<mapsto> tr)\<rparr>\<rparr>\<rparr>)"
    using s r by (simp add: persist_tx_def sbind_def szoom_def MemStore_Put_apply)
  ultimately show ?thesis by blast
qed

lemma persist_txs_result:
  assumes "heap_ok L (w_heap w)"
  shows "\<exists>h'. quiet L (w_heap w) h' \<and> sfor rs (persist_tx L) w =
    (Ok (), w\<lparr>w_heap := h', w_bc := (w_bc w)\<lparr>bc_txStore := (bc_txStore (w_bc w))
      \<lparr>ms_data := ms_data (bc_txStore (w_bc w)) ++ tx_entries L (w_heap w) rs\<rparr>\<rparr>\<rparr>)"
  using assms
proof (induction rs arbitrary: w)
  case Nil
  then show ?case by (auto simp: go_simps tx_entries_def intro: exI [of _ "w_heap w"])
next
  case (Cons r rs)
  let ?m = "ms_data (bc_txStore (w_bc w))" and ?x = "sha256 L (tx_Data (h_txs (w_heap w) r))"
  from persist_tx_result [OF Cons.prems, of r] obtain h1 where h1: "quiet L (w_heap w) h1"
    "persist_tx L r w = (Ok (), w\<lparr>w_heap := h1, w_bc := (w_bc w)\<lparr>bc_txStore := (bc_txStore (w_bc w))
      \<lparr>ms_data := ?m(?x \<mapsto> r)\<rparr>\<rparr>\<rparr>)" by blast
  have "(?m(?x \<mapsto> r)) ++ tx_entries L h1 rs = ?m ++ tx_entries L (w_heap w) (r # rs)"
    by (simp add: tx_entries_quiet [OF h1(1)] tx_entries_Cons)
  moreover have "heap_ok L (w_heap (w\<lparr>w_heap := h1, w_bc := (w_bc w)\<lparr>bc_txStore := (bc_txStore (w_bc w))
      \<lparr>ms_data := ?m(?x \<mapsto> r)\<rparr>\<rparr>\<rparr>))" using quiet_heap_ok [OF h1(1) Cons.prems] by simp
  from Cons.IH [OF this] obtain h2 where "quiet L h1 h2"
    "sfor rs (persist_tx L) (w\<lparr>w_heap := h1, w_bc := (w_bc w)\<lparr>bc_txStore := (bc_txStore (w_bc w))
      \<lparr>ms_data := ?m(?x \<mapsto> r)\<rparr>\<rparr>\<rparr>) = (Ok (), w\<lparr>w_heap := h2, w_bc := (w_bc w)\<lparr>bc_txStore :=
        (bc_txStore (w_bc w))\<lparr>ms_data := (?m(?x \<mapsto> r)) ++ tx_entries L h1 rs\<rparr>\<rparr>\<rparr>)"
    by (auto simp del: fun_upd_apply)
  ultimately show ?case
    using h1 quiet_trans [OF h1(1)] by (simp add: go_simps) blast
qed

text \<open>
  Storing a block: it fails without a change of the chain, or appends the block's header
  under its hash, which was not in the index, stores the block under its header and its
  transactions under their hashes.
\<close>

definition stored :: "lib \<Rightarrow> heap \<Rightarrow> ref \<Rightarrow> ref \<Rightarrow> hash \<Rightarrow> blockchain \<Rightarrow> blockchain" where
  "stored L h br hr bh b = b\<lparr>
     bc_headers := (bc_headers b)\<lparr>hs_data := hs_data (bc_headers b) @ [hr],
                    hs_idx := (hs_idx (bc_headers b))(bh \<mapsto> int (length (hs_data (bc_headers b))))\<rparr>,
     bc_store := (bc_store b)\<lparr>ms_data := (ms_data (bc_store b))(hr \<mapsto> br)\<rparr>,
     bc_txStore := (bc_txStore b)\<lparr>ms_data :=
       ms_data (bc_txStore b) ++ tx_entries L h (blk_Transactions (h_blocks h br))\<rparr>\<rparr>"

definition storable :: "lib \<Rightarrow> heap \<Rightarrow> ref \<Rightarrow> ref \<Rightarrow> hash \<Rightarrow> blockchain \<Rightarrow> bool" where
  "storable L h br hr bh b \<longleftrightarrow> blk_Header (h_blocks h br) = Some hr \<and>
     header_hash L (h_headers h hr) = Some bh \<and> hs_idx (bc_headers b) bh = None"

lemma persistBlock_stores:
  assumes "heap_ok L (w_heap w)" "storable L (w_heap w) br hr bh (w_bc w)"
  shows "\<exists>h'. quiet L (w_heap w) h' \<and>
    persistBlock L br w = (Ok (), w\<lparr>w_heap := h', w_bc := stored L (w_heap w) br hr bh (w_bc w)\<rparr>)"
proof -
  let ?h = "w_heap w"
  from assms(1) have cache: "block_cache_ok L ?h br" by (simp add: heap_ok_def)
  from assms(2) have st: "blk_Header (h_blocks ?h br) = Some hr" "header_hash L (h_headers ?h hr) = Some bh"
    "hs_idx (bc_headers (w_bc w)) bh = None" by (simp_all add: storable_def)
  obtain h1 where h1: "Block_Hash L br ?h = (Ok bh, h1)" "quiet L ?h h1"
    using Block_Hash_defined [OF st(1,2) cache] Block_Hash_quiet by blast
  let ?b = "(w_bc w)\<lparr>bc_headers := (bc_headers (w_bc w))\<lparr>hs_data := hs_data (bc_headers (w_bc w)) @ [hr],
      hs_idx := (hs_idx (bc_headers (w_bc w)))(bh \<mapsto> int (length (hs_data (bc_headers (w_bc w)))))\<rparr>,
      bc_store := (bc_store (w_bc w))\<lparr>ms_data := (ms_data (bc_store (w_bc w)))(hr \<mapsto> br)\<rparr>\<rparr>"
  let ?w = "w\<lparr>w_heap := h1, w_bc := ?b\<rparr>"
  have "persistBlock L br w = sfor (blk_Transactions (h_blocks h1 br)) (persist_tx L) ?w"
    using h1 st by (simp add: persistBlock_def sbind_def szoom_def sread_def hs_put_def Let_def
        MemStore_Put_apply quiet_block)
  moreover have "heap_ok L (w_heap ?w)" using quiet_heap_ok [OF h1(2) assms(1)] by simp
  from persist_txs_result [OF this, of "blk_Transactions (h_blocks h1 br)"]
  obtain h2 where "quiet L h1 h2" "sfor (blk_Transactions (h_blocks h1 br)) (persist_tx L) ?w =
    (Ok (), ?w\<lparr>w_heap := h2, w_bc := ?b\<lparr>bc_txStore := (bc_txStore (w_bc w))
      \<lparr>ms_data := ms_data (bc_txStore (w_bc w)) ++
         tx_entries L h1 (blk_Transactions (h_blocks h1 br))\<rparr>\<rparr>\<rparr>)" by auto
  ultimately show ?thesis
    using quiet_trans [OF h1(2)] tx_entries_quiet [OF h1(2)] quiet_block(2) [OF h1(2)]
    by (auto simp: stored_def)
qed

lemma persistBlock_cases:
  assumes "heap_ok L (w_heap w)" "persistBlock L br w = (r, w')"
  obtains (fails) "r \<noteq> Ok ()" "quiet L (w_heap w) (w_heap w')" "w_bc w' = w_bc w"
    | (stores) hr bh where "r = Ok ()" "storable L (w_heap w) br hr bh (w_bc w)"
      "quiet L (w_heap w) (w_heap w')" "w_bc w' = stored L (w_heap w) br hr bh (w_bc w)"
proof (cases "\<exists>hr bh. storable L (w_heap w) br hr bh (w_bc w)")
  case True
  then show ?thesis
    using persistBlock_stores [OF assms(1)] assms(2) stores by fastforce
next
  case False
  obtain a h1 where a: "Block_Hash L br (w_heap w) = (a, h1)" by fastforce
  have q: "quiet L (w_heap w) h1" by (rule Block_Hash_quiet [OF a])
  show ?thesis
  proof (cases a)
    case (Ok bh)
    have "block_cache_ok L (w_heap w) br" using assms(1) by (simp add: heap_ok_def)
    from Block_Hash_result [OF this a [unfolded Ok]] obtain hr where
      hr: "blk_Header (h_blocks (w_heap w) br) = Some hr" "header_hash L (h_headers (w_heap w) hr) = Some bh"
      by blast
    with False obtain i where "hs_idx (bc_headers (w_bc w)) bh = Some i"
      by (auto simp: storable_def)
    with a Ok q hr have "persistBlock L br w = (Err (HeaderExists i), w\<lparr>w_heap := h1\<rparr>)"
      by (simp add: persistBlock_def sbind_def szoom_def sread_def hs_put_def quiet_block)
    with assms(2) q fails show ?thesis by auto
  qed (use a q assms(2) fails in \<open>auto simp: persistBlock_def sbind_def szoom_def\<close>)
qed

subsection \<open>Lookups in a well-formed chain\<close>

lemma hs_height_uint:
  assumes "hs_data s \<noteq> []" "length (hs_data s) \<le> 2 ^ 32"
  shows "uint (hs_height s) = int (length (hs_data s)) - 1"
proof -
  have "0 \<le> int (length (hs_data s)) - 1" using assms(1) by (cases "hs_data s") simp_all
  moreover have "int (length (hs_data s)) - 1 < 2 ^ LENGTH(32)" using assms(2) by simp
  ultimately show ?thesis
    unfolding hs_height_def uint_word_of_int by (rule mod_pos_pos_trivial)
qed

lemma hs_getAt_in:
  assumes "hs_data s \<noteq> []" "length (hs_data s) \<le> 2 ^ 32"
  shows "hs_getAt i s = (if unat i < length (hs_data s) then Ok (hs_data s ! unat i)
    else Err (HeaderOutOfRange i (hs_height s)))"
proof -
  have u: "uint i = int (unat i)" by simp
  have "i > hs_height s \<longleftrightarrow> \<not> unat i < length (hs_data s)"
    unfolding word_less_def hs_height_uint [OF assms] u by linarith
  moreover have "unat i < length (hs_data s) \<Longrightarrow> go_index (hs_data s) (uint i) = Ok (hs_data s ! unat i)"
    unfolding u by (rule go_index_Ok)
  ultimately show ?thesis
    unfolding hs_getAt_def by presburger
qed

lemma GetHeader_in:
  assumes "chain_ok L w"
  shows "GetHeader (w_bc w) i = (if unat i < length (chain_refs (w_bc w)) then Ok (chain_refs (w_bc w) ! unat i)
    else Err (HeaderOutOfRange i (Chain_Height (w_bc w))))"
  using assms by (simp add: GetHeader_def Chain_Height_def hs_getAt_in chain_ok_def chain_pre_def)

lemma Chain_Height_uint:
  "chain_ok L w \<Longrightarrow> uint (Chain_Height (w_bc w)) = int (length (chain_refs (w_bc w))) - 1"
  by (simp add: Chain_Height_def hs_height_uint chain_ok_def chain_pre_def)

subsection \<open>Appending a valid block\<close>

lemma heights_ok_snoc: "heights_ok (xs @ [x]) \<longleftrightarrow> heights_ok xs \<and> hd_Height x = of_nat (length xs)"
  by (auto simp: heights_ok_def nth_append less_Suc_eq)

lemma linked_snoc:
  assumes "linked L xs" "xs \<noteq> [] \<Longrightarrow> header_hash L (last xs) = Some (hd_PreviousBlockHash x)"
  shows "linked L (xs @ [x])"
  unfolding linked_def
proof (intro allI impI)
  fix k
  assume "Suc k < length (xs @ [x])"
  then consider "Suc k < length xs" | "Suc k = length xs" by fastforce
  then show "header_hash L ((xs @ [x]) ! k) = Some (hd_PreviousBlockHash ((xs @ [x]) ! Suc k))"
  proof cases
    case 1
    with assms(1) show ?thesis by (simp add: nth_append linked_def)
  next
    case 2
    then have "xs \<noteq> []" "k = length xs - 1" by auto
    with 2 assms(2) show ?thesis by (simp add: nth_append last_conv_nth)
  qed
qed

lemma index_ok_snoc:
  assumes "index_ok L xs m" "m bh = None" "header_hash L x = Some bh"
  shows "index_ok L (xs @ [x]) (m(bh \<mapsto> int (length xs)))"
proof -
  have "\<exists>b. header_hash L ((xs @ [x]) ! k) = Some b \<and> (m(bh \<mapsto> int (length xs))) b = Some (int k)"
    if "k < length (xs @ [x])" for k
  proof (cases "k < length xs")
    case True
    with assms(1) obtain b where "header_hash L (xs ! k) = Some b" "m b = Some (int k)"
      by (auto simp: index_ok_def)
    with True assms(2) show ?thesis by (auto simp: nth_append)
  next
    case False
    with that assms(3) show ?thesis by (simp add: nth_append)
  qed
  moreover have "\<exists>k < length (xs @ [x]). i = int k \<and> header_hash L ((xs @ [x]) ! k) = Some b"
    if "(m(bh \<mapsto> int (length xs))) b = Some i" for b i
  proof (cases "b = bh")
    case True
    with that assms(3) show ?thesis by (auto intro: exI [of _ "length xs"])
  next
    case False
    with that have "m b = Some i" by simp
    with assms(1) obtain k where "k < length xs" "i = int k" "header_hash L (xs ! k) = Some b"
      unfolding index_ok_def by blast
    then show ?thesis by (auto simp: nth_append intro: exI [of _ k])
  qed
  ultimately show ?thesis by (auto simp: index_ok_def)
qed

lemma chain_pre_stored:
  assumes "chain_pre L h b" "storable L h br hr bh b" "hr \<notin> set (chain_refs b)"
    and "length (chain_refs b) < 2 ^ 32" "hd_Height (h_headers h hr) = of_nat (length (chain_refs b))"
    and "chain_refs b \<noteq> [] \<Longrightarrow>
      header_hash L (h_headers h (last (chain_refs b))) = Some (hd_PreviousBlockHash (h_headers h hr))"
  shows "chain_pre L h (stored L h br hr bh b)"
proof -
  let ?txs = "ms_data (bc_txStore b)" and ?ts = "blk_Transactions (h_blocks h br)"
  from assms(2) have st: "blk_Header (h_blocks h br) = Some hr" "header_hash L (h_headers h hr) = Some bh"
    "hs_idx (bc_headers b) bh = None" by (simp_all add: storable_def)
  have len: "length (chain_refs b @ [hr]) \<le> 2 ^ 32" using assms(4) by simp
  have "linked L (chain_headers h b @ [h_headers h hr])"
    by (rule linked_snoc) (use assms(1,6) in \<open>auto simp: chain_pre_def last_map\<close>)
  moreover have "index_ok L (chain_headers h b @ [h_headers h hr])
      ((hs_idx (bc_headers b))(bh \<mapsto> int (length (chain_headers h b))))"
    by (rule index_ok_snoc) (use assms(1) st in \<open>auto simp: chain_pre_def\<close>)
  moreover have "stored_ok L h ((ms_data (bc_store b))(hr \<mapsto> br)) (?txs ++ tx_entries L h ?ts) hr'"
    if "hr' \<in> set (chain_refs b @ [hr])" for hr'
  proof (cases "hr' = hr")
    case True
    with st(1) tx_entries_defined [of _ ?ts L h] show ?thesis
      by (auto simp: stored_ok_def map_add_None)
  next
    case False
    with that assms(1) have "stored_ok L h (ms_data (bc_store b)) ?txs hr'"
      by (simp add: chain_pre_def)
    with False show ?thesis by (fastforce simp: stored_ok_def)
  qed
  moreover have "keyed_by_hash L h (?txs ++ tx_entries L h ?ts)"
    using assms(1) tx_entries_keyed [of L h ?ts] by (auto simp: chain_pre_def keyed_by_hash_def)
  ultimately show ?thesis
    using assms(1,5) len by (simp add: chain_pre_def stored_def heights_ok_snoc)
qed

text \<open>What a validated block satisfies.\<close>

lemma ValidateBlock_Ok:
  assumes "chain_ok L w" "ValidateBlock L br w = (Ok (), w')"
  obtains hr where "blk_Header (h_blocks (w_heap w) br) = Some hr"
    "hd_Height (h_headers (w_heap w) hr) = of_nat (length (chain_refs (w_bc w)))"
    "length (chain_refs (w_bc w)) < 2 ^ 32"
    "header_hash L (h_headers (w_heap w) (last (chain_refs (w_bc w)))) =
       Some (hd_PreviousBlockHash (h_headers (w_heap w) hr))"
    "Block_Verify L (w_heap w) br = Ok ()" "w' = w"
proof -
  let ?n = "length (chain_refs (w_bc w))" and ?H = "Chain_Height (w_bc w)"
  have ne: "chain_refs (w_bc w) \<noteq> []" using assms(1) by (simp add: chain_ok_def)
  from assms(2) obtain hr where hr: "blk_Header (h_blocks (w_heap w) br) = Some hr"
    by (auto simp: ValidateBlock_def sbind_def sread_def block_header_def split: option.splits)
  let ?x = "h_headers (w_heap w) hr"
  from assms(2) hr have c: "\<not> hd_Height ?x \<le> ?H" "hd_Height ?x = ?H + 1"
    by (auto simp: ValidateBlock_def sbind_def sread_def block_header_def Let_def HasBlockAtHeight_def
        sfail_def split: if_splits result.splits prod.splits)
  note u = Chain_Height_uint [OF assms(1)]
  have m: "uint (?H + 1) = (uint ?H + 1) mod 2 ^ 32"
    by (simp add: uint_word_ariths)
  have "uint ?H + 1 \<noteq> 2 ^ 32"
  proof
    assume "uint ?H + 1 = 2 ^ 32"
    with m have "uint (?H + 1) = 0" by simp
    then have "?H + 1 \<le> ?H" by (simp add: word_le_def)
    with c show False by simp
  qed
  moreover have "uint ?H < 2 ^ 32" using uint_lt2p [of ?H] by simp
  ultimately have "uint (?H + 1) = uint ?H + 1"
    unfolding m by (intro mod_pos_pos_trivial) simp_all
  with u have n: "uint (hd_Height ?x) = int ?n" using c by simp
  have "uint (hd_Height ?x) < 2 ^ 32" using uint_lt2p [of "hd_Height ?x"] by simp
  with n have lt: "?n < 2 ^ 32" by simp
  have "of_int (uint (hd_Height ?x)) = (of_nat ?n :: u32)" unfolding n by simp
  then have h: "hd_Height ?x = of_nat ?n" by simp
  have un: "unat ?H = ?n - 1" using u ne by (cases "chain_refs (w_bc w)") (simp_all add: unat_eq_nat_uint)
  have last: "GetHeader (w_bc w) (hd_Height ?x - 1) = Ok (last (chain_refs (w_bc w)))"
    using c ne un by (simp add: GetHeader_in [OF assms(1)] last_conv_nth)
  show ?thesis
    using assms(2) hr c last h lt
    by (intro that [of hr])
      (auto simp: ValidateBlock_def sbind_def sread_def block_header_def Let_def HasBlockAtHeight_def
        DefaultBlockHasher_header_hash split: if_splits)
qed

text \<open>The last stored header is lower than a validated block's, so its reference is new.\<close>

lemma chain_ref_fresh:
  assumes "chain_pre L h b" "hd_Height (h_headers h hr) = of_nat (length (chain_refs b))"
    "length (chain_refs b) < 2 ^ 32"
  shows "hr \<notin> set (chain_refs b)"
proof
  assume "hr \<in> set (chain_refs b)"
  then obtain k where k: "k < length (chain_refs b)" "hr = chain_refs b ! k" by (metis in_set_conv_nth)
  with assms(1) have "hd_Height (h_headers h hr) = of_nat k"
    by (simp add: chain_pre_def heights_ok_def)
  with assms(2) have "(of_nat k :: u32) = of_nat (length (chain_refs b))" by simp
  then have "unat (of_nat k :: u32) = unat (of_nat (length (chain_refs b)) :: u32)" by simp
  then have "k = length (chain_refs b)" using k(1) assms(3) by (simp only: unat_of_nat) simp
  with k(1) show False by simp
qed

subsection \<open>Insertion\<close>

text \<open>
  The outcomes of an insertion: it is refused, and the chain keeps its headers and stores,
  or the block was valid in the state the insertion started in and is stored.
\<close>

lemma AddBlock_cases:
  assumes "chain_ok L w" "AddBlock L br w = (r, w')"
  obtains (refused) "r \<noteq> Ok ()" "wquiet L w w'"
    | (added) hr bh cs where "r = Ok ()" "storable L (w_heap w) br hr bh (w_bc w)"
      "hd_Height (h_headers (w_heap w) hr) = of_nat (length (chain_refs (w_bc w)))"
      "length (chain_refs (w_bc w)) < 2 ^ 32"
      "header_hash L (h_headers (w_heap w) (last (chain_refs (w_bc w)))) =
         Some (hd_PreviousBlockHash (h_headers (w_heap w) hr))"
      "Block_Verify L (w_heap w) br = Ok ()"
      "quiet L (w_heap w) (w_heap w')"
      "w_bc w' = stored L (w_heap w) br hr bh ((w_bc w)\<lparr>bc_cstate := cs\<rparr>)"
proof -
  obtain r1 w1 where v: "ValidateBlock L br w = (r1, w1)" by fastforce
  have q1: "wquiet L w w1" by (rule keepsD [OF ValidateBlock_wquiet wquiet_refl v])
  let ?txns = "blk_Transactions (h_blocks (w_heap w1) br)"
  obtain r2 w2 where x: "sfor ?txns (run_tx L) w1 = (r2, w2)" by fastforce
  have q2: "wquiet L w w2" by (rule keepsD [OF run_txs_wquiet q1 x])
  show ?thesis
  proof (cases "r1 = Ok () \<and> r2 = Ok ()")
    case False
    then have "r \<noteq> Ok () \<and> (w' = w1 \<or> w' = w2)"
      using assms(2) v x
      by (cases r1; cases r2) (auto simp: AddBlock_def sbind_def sget_def)
    with q1 q2 refused show ?thesis by blast
  next
    case True
    then have p: "persistBlock L br w2 = (r, w')"
      using assms(2) v x by (simp add: AddBlock_def sbind_def sget_def)
    obtain hr where hr: "blk_Header (h_blocks (w_heap w) br) = Some hr"
      "hd_Height (h_headers (w_heap w) hr) = of_nat (length (chain_refs (w_bc w)))"
      "length (chain_refs (w_bc w)) < 2 ^ 32"
      "header_hash L (h_headers (w_heap w) (last (chain_refs (w_bc w)))) =
         Some (hd_PreviousBlockHash (h_headers (w_heap w) hr))"
      "Block_Verify L (w_heap w) br = Ok ()"
      using ValidateBlock_Ok [OF assms(1)] v True by metis
    from q2 obtain cs where q: "quiet L (w_heap w) (w_heap w2)" "w_bc w2 = (w_bc w)\<lparr>bc_cstate := cs\<rparr>"
      by (auto simp: wquiet_def)
    have h2: "heap_ok L (w_heap w2)" using quiet_heap_ok [OF q(1)] assms(1) by (simp add: chain_ok_def)
    from h2 p show ?thesis
    proof (cases rule: persistBlock_cases)
      case fails
      with q have "wquiet L w w'" by (auto simp: wquiet_def intro: quiet_trans)
      with fails refused show ?thesis by blast
    next
      case (stores hr' bh)
      from stores(2) hr(1) q have "hr' = hr" "storable L (w_heap w) br hr bh (w_bc w)"
        by (simp_all add: storable_def quiet_block)
      moreover have "w_bc w' = stored L (w_heap w) br hr bh ((w_bc w)\<lparr>bc_cstate := cs\<rparr>)"
        using stores(4) q \<open>hr' = hr\<close> by (simp add: stored_def quiet_block tx_entries_quiet)
      ultimately show ?thesis
        using stores hr q added quiet_trans by blast
    qed
  qed
qed

lemma AddBlock_chain_ok:
  assumes "chain_ok L w" "AddBlock L br w = (r, w')"
  shows "chain_ok L w'"
  using assms
proof (cases rule: AddBlock_cases)
  case refused
  with assms(1) wquiet_chain_ok show ?thesis by blast
next
  case (added hr bh cs)
  let ?b = "(w_bc w)\<lparr>bc_cstate := cs\<rparr>"
  from assms(1) have pre: "chain_pre L (w_heap w) ?b"
    using chain_pre_quiet [OF quiet_refl] by (simp add: chain_ok_def)
  have "hr \<notin> set (chain_refs ?b)"
    using chain_ref_fresh [OF pre] added by simp
  with added have "chain_pre L (w_heap w) (w_bc w')"
    using chain_pre_stored [OF pre, of br hr bh] by (simp add: storable_def)
  from chain_pre_quiet [OF added(7) this, of "bc_cstate (w_bc w')"]
  have "chain_pre L (w_heap w') (w_bc w')" by simp
  moreover have "chain_refs (w_bc w') \<noteq> []" unfolding added(8) stored_def by simp
  moreover have "heap_ok L (w_heap w')" using quiet_heap_ok [OF added(7)] assms(1) by (simp add: chain_ok_def)
  ultimately show ?thesis by (simp add: chain_ok_def)
qed

subsection \<open>Acceptance\<close>

text \<open>The conditions of the validator, and that a block that meets them passes it.\<close>

definition next_block :: "lib \<Rightarrow> world \<Rightarrow> ref \<Rightarrow> header \<Rightarrow> bool" where
  "next_block L w br x \<longleftrightarrow> block_header (w_heap w) br = Ok x \<and>
     uint (hd_Height x) = uint (Chain_Height (w_bc w)) + 1 \<and>
     bind_result (GetHeader (w_bc w) (Chain_Height (w_bc w)))
       (\<lambda>prev. DefaultBlockHasher_Hash L (h_headers (w_heap w) prev)) = Ok (hd_PreviousBlockHash x) \<and>
     Block_Verify L (w_heap w) br = Ok ()"

lemma height_succ:
  fixes H :: u32
  assumes "uint h = uint H + 1"
  shows "\<not> h \<le> H \<and> h = H + 1 \<and> h - 1 = H"
proof -
  have "uint h < 2 ^ 32" using uint_lt2p [of h] by simp
  with assms have "uint (H + 1) = uint h" by (simp add: uint_word_ariths)
  then have "h = H + 1" using word_uint_eqI by metis
  with assms show ?thesis by (simp add: word_le_def)
qed

lemma ValidateBlock_accepts:
  assumes "next_block L w br x"
  shows "ValidateBlock L br w = (Ok (), w)"
proof -
  from assms obtain prev where p: "GetHeader (w_bc w) (Chain_Height (w_bc w)) = Ok prev"
    "DefaultBlockHasher_Hash L (h_headers (w_heap w) prev) = Ok (hd_PreviousBlockHash x)"
    by (auto simp: next_block_def)
  have h: "\<not> hd_Height x \<le> Chain_Height (w_bc w)" "hd_Height x = Chain_Height (w_bc w) + 1"
    "hd_Height x - 1 = Chain_Height (w_bc w)"
    using height_succ [of "hd_Height x" "Chain_Height (w_bc w)"] assms by (auto simp: next_block_def)
  show ?thesis
    using assms p h(1,3)
    by (simp add: ValidateBlock_def sbind_def sread_def next_block_def HasBlockAtHeight_def Let_def
        flip: h(2))
qed

lemma AddBlock_persists:
  assumes "ValidateBlock L br w = (Ok (), w)"
    and "sfor (blk_Transactions (h_blocks (w_heap w) br)) (run_tx L) w = (Ok (), w1)"
  shows "AddBlock L br w = persistBlock L br w1"
  using assms by (simp add: AddBlock_def sbind_def sget_def)

lemma AddBlock_stores:
  assumes "heap_ok L (w_heap w)" "next_block L w br x"
    and "sfor (blk_Transactions (h_blocks (w_heap w) br)) (run_tx L) w = (Ok (), w1)"
    and "header_hash L x = Some bh" "hs_idx (bc_headers (w_bc w)) bh = None"
  shows "\<exists>w'. AddBlock L br w = (Ok (), w')"
proof -
  from assms(2) obtain hr where hr: "blk_Header (h_blocks (w_heap w) br) = Some hr" "x = h_headers (w_heap w) hr"
    by (auto simp: next_block_def block_header_def split: option.splits)
  have q: "wquiet L w w1" by (rule keepsD [OF run_txs_wquiet wquiet_refl assms(3)])
  then have "heap_ok L (w_heap w1)" using assms(1) by (auto simp: wquiet_def quiet_heap_ok)
  moreover have "storable L (w_heap w1) br hr bh (w_bc w1)"
    using q assms(4,5) hr by (auto simp: storable_def wquiet_def quiet_block)
  ultimately show ?thesis
    using persistBlock_stores AddBlock_persists [OF ValidateBlock_accepts [OF assms(2)] assms(3)] by metis
qed

text \<open>A run over the transactions that stops at the first one that fails.\<close>

lemma AddBlock_stops:
  assumes "ValidateBlock L br w = (Ok (), w)"
    and "blk_Transactions (h_blocks (w_heap w) br) = done @ tr # rest"
    and "sfor done (run_tx L) w = (Ok (), w1)" and "run_tx L tr w1 = (r, w2)" and "r \<noteq> Ok ()"
  shows "AddBlock L br w = (r, w2)"
  using assms by (cases r) (simp_all add: AddBlock_def sbind_def sget_def sfor_append)

text \<open>A transaction on the list machine of \<open>Vm_Machine\<close>.\<close>

lemma run_tx_runs:
  assumes "tx_Data (h_txs (w_heap w) tr) \<noteq> []"
    and "lm_run None (tx_Data (h_txs (w_heap w) tr)) (fresh (bc_cstate (w_bc w))) = (Ok (), l)"
  shows "run_tx L tr w = (Ok (), w\<lparr>w_bc := (w_bc w)\<lparr>bc_cstate := lm_cstate l\<rparr>\<rparr>)"
proof -
  obtain m where m: "NewVM (tx_Data (h_txs (w_heap w) tr)) [ContractStateOpt (bc_cstate (w_bc w))] = Ok m"
    using NewVM_Ok by blast
  from fresh_runD [OF m assms] show ?thesis
    by (auto simp: run_tx_def m Let_def Stack_Peek_valid split: list.split)
qed

text \<open>
  When the machine fails, the error asks the transaction for its hash, which panics
  without a hasher; the writes of the failed run stay in both cases.
\<close>

lemma run_tx_fails:
  assumes "tx_Data (h_txs (w_heap w) tr) \<noteq> []"
    and "lm_run None (tx_Data (h_txs (w_heap w) tr)) (fresh (bc_cstate (w_bc w))) = (Err e, l)"
  shows "\<exists>r w'. run_tx L tr w = (r, w') \<and> bc_cstate (w_bc w') = lm_cstate l \<and> r \<noteq> Ok () \<and>
    (tx_hasher (h_txs (w_heap w) tr) = None \<and> Hash_IsZero (tx_hash (h_txs (w_heap w) tr)) \<longrightarrow> r = Panic NilDereference) \<and>
    (tx_hasher (h_txs (w_heap w) tr) \<noteq> None \<longrightarrow> (\<exists>h. r = Err (AddBlockVm h e)))"
proof -
  obtain m where m: "NewVM (tx_Data (h_txs (w_heap w) tr)) [ContractStateOpt (bc_cstate (w_bc w))] = Ok m"
    using NewVM_Ok by blast
  from fresh_runD [OF m assms] obtain m' where m': "vm_run m = (Err e, m')" "vm_cstate m' = lm_cstate l"
    by blast
  then show ?thesis
    by (auto simp: run_tx_def m sbind_def szoom_def on_tx_def Tx_Hash_def sfail_def Let_def
        split: option.split tx_hasher.split)
qed

subsection \<open>The start of a chain\<close>

lemma NewBlockchain_result:
  assumes "heap_ok L h" "blk_Header (h_blocks h g) = Some hr" "header_hash L (h_headers h hr) = Some bh"
  shows "\<exists>h'. quiet L h h' \<and>
    NewBlockchain L g h = (Ok (), \<lparr>w_heap = h', w_bc = stored L h g hr bh empty_chain\<rparr>)"
proof -
  let ?w = "\<lparr>w_heap = h, w_bc = empty_chain\<rparr>"
  have "storable L (w_heap ?w) g hr bh (w_bc ?w)"
    using assms by (simp add: storable_def empty_chain_def newheaderStore_def)
  from persistBlock_stores [OF _ this] assms(1) show ?thesis
    by (auto simp: NewBlockchain_def addGensisBlock_def hs_empty_def empty_chain_def newheaderStore_def)
qed

lemma empty_chain_pre: "chain_pre L h empty_chain"
  by (simp add: chain_pre_def empty_chain_def newheaderStore_def NewGenericMemStore_def heights_ok_def
      linked_def index_ok_def keyed_by_hash_def)

lemma NewBlockchain_chain_ok:
  assumes "heap_ok L h" "blk_Header (h_blocks h g) = Some hr" "header_hash L (h_headers h hr) = Some bh"
    and "hd_Height (h_headers h hr) = 0"
  shows "\<exists>w. NewBlockchain L g h = (Ok (), w) \<and> chain_ok L w \<and> quiet L h (w_heap w) \<and>
    w_bc w = stored L h g hr bh empty_chain"
proof -
  obtain h' where h': "quiet L h h'"
    "NewBlockchain L g h = (Ok (), \<lparr>w_heap = h', w_bc = stored L h g hr bh empty_chain\<rparr>)"
    using NewBlockchain_result [OF assms(1-3)] by blast
  have "storable L h g hr bh empty_chain"
    using assms by (simp add: storable_def empty_chain_def newheaderStore_def)
  then have "chain_pre L h (stored L h g hr bh empty_chain)"
    using assms(4) by (intro chain_pre_stored [OF empty_chain_pre])
      (simp_all add: empty_chain_def newheaderStore_def)
  from chain_pre_quiet [OF h'(1) this, of "bc_cstate (stored L h g hr bh empty_chain)"]
  have "chain_pre L h' (stored L h g hr bh empty_chain)" by simp
  then show ?thesis
    using h' quiet_heap_ok [OF h'(1) assms(1)] by (auto simp: chain_ok_def stored_def)
qed

end
