(* ===== verification/Core_Chain_Example.thy ===== *)
theory Core_Chain_Example
  imports Core_Chain_Inv
begin

section \<open>A chain to evaluate the properties on\<close>

text \<open>
  A memory with a genesis block (0) and three blocks that could follow it, each with one
  transaction, signed with the key 5 of the demonstration library: block 1 stores 3 under
  the key 7; the transactions of blocks 2 and 3 do the same and then fail. The transactions
  of blocks 1 and 3 have no hasher, as those received from the network.
\<close>

definition store_code :: bytes where
  "store_code = [7, InstructionPushBytes, 1, InstructionPushInt, InstructionPack,
     3, InstructionPushInt, InstructionStore]"

definition example_tx :: "nat \<Rightarrow> transaction" where
  "example_tx r = (let code = (if r = 1 then store_code else store_code @ [InstructionAddInt])
     in \<lparr>tx_Data = code, tx_From = [5], tx_Signature = Some (5 # code), tx_hash = zero_hash,
         tx_createdAt = 0, tx_hasher = (if r = 2 then Some DefaultTxHasher else None)\<rparr>)"

definition genesis_header :: header where
  "genesis_header = \<lparr>hd_Version = 1, hd_DataHash = zero_hash, hd_PreviousBlockHash = zero_hash,
     hd_Timestamp = 0, hd_Height = 0\<rparr>"

definition genesis_hash :: hash where
  "genesis_hash = sha256 demo_lib (the (gob_header demo_lib genesis_header))"

definition example_header :: "nat \<Rightarrow> header" where
  "example_header r = (if r = 0 then genesis_header else
     \<lparr>hd_Version = 1, hd_DataHash = sha256 demo_lib (the (gob_tx demo_lib (tx_wire (example_tx r)))),
      hd_PreviousBlockHash = genesis_hash, hd_Timestamp = of_nat r, hd_Height = 1\<rparr>)"

definition example_block :: "nat \<Rightarrow> block" where
  "example_block r = (if r = 0 then NewBlock 0 [] else
     \<lparr>blk_Header = Some r, blk_Transactions = [r], blk_Validator = [5],
      blk_Signature = Some (5 # replicate 32 7), blk_hash = zero_hash\<rparr>)"

definition example_heap :: heap where
  "example_heap = \<lparr>h_txs = example_tx, h_headers = example_header, h_blocks = example_block, h_next = 4\<rparr>"

lemma example_heap_ok: "heap_ok demo_lib example_heap"
  by (simp add: heap_ok_def tx_cache_ok_def block_cache_ok_def example_heap_def example_tx_def
      example_block_def NewBlock_def Let_def)

lemma example_tx_verifies: "Tx_Verify demo_lib (example_tx r) = Ok ()"
  by (simp add: Tx_Verify_def example_tx_def Let_def Signature_Verify_def demo_lib_def store_code_def)

lemma gob_demo: "gob_header demo_lib x \<noteq> None" "gob_tx demo_lib t \<noteq> None"
  using demo_lib_contracts(5) unfolding gob_total_def by blast+

lemma gob_demo_type: "\<exists>a. gob_header demo_lib x = Some (replicate 32 7 @ a)"
  by (simp add: demo_lib_def)

lemma example_block_verifies:
  assumes "r \<noteq> 0"
  shows "Block_Verify demo_lib example_heap r = Ok ()"
proof -
  obtain a where a: "gob_header demo_lib (example_header r) = Some (replicate 32 7 @ a)"
    using gob_demo_type by blast
  obtain b where b: "gob_tx demo_lib (tx_wire (example_tx r)) = Some b"
    using gob_demo(2) by blast
  have "Signature_Verify demo_lib (5 # replicate 32 7) [5] (replicate 32 7 @ a)"
    by (simp add: Signature_Verify_def demo_lib_def)
  moreover have "hd_DataHash (example_header r) = sha256 demo_lib b"
    using assms by (simp add: example_header_def b)
  ultimately show ?thesis
    using assms a b example_tx_verifies
    by (simp add: Block_Verify_Ok_iff [OF demo_lib_contracts(5)] example_heap_def example_block_def
        calculateDataHash_def the_txs_def)
qed

text \<open>The chain that starts with the genesis block, and the three blocks as candidates.\<close>

lemma genesis_header_hash: "header_hash demo_lib genesis_header = Some genesis_hash"
  using gob_demo(1) [of genesis_header] by (auto simp: header_hash_def genesis_hash_def)

lemma example_hash_differs:
  "r \<noteq> 0 \<Longrightarrow> header_hash demo_lib (example_header r) \<noteq> Some genesis_hash"
  by (simp add: header_hash_def genesis_hash_def demo_lib_def example_header_def genesis_header_def)

lemma example_chain:
  obtains w where "NewBlockchain demo_lib 0 example_heap = (Ok (), w)" "chain_ok demo_lib w"
    "chain_refs (w_bc w) = [0]" "bc_cstate (w_bc w) = NewState"
    "\<And>r. r \<noteq> 0 \<Longrightarrow> next_block demo_lib w r (example_header r)"
    "\<And>r. r \<noteq> 0 \<Longrightarrow> blk_Transactions (h_blocks (w_heap w) r) = [r]"
    "\<And>r. h_txs (w_heap w) r = example_tx r"
    "\<And>bh. hs_idx (bc_headers (w_bc w)) bh = (if bh = genesis_hash then Some 0 else None)"
proof -
  have g: "blk_Header (h_blocks example_heap 0) = Some 0" "h_headers example_heap 0 = genesis_header"
    "blk_Transactions (h_blocks example_heap 0) = []"
    by (simp_all add: example_heap_def example_block_def example_header_def NewBlock_def)
  let ?h = "example_heap\<lparr>h_blocks := (h_blocks example_heap)(0 := (h_blocks example_heap 0)\<lparr>blk_hash := genesis_hash\<rparr>)\<rparr>"
  let ?w = "\<lparr>w_heap = ?h, w_bc = stored demo_lib example_heap 0 0 genesis_hash empty_chain\<rparr>"
  have bh: "Block_Hash demo_lib 0 example_heap = (Ok genesis_hash, ?h)"
    using Block_Hash_defined [OF g(1)] genesis_header_hash g(2) example_heap_ok
    by (simp add: heap_ok_def)
  have run: "NewBlockchain demo_lib 0 example_heap = (Ok (), ?w)"
    using g by (simp add: NewBlockchain_def addGensisBlock_def hs_empty_def persistBlock_def sbind_def szoom_def
        bh sread_def hs_put_def empty_chain_def newheaderStore_def NewGenericMemStore_def Let_def
        MemStore_Put_apply stored_def tx_entries_def sret_def)
  have st: "hs_idx (bc_headers (w_bc ?w)) bh = (if bh = genesis_hash then Some 0 else None)"
    "bc_cstate (w_bc ?w) = NewState" "chain_refs (w_bc ?w) = [0]" for bh
    by (simp_all add: stored_def empty_chain_def newheaderStore_def)
  have w: "chain_ok demo_lib ?w" "quiet demo_lib example_heap ?h"
  proof -
    have "header_hash demo_lib (h_headers example_heap 0) = Some genesis_hash"
      "hd_Height (h_headers example_heap 0) = 0"
      unfolding g(2) by (rule genesis_header_hash) (simp add: genesis_header_def)
    from NewBlockchain_chain_ok [OF example_heap_ok g(1) this] obtain w where w:
      "NewBlockchain demo_lib 0 example_heap = (Ok (), w)" "chain_ok demo_lib w"
      "quiet demo_lib example_heap (w_heap w)" by blast
    have "w = ?w" by (rule Pair_inject [OF trans [OF sym [OF w(1)] run]])
    then have "?w = w" by (rule sym)
    then show "chain_ok demo_lib ?w" using w(2) by (rule ssubst)
    have "w_heap w = ?h" unfolding \<open>w = ?w\<close> by (rule world.select_convs(1))
    then show "quiet demo_lib example_heap ?h" using w(3) by (rule subst)
  qed
  have nb: "next_block demo_lib ?w r (example_header r)" if "r \<noteq> 0" for r
  proof -
    have "block_header ?h r = block_header example_heap r" by simp
    then have b: "block_header ?h r = Ok (example_header r)"
      using that by (simp add: block_header_def example_heap_def example_block_def)
    have v: "Block_Verify demo_lib ?h r = Ok ()"
      unfolding quiet_verify [OF w(2)] by (rule example_block_verifies [OF that])
    have "uint (Chain_Height (w_bc ?w)) = uint (0 :: u32)"
      unfolding Chain_Height_uint [OF w(1)] st(3) by simp
    then have H: "Chain_Height (w_bc ?w) = 0" by (rule word_uint_eqI)
    have G: "GetHeader (w_bc ?w) 0 = Ok 0"
      unfolding GetHeader_in [OF w(1)] st(3) by simp
    have x: "uint (hd_Height (example_header r)) = 1" "hd_PreviousBlockHash (example_header r) = genesis_hash"
      using that by (simp_all add: example_header_def)
    have d: "DefaultBlockHasher_Hash demo_lib (h_headers (w_heap ?w) 0) = Ok genesis_hash"
      using g(2) genesis_header_hash by (simp add: DefaultBlockHasher_header_hash)
    show ?thesis
      unfolding next_block_def H G x bind_result.simps d using b v by simp
  qed
  show ?thesis
    by (rule that [OF run w(1) st(3,2) nb _ _ st(1)])
       (simp_all add: example_heap_def example_block_def)
qed

text \<open>The runs of the two programs.\<close>

definition stored_three :: "cstate \<Rightarrow> cstate" where
  "stored_three cs = cs\<lparr>cs_data := (cs_data cs)([7] \<mapsto> VInt 3)\<rparr>"

lemma lm_exec_Pack_one:
  assumes "lm_stack l = [VInt 1, VByte b]"
  shows "lm_exec prev InstructionPack l = (Ok (), l\<lparr>lm_stack := [VBytes [b]]\<rparr>)"
  using lm_exec_Pack [of l 1 "[b]" "[]" prev] assms by (simp add: stack_depth_def max_alloc_def)

lemma store_code_run:
  "lm_run None store_code (fresh cs) = (Ok (), fresh (stored_three cs))"
proof -
  have "\<not> is_opcode 7" "\<not> is_opcode 1" "\<not> is_opcode 3" by (simp_all add: is_opcode_def opcodes)
  then show ?thesis
    by (simp add: store_code_def fresh_def stored_three_def stack_depth_def go_simps lm_exec_none
        lm_exec_PushBytes lm_exec_PushInt lm_exec_Pack_one lm_exec_Store)
qed

lemma failing_code_run:
  "lm_run None (store_code @ [InstructionAddInt]) (fresh cs) =
     (Err (VmRun StackEmpty), fresh (stored_three cs))"
  using store_code_run [of cs]
  by (simp add: lm_run_append sbind_Ok) (simp add: fresh_def lm_exec_def go_simps lm_pop_Nil)

end
