(* ===== verification/Core_Chain_Props.thy ===== *)
theory Core_Chain_Props
  imports Core_Chain_Example
begin

section \<open>What the chain guarantees\<close>

text \<open>
  The properties of \<^verbatim>\<open>core/blockchain.go\<close> and \<^verbatim>\<open>core/validator.go\<close>: how a chain starts,
  what an insertion does on each outcome, what the lookups return, that a chain only
  grows, and that two chains with a common block have a common past.
\<close>

subsection \<open>Lookups\<close>

lemma chain_stored_ok:
  assumes "chain_ok L w" "hr \<in> set (chain_refs (w_bc w))"
  shows "stored_ok L (w_heap w) (ms_data (bc_store (w_bc w))) (ms_data (bc_txStore (w_bc w))) hr"
  using assms by (simp add: chain_ok_def chain_pre_def)

lemma le_height_iff:
  assumes "chain_ok L w"
  shows "i \<le> Chain_Height (w_bc w) \<longleftrightarrow> unat i < length (chain_refs (w_bc w))"
proof -
  have "uint i = int (unat i)" by simp
  then show ?thesis
    unfolding word_le_def Chain_Height_uint [OF assms] by linarith
qed

lemma GetBlockAt_in:
  assumes "chain_ok L w" "unat i < length (chain_refs (w_bc w))"
  obtains br where "GetBlockAt (w_bc w) i = Ok br"
    "ms_data (bc_store (w_bc w)) (chain_refs (w_bc w) ! unat i) = Some br"
    "blk_Header (h_blocks (w_heap w) br) = Some (chain_refs (w_bc w) ! unat i)"
proof -
  from chain_stored_ok [OF assms(1), of "chain_refs (w_bc w) ! unat i"] assms(2)
  obtain br where "ms_data (bc_store (w_bc w)) (chain_refs (w_bc w) ! unat i) = Some br"
    "blk_Header (h_blocks (w_heap w) br) = Some (chain_refs (w_bc w) ! unat i)"
    by (auto simp: stored_ok_def)
  with assms show ?thesis
    by (intro that [of br]) (simp_all add: GetBlockAt_def GetHeader_in [OF assms(1)])
qed

lemma GetBlockHash_in:
  assumes "chain_ok L w" "k < length (chain_refs (w_bc w))"
    and "header_hash L (h_headers (w_heap w) (chain_refs (w_bc w) ! k)) = Some bh"
    and "ms_data (bc_store (w_bc w)) (chain_refs (w_bc w) ! k) = Some br"
  shows "GetBlockHash (w_bc w) bh = Ok br"
proof -
  have "hs_idx (bc_headers (w_bc w)) bh = Some (int k)"
    using assms(1,2,3) by (auto simp: chain_ok_def chain_pre_def index_ok_def)
  with assms(2,4) show ?thesis
    by (simp add: GetBlockHash_def hs_getHash_def)
qed

lemma demo_heap_ok: "heap_ok demo_lib demo_heap"
  by (simp add: heap_ok_def tx_cache_ok_def block_cache_ok_def demo_heap_def NewTransaction_def NewBlock_def)

lemma demo_header_hash: "\<exists>bh. header_hash demo_lib (h_headers demo_heap 0) = Some bh"
  by (simp add: header_hash_def demo_lib_def)

lemma demo_chain:
  "\<exists>w bh. NewBlockchain demo_lib 0 demo_heap = (Ok (), w) \<and> chain_ok demo_lib w \<and>
     quiet demo_lib demo_heap (w_heap w) \<and> w_bc w = stored demo_lib demo_heap 0 0 bh empty_chain \<and>
     header_hash demo_lib (h_headers demo_heap 0) = Some bh"
proof -
  obtain bh where bh: "header_hash demo_lib (h_headers demo_heap 0) = Some bh"
    using demo_header_hash by blast
  have "blk_Header (h_blocks demo_heap 0) = Some 0" "hd_Height (h_headers demo_heap 0) = 0"
    by (simp_all add: demo_heap_def NewBlock_def)
  from NewBlockchain_chain_ok [OF demo_heap_ok this(1) bh this(2)] bh show ?thesis by blast
qed

text \<open>Block 1 of the example is accepted.\<close>

lemma example_run_ok:
  assumes "h_txs (w_heap w) 1 = example_tx 1"
  shows "sfor [1] (run_tx L) w = (Ok (), w\<lparr>w_bc := (w_bc w)\<lparr>bc_cstate := stored_three (bc_cstate (w_bc w))\<rparr>\<rparr>)"
proof -
  have d: "tx_Data (h_txs (w_heap w) 1) = store_code"
    unfolding assms by (simp add: example_tx_def Let_def)
  have "run_tx L 1 w = (Ok (), w\<lparr>w_bc := (w_bc w)\<lparr>bc_cstate := lm_cstate (fresh (stored_three (bc_cstate (w_bc w))))\<rparr>\<rparr>)"
    by (rule run_tx_runs) (simp_all only: d store_code_run, simp add: store_code_def)
  then show ?thesis by (simp add: go_simps fresh_def del: One_nat_def)
qed

lemma example_accepted:
  assumes "chain_ok demo_lib w" "next_block demo_lib w 1 (example_header 1)"
    and "blk_Transactions (h_blocks (w_heap w) 1) = [1]" "h_txs (w_heap w) 1 = example_tx 1"
    and "\<And>bh. hs_idx (bc_headers (w_bc w)) bh = (if bh = genesis_hash then Some 0 else None)"
  obtains w' where "AddBlock demo_lib 1 w = (Ok (), w')"
proof -
  obtain bh where bh: "header_hash demo_lib (example_header 1) = Some bh"
    using gob_demo(1) [of "example_header 1"] by (auto simp: header_hash_def)
  with example_hash_differs [of 1] have "bh \<noteq> genesis_hash" by auto
  then have "hs_idx (bc_headers (w_bc w)) bh = None" by (simp add: assms(5))
  with AddBlock_stores [OF _ assms(2) _ bh] example_run_ok [OF assms(4)] assms(1,3) that show thesis
    by (metis chain_ok_def)
qed

subsection \<open>Steps of a node on its chain\<close>

text \<open>
  A step is an insertion of any block with any outcome, or any change of the memory by the
  rest of the node that leaves what the chain stores alone: the node builds new
  transactions, headers and blocks, and does not write to stored ones. A run is a sequence
  of steps.
\<close>

definition keeps_stored :: "world \<Rightarrow> heap \<Rightarrow> bool" where
  "keeps_stored w h' \<longleftrightarrow>
     (\<forall>hr \<in> set (chain_refs (w_bc w)). h_headers h' hr = h_headers (w_heap w) hr \<and>
        (\<forall>br. ms_data (bc_store (w_bc w)) hr = Some br \<longrightarrow>
           blk_Header (h_blocks h' br) = blk_Header (h_blocks (w_heap w) br) \<and>
           blk_Transactions (h_blocks h' br) = blk_Transactions (h_blocks (w_heap w) br) \<and>
           (\<forall>r \<in> set (blk_Transactions (h_blocks (w_heap w) br)).
              tx_Data (h_txs h' r) = tx_Data (h_txs (w_heap w) r)))) \<and>
     (\<forall>x r. ms_data (bc_txStore (w_bc w)) x = Some r \<longrightarrow> tx_Data (h_txs h' r) = tx_Data (h_txs (w_heap w) r))"

inductive chain_step :: "lib \<Rightarrow> world \<Rightarrow> world \<Rightarrow> bool" for L where
  insert_block: "AddBlock L br w = (r, w') \<Longrightarrow> chain_step L w w'"
| memory: "heap_ok L h' \<Longrightarrow> keeps_stored w h' \<Longrightarrow> chain_step L w (w\<lparr>w_heap := h'\<rparr>)"

inductive_cases chain_stepE: "chain_step L w w'"

lemma keeps_stored_headers:
  "keeps_stored w h' \<Longrightarrow> chain_headers h' (w_bc w) = chain_headers (w_heap w) (w_bc w)"
  by (simp add: keeps_stored_def)

lemma memory_chain_ok:
  assumes "chain_ok L w" "heap_ok L h'" "keeps_stored w h'"
  shows "chain_ok L (w\<lparr>w_heap := h'\<rparr>)"
proof -
  have "stored_ok L h' (ms_data (bc_store (w_bc w))) (ms_data (bc_txStore (w_bc w))) hr"
    if "hr \<in> set (chain_refs (w_bc w))" for hr
    using chain_stored_ok [OF assms(1) that] assms(3) that
    by (fastforce simp: stored_ok_def keeps_stored_def)
  moreover have "keyed_by_hash L h' (ms_data (bc_txStore (w_bc w)))"
    using assms(1,3) by (simp add: chain_ok_def chain_pre_def keyed_by_hash_def keeps_stored_def)
  ultimately show ?thesis
    using assms by (simp add: chain_ok_def chain_pre_def keeps_stored_headers)
qed

text \<open>What every step keeps: the past of the chain.\<close>

definition extends :: "world \<Rightarrow> world \<Rightarrow> bool" where
  "extends w w' \<longleftrightarrow> (\<exists>new. chain_refs (w_bc w') = chain_refs (w_bc w) @ new) \<and>
     (\<forall>hr \<in> set (chain_refs (w_bc w)). h_headers (w_heap w') hr = h_headers (w_heap w) hr \<and>
        ms_data (bc_store (w_bc w')) hr = ms_data (bc_store (w_bc w)) hr)"

lemma extends_refl: "extends w w"
  by (simp add: extends_def)

lemma extends_trans: "extends w w1 \<Longrightarrow> extends w1 w2 \<Longrightarrow> extends w w2"
  by (fastforce simp: extends_def)

lemma AddBlock_extends:
  assumes "chain_ok L w" "AddBlock L br w = (r, w')"
  shows "extends w w'"
  using assms
proof (cases rule: AddBlock_cases)
  case refused
  then show ?thesis by (auto simp: extends_def wquiet_def quiet_block)
next
  case (added hr bh cs)
  have "hr \<notin> set (chain_refs (w_bc w))"
    using chain_ref_fresh [of L "w_heap w" "w_bc w" hr] assms(1) added by (simp add: chain_ok_def)
  then show ?thesis
    using added(7) by (auto simp: extends_def added(8) stored_def quiet_block)
qed

lemma chain_step_extends:
  assumes "chain_step L w w'" "chain_ok L w"
  shows "chain_ok L w' \<and> extends w w'"
proof (rule chain_stepE [OF assms(1)])
  fix br r
  assume "AddBlock L br w = (r, w')"
  then show ?thesis using AddBlock_chain_ok AddBlock_extends assms(2) by blast
next
  fix h'
  assume "w' = w\<lparr>w_heap := h'\<rparr>" "heap_ok L h'" "keeps_stored w h'"
  then show ?thesis
    using memory_chain_ok [OF assms(2)] by (auto simp: extends_def keeps_stored_def)
qed

lemma chain_run_extends:
  "(chain_step L)\<^sup>*\<^sup>* w w' \<Longrightarrow> chain_ok L w \<Longrightarrow> chain_ok L w' \<and> extends w w'"
proof (induction rule: rtranclp_induct)
  case base
  then show ?case by (simp add: extends_refl)
next
  case (step w1 w2)
  then show ?case using chain_step_extends extends_trans by blast
qed

lemma extends_GetBlockAt:
  assumes "extends w w'" "chain_ok L w" "chain_ok L w'" "i \<le> Chain_Height (w_bc w)"
  shows "GetBlockAt (w_bc w') i = GetBlockAt (w_bc w) i \<and> GetHeader (w_bc w') i = GetHeader (w_bc w) i"
proof -
  have i: "unat i < length (chain_refs (w_bc w))" using assms(4) by (simp add: le_height_iff [OF assms(2)])
  obtain new where n: "chain_refs (w_bc w') = chain_refs (w_bc w) @ new"
    using assms(1) by (auto simp: extends_def)
  have "ms_data (bc_store (w_bc w')) (chain_refs (w_bc w) ! unat i) =
      ms_data (bc_store (w_bc w)) (chain_refs (w_bc w) ! unat i)"
    using assms(1) i by (simp add: extends_def)
  with i n show ?thesis
    by (simp add: GetBlockAt_def GetHeader_in [OF assms(2)] GetHeader_in [OF assms(3)] nth_append
        MemStore_Get_def)
qed

text \<open>Two linked lists of headers that agree at a position agree below it.\<close>

lemma linked_agree:
  assumes "linked L xs" "linked L ys" "inj_on (header_hash L) (set xs \<union> set ys)"
    and "n < length xs" "n < length ys" "xs ! n = ys ! n" "k \<le> n"
  shows "xs ! k = ys ! k"
  using assms(7,4-6)
proof (induction n rule: dec_induct)
  case base
  then show ?case by blast
next
  case (step n)
  have "header_hash L (xs ! n) = header_hash L (ys ! n)"
    using assms(1,2) step.prems by (simp add: linked_def)
  then have "xs ! n = ys ! n"
    using assms(3) step.prems by (auto dest: inj_onD)
  with step show ?case by simp
qed

subsection \<open>Properties\<close>

text \<open>
  A new chain holds the genesis block at height 0, retrievable by height and by its
  hash, and is well formed. The genesis block has to have a header of height 0.
\<close>

lemma NewBlockchain_starts_chain:
  assumes "heap_ok L h" and "block_header h g = Ok x" and "hd_Height x = 0"
    and "header_hash L x = Some bh"
  shows "\<exists>w. NewBlockchain L g h = (Ok (), w) \<and> chain_ok L w \<and> Chain_Height (w_bc w) = 0 \<and>
    GetBlockAt (w_bc w) 0 = Ok g \<and> GetBlockHash (w_bc w) bh = Ok g"
proof -
  from assms(2) obtain hr where hr: "blk_Header (h_blocks h g) = Some hr" "x = h_headers h hr"
    by (auto simp: block_header_def split: option.splits)
  from NewBlockchain_chain_ok [OF assms(1) hr(1)] assms(3,4) hr(2)
  obtain w where w: "NewBlockchain L g h = (Ok (), w)" "chain_ok L w" "quiet L h (w_heap w)"
    "w_bc w = stored L h g hr bh empty_chain" by blast
  have refs: "chain_refs (w_bc w) = [hr]" and st: "ms_data (bc_store (w_bc w)) hr = Some g"
    by (simp_all add: w(4) stored_def empty_chain_def newheaderStore_def)
  have "GetBlockAt (w_bc w) 0 = Ok g"
    by (simp add: GetBlockAt_def GetHeader_in [OF w(2)] refs st)
  moreover have "GetBlockHash (w_bc w) bh = Ok g"
    using w(2,3) assms(4) hr(2) by (intro GetBlockHash_in [of L w 0]) (simp_all add: refs st quiet_block)
  moreover have "uint (Chain_Height (w_bc w)) = uint (0 :: u32)"
    by (simp add: Chain_Height_uint [OF w(2)] refs)
  then have "Chain_Height (w_bc w) = 0" by (rule word_uint_eqI)
  ultimately show ?thesis using w by blast
qed

lemma NewBlockchain_starts_chain_witness:
  "\<exists>w. NewBlockchain demo_lib 0 demo_heap = (Ok (), w) \<and> GetBlockAt (w_bc w) 0 = Ok 0"
proof -
  obtain bh where "header_hash demo_lib (h_headers demo_heap 0) = Some bh"
    using demo_header_hash by blast
  moreover have "block_header demo_heap 0 = Ok (h_headers demo_heap 0)" "hd_Height (h_headers demo_heap 0) = 0"
    by (simp_all add: block_header_def demo_heap_def NewBlock_def)
  ultimately show ?thesis
    using NewBlockchain_starts_chain [OF demo_heap_ok] by blast
qed

text \<open>
  C4: no outcome of an insertion breaks the chain: after \<^verbatim>\<open>AddBlock\<close> returned, failed or
  panicked, on any block, the chain is well formed.
\<close>

theorem AddBlock_keeps_chain:
  assumes "chain_ok L w" and "AddBlock L br w = (r, w')"
  shows "chain_ok L w'"
  by (rule AddBlock_chain_ok [OF assms])

theorem AddBlock_keeps_chain_witness:
  "\<exists>w r w'. NewBlockchain demo_lib 0 demo_heap = (Ok (), w) \<and> AddBlock demo_lib 0 w = (r, w') \<and> chain_ok demo_lib w'"
proof -
  from demo_chain obtain w where w: "NewBlockchain demo_lib 0 demo_heap = (Ok (), w)" "chain_ok demo_lib w"
    by blast
  obtain r w' where a: "AddBlock demo_lib 0 w = (r, w')" by fastforce
  from AddBlock_keeps_chain [OF w(2) a] w(1) a show ?thesis by blast
qed

text \<open>
  C27: a refused block leaves no trace in the chain: the headers, the blocks and the
  transactions are those from before, whatever the error or the panic was.
\<close>

theorem AddBlock_refused:
  assumes "chain_ok L w" and "AddBlock L br w = (r, w')" and "r \<noteq> Ok ()"
  shows "bc_headers (w_bc w') = bc_headers (w_bc w) \<and> bc_store (w_bc w') = bc_store (w_bc w) \<and>
    bc_txStore (w_bc w') = bc_txStore (w_bc w)"
  using assms(1,2)
proof (cases rule: AddBlock_cases)
  case refused
  then show ?thesis by (auto simp: wquiet_def)
qed (use assms(3) in simp)

theorem AddBlock_refused_witness:
  "\<exists>w r w'. NewBlockchain demo_lib 0 demo_heap = (Ok (), w) \<and> AddBlock demo_lib 0 w = (r, w') \<and>
     r \<noteq> Ok () \<and> bc_headers (w_bc w') = bc_headers (w_bc w)"
proof -
  from demo_chain obtain w bh where w: "NewBlockchain demo_lib 0 demo_heap = (Ok (), w)" "chain_ok demo_lib w"
    "quiet demo_lib demo_heap (w_heap w)" "w_bc w = stored demo_lib demo_heap 0 0 bh empty_chain" by blast
  obtain r w' where a: "AddBlock demo_lib 0 w = (r, w')" by fastforce
  have "r \<noteq> Ok ()"
    using w(2) a
  proof (cases rule: AddBlock_cases)
    case (added hr bh' cs)
    have "blk_Header (h_blocks (w_heap w) 0) = Some 0"
      using w(3) by (simp add: quiet_block) (simp add: demo_heap_def NewBlock_def)
    with added(2) have "hr = 0" by (simp add: storable_def)
    with added(3) have "(1 :: u32) = 0"
      using w(3) by (simp add: quiet_block w(4) stored_def empty_chain_def newheaderStore_def)
        (simp add: demo_heap_def)
    then show ?thesis by simp
  qed
  from AddBlock_refused [OF w(2) a this] w(1) a this show ?thesis by blast
qed

text \<open>The lookups in a chain that has got one block more.\<close>

lemma stored_refs [simp]:
  "chain_refs (stored L h br hr bh b) = chain_refs b @ [hr]"
  "ms_data (bc_store (stored L h br hr bh b)) = (ms_data (bc_store b))(hr \<mapsto> br)"
  "ms_data (bc_txStore (stored L h br hr bh b)) =
     ms_data (bc_txStore b) ++ tx_entries L h (blk_Transactions (h_blocks h br))"
  by (simp_all add: stored_def)

lemma stored_new_block:
  assumes "chain_ok L w'" "w_bc w' = stored L h br hr bh b"
    and "length (chain_refs b) < 2 ^ 32" "header_hash L (h_headers (w_heap w') hr) = Some bh"
  shows "GetBlockAt (w_bc w') (of_nat (length (chain_refs b))) = Ok br" "GetBlockHash (w_bc w') bh = Ok br"
    "Chain_Height (w_bc w') = of_nat (length (chain_refs b))"
proof -
  note st = stored_refs [of L h br hr bh b, folded assms(2)]
  have un: "unat (of_nat (length (chain_refs b)) :: u32) = length (chain_refs b)"
    unfolding unat_of_nat using assms(3) by simp
  then show "GetBlockAt (w_bc w') (of_nat (length (chain_refs b))) = Ok br"
    by (simp add: GetBlockAt_def GetHeader_in [OF assms(1)] st)
  show "GetBlockHash (w_bc w') bh = Ok br"
    by (rule GetBlockHash_in [OF assms(1), of "length (chain_refs b)"]) (simp_all add: st assms(4))
  have "uint (Chain_Height (w_bc w')) = int (unat (of_nat (length (chain_refs b)) :: u32))"
    unfolding Chain_Height_uint [OF assms(1)] un by (simp add: st)
  then show "Chain_Height (w_bc w') = of_nat (length (chain_refs b))"
    by (intro word_uint_eqI) simp
qed

lemma stored_transaction:
  assumes "w_bc w' = stored L h br hr bh b" "r \<in> set (blk_Transactions (h_blocks h br))"
  shows "\<exists>r'. GetTransaction (w_bc w') (sha256 L (tx_Data (h_txs h r))) = Ok r' \<and>
    r' \<in> set (blk_Transactions (h_blocks h br))"
proof -
  from tx_entries_defined [OF assms(2), of L h] obtain r' where
    "tx_entries L h (blk_Transactions (h_blocks h br)) (sha256 L (tx_Data (h_txs h r))) = Some r'" by blast
  with tx_entries_keyed [OF this] show ?thesis
    by (simp add: GetTransaction_def assms(1) map_add_Some_iff)
qed

lemma stored_old_block:
  assumes "chain_ok L w" "chain_ok L w'" "i \<le> Chain_Height (w_bc w)"
    and "w_bc w' = stored L h br hr bh ((w_bc w)\<lparr>bc_cstate := cs\<rparr>)" "hr \<notin> set (chain_refs (w_bc w))"
  shows "GetBlockAt (w_bc w') i = GetBlockAt (w_bc w) i"
proof -
  from assms(3) have l: "unat i < length (chain_refs (w_bc w))" by (simp add: le_height_iff [OF assms(1)])
  with assms(5) have "hr \<noteq> chain_refs (w_bc w) ! unat i" using nth_mem by blast
  with l show ?thesis
    by (simp add: GetBlockAt_def GetHeader_in [OF assms(2)] GetHeader_in [OF assms(1)] nth_append
        MemStore_Get_def stored_refs [of L h br hr bh "(w_bc w)\<lparr>bc_cstate := cs\<rparr>", folded assms(4)])
qed

lemma AddBlock_headers:
  assumes "chain_ok L w" "AddBlock L br w = (Ok (), w')" "block_header (w_heap w) br = Ok x"
  shows "chain_headers (w_heap w') (w_bc w') = chain_headers (w_heap w) (w_bc w) @ [x]"
  using assms(1,2)
proof (cases rule: AddBlock_cases)
  case (added hr bh cs)
  then have "h_headers (w_heap w) hr = x" using assms(3) by (simp add: block_header_def storable_def)
  with added(7,8) show ?thesis by (simp add: quiet_block(3) stored_def)
qed simp

lemma AddBlock_effect:
  assumes "chain_ok L w" and "AddBlock L br w = (Ok (), w')"
  shows "\<exists>x bh last. block_header (w_heap w) br = Ok x \<and> header_hash L x = Some bh \<and>
    Block_Verify L (w_heap w) br = Ok () \<and>
    GetHeader (w_bc w) (Chain_Height (w_bc w)) = Ok last \<and>
    header_hash L (h_headers (w_heap w) last) = Some (hd_PreviousBlockHash x) \<and>
    uint (hd_Height x) = uint (Chain_Height (w_bc w)) + 1 \<and> Chain_Height (w_bc w') = hd_Height x \<and>
    GetBlockAt (w_bc w') (hd_Height x) = Ok br \<and> GetBlockHash (w_bc w') bh = Ok br \<and>
    (\<forall>r \<in> set (blk_Transactions (h_blocks (w_heap w) br)).
       \<exists>r'. GetTransaction (w_bc w') (sha256 L (tx_Data (h_txs (w_heap w) r))) = Ok r' \<and>
         r' \<in> set (blk_Transactions (h_blocks (w_heap w) br))) \<and>
    (\<forall>i \<le> Chain_Height (w_bc w). GetBlockAt (w_bc w') i = GetBlockAt (w_bc w) i)"
  using assms
proof (cases rule: AddBlock_cases)
  case (added hr bh cs)
  let ?refs = "chain_refs (w_bc w)" and ?x = "h_headers (w_heap w) hr"
  note ok' = AddBlock_chain_ok [OF assms]
  have ne: "?refs \<noteq> []" using assms(1) by (simp add: chain_ok_def)
  have hash: "header_hash L ?x = Some bh" and bh: "blk_Header (h_blocks (w_heap w) br) = Some hr"
    using added(2) by (simp_all add: storable_def)
  have H: "uint (Chain_Height (w_bc w)) = int (length ?refs) - 1"
    by (rule Chain_Height_uint [OF assms(1)])
  then have "unat (Chain_Height (w_bc w)) = length ?refs - 1"
    using ne by (cases ?refs) (simp_all add: unat_eq_nat_uint)
  then have last: "GetHeader (w_bc w) (Chain_Height (w_bc w)) = Ok (last ?refs)"
    using ne by (simp add: GetHeader_in [OF assms(1)] last_conv_nth)
  have new: "GetBlockAt (w_bc w') (hd_Height ?x) = Ok br" "GetBlockHash (w_bc w') bh = Ok br"
    "Chain_Height (w_bc w') = hd_Height ?x"
    using stored_new_block [OF ok' added(8)] added(4) hash
    by (simp_all add: added(3) quiet_block(3) [OF added(7)])
  have ht: "uint (hd_Height ?x) = uint (Chain_Height (w_bc w)) + 1"
    unfolding new(3) [symmetric] Chain_Height_uint [OF ok'] H by (simp add: added(8))
  have fresh: "hr \<notin> set ?refs"
    using chain_ref_fresh [of L "w_heap w" "w_bc w" hr] assms(1) added by (simp add: chain_ok_def)
  have "block_header (w_heap w) br = Ok ?x" by (simp add: block_header_def bh)
  with hash added(5,6) last ht new stored_transaction [OF added(8)]
    stored_old_block [OF assms(1) ok' _ added(8) fresh] show ?thesis
    by (intro exI [of _ ?x] exI [of _ bh] exI [of _ "last ?refs"]) simp
qed simp

text \<open>
  C5: an inserted block extends the chain by exactly one, without wrap-around of the
  32-bit height: it was verified, names the hash of the last header and has the next
  height. Afterwards it is found by its height and by its hash, each of its transactions
  by the hash of its data, and the lookups of the heights before are unchanged.
\<close>

theorem AddBlock_accepted:
  assumes "chain_ok L w" and "AddBlock L br w = (Ok (), w')"
  shows "\<exists>x bh last. block_header (w_heap w) br = Ok x \<and> header_hash L x = Some bh \<and>
    Block_Verify L (w_heap w) br = Ok () \<and>
    GetHeader (w_bc w) (Chain_Height (w_bc w)) = Ok last \<and>
    header_hash L (h_headers (w_heap w) last) = Some (hd_PreviousBlockHash x) \<and>
    uint (hd_Height x) = uint (Chain_Height (w_bc w)) + 1 \<and> Chain_Height (w_bc w') = hd_Height x \<and>
    GetBlockAt (w_bc w') (hd_Height x) = Ok br \<and> GetBlockHash (w_bc w') bh = Ok br \<and>
    (\<forall>r \<in> set (blk_Transactions (h_blocks (w_heap w) br)).
       \<exists>r'. GetTransaction (w_bc w') (sha256 L (tx_Data (h_txs (w_heap w) r))) = Ok r' \<and>
         r' \<in> set (blk_Transactions (h_blocks (w_heap w) br))) \<and>
    (\<forall>i \<le> Chain_Height (w_bc w). GetBlockAt (w_bc w') i = GetBlockAt (w_bc w) i)"
  by (rule AddBlock_effect [OF assms])

theorem AddBlock_accepted_witness:
  "\<exists>w w'. NewBlockchain demo_lib 0 example_heap = (Ok (), w) \<and> AddBlock demo_lib 1 w = (Ok (), w') \<and>
     GetBlockAt (w_bc w') 1 = Ok 1 \<and> GetBlockAt (w_bc w') 0 = GetBlockAt (w_bc w) 0"
proof -
  obtain w where w: "NewBlockchain demo_lib 0 example_heap = (Ok (), w)" "chain_ok demo_lib w"
    "next_block demo_lib w 1 (example_header 1)" "blk_Transactions (h_blocks (w_heap w) 1) = [1]"
    "h_txs (w_heap w) 1 = example_tx 1"
    "\<And>bh. hs_idx (bc_headers (w_bc w)) bh = (if bh = genesis_hash then Some 0 else None)"
    by (rule example_chain) (metis One_nat_def zero_neq_one)
  obtain w' where a: "AddBlock demo_lib 1 w = (Ok (), w')" by (rule example_accepted [OF w(2-6)])
  have "block_header (w_heap w) 1 = Ok (example_header 1)" using w(3) by (simp add: next_block_def)
  with AddBlock_accepted [OF w(2) a] have "GetBlockAt (w_bc w') (hd_Height (example_header 1)) = Ok 1"
    "\<forall>i \<le> Chain_Height (w_bc w). GetBlockAt (w_bc w') i = GetBlockAt (w_bc w) i" by auto
  then have "GetBlockAt (w_bc w') 1 = Ok 1" "GetBlockAt (w_bc w') 0 = GetBlockAt (w_bc w) 0"
    by (simp_all add: example_header_def)
  with w(1) a show ?thesis by blast
qed

text \<open>
  A block is accepted when its height is the next one, it names the hash of the last
  header, it verifies, its transactions run, and no stored header has its hash.
\<close>

lemma AddBlock_accepts:
  assumes "chain_ok L w"
    and "block_header (w_heap w) br = Ok x" and "uint (hd_Height x) = uint (Chain_Height (w_bc w)) + 1"
    and "GetHeader (w_bc w) (Chain_Height (w_bc w)) = Ok tip"
    and "header_hash L (h_headers (w_heap w) tip) = Some (hd_PreviousBlockHash x)"
    and "Block_Verify L (w_heap w) br = Ok ()"
    and "sfor (blk_Transactions (h_blocks (w_heap w) br)) (run_tx L) w = (Ok (), w1)"
    and "header_hash L x = Some bh" and "hs_idx (bc_headers (w_bc w)) bh = None"
  shows "\<exists>w'. AddBlock L br w = (Ok (), w')"
proof -
  have "next_block L w br x"
    using assms(2-6) by (simp add: next_block_def DefaultBlockHasher_header_hash)
  from AddBlock_stores [OF _ this assms(7-9)] assms(1) show ?thesis by (simp add: chain_ok_def)
qed

lemma AddBlock_accepts_witness:
  "\<exists>w w'. NewBlockchain demo_lib 0 example_heap = (Ok (), w) \<and> AddBlock demo_lib 1 w = (Ok (), w')"
proof -
  obtain w where w: "NewBlockchain demo_lib 0 example_heap = (Ok (), w)" "chain_ok demo_lib w"
    "next_block demo_lib w 1 (example_header 1)" "blk_Transactions (h_blocks (w_heap w) 1) = [1]"
    "h_txs (w_heap w) 1 = example_tx 1"
    "\<And>bh. hs_idx (bc_headers (w_bc w)) bh = (if bh = genesis_hash then Some 0 else None)"
    by (rule example_chain) (metis One_nat_def zero_neq_one)
  obtain bh where bh: "header_hash demo_lib (example_header 1) = Some bh"
    using gob_demo(1) [of "example_header 1"] by (auto simp: header_hash_def)
  with example_hash_differs [of 1] have new: "hs_idx (bc_headers (w_bc w)) bh = None"
    by (auto simp: w(6))
  from w(3) obtain tip where "block_header (w_heap w) 1 = Ok (example_header 1)"
    "uint (hd_Height (example_header 1)) = uint (Chain_Height (w_bc w)) + 1"
    "GetHeader (w_bc w) (Chain_Height (w_bc w)) = Ok tip"
    "header_hash demo_lib (h_headers (w_heap w) tip) = Some (hd_PreviousBlockHash (example_header 1))"
    "Block_Verify demo_lib (w_heap w) 1 = Ok ()"
    by (auto simp: next_block_def DefaultBlockHasher_header_hash)
  from AddBlock_accepts [OF w(2) this _ bh new] example_run_ok [OF w(5)] w(1,4) show ?thesis
    by metis
qed

lemma AddBlock_other_height:
  assumes "chain_ok L w" and "block_header (w_heap w) br = Ok x"
    and "uint (hd_Height x) \<noteq> uint (Chain_Height (w_bc w)) + 1" and "header_hash L x = Some bh"
  shows "if uint (hd_Height x) \<le> uint (Chain_Height (w_bc w))
    then \<exists>h'. AddBlock L br w = (Err (BlockExists (hd_Height x) bh), w\<lparr>w_heap := h'\<rparr>)
    else \<exists>lag. AddBlock L br w = (Err (OutOfSync lag), w) \<and> 2 \<le> sint lag \<and>
      sint lag = uint (hd_Height x) - uint (Chain_Height (w_bc w))"
proof (cases "uint (hd_Height x) \<le> uint (Chain_Height (w_bc w))")
  case True
  from assms(2) obtain hr where hr: "blk_Header (h_blocks (w_heap w) br) = Some hr" "x = h_headers (w_heap w) hr"
    by (auto simp: block_header_def split: option.splits)
  have "block_cache_ok L (w_heap w) br" using assms(1) by (simp add: chain_ok_def heap_ok_def)
  with Block_Hash_defined [OF hr(1)] assms(4) hr(2)
  obtain h' where "Block_Hash L br (w_heap w) = (Ok bh, h')" by blast
  with True assms(2) have "AddBlock L br w = (Err (BlockExists (hd_Height x) bh), w\<lparr>w_heap := h'\<rparr>)"
    by (simp add: AddBlock_def ValidateBlock_def sbind_def sread_def HasBlockAtHeight_def word_le_def
        szoom_def sfail_def Let_def)
  with True show ?thesis by auto
next
  case False
  let ?lag = "ucast (hd_Height x) - ucast (Chain_Height (w_bc w)) :: goint"
  have H: "uint (Chain_Height (w_bc w)) < uint (hd_Height x)" "uint (hd_Height x) < 2 ^ 32"
    "0 \<le> uint (Chain_Height (w_bc w))"
    using False uint_lt2p [of "hd_Height x"] by simp_all
  have "hd_Height x \<noteq> Chain_Height (w_bc w) + 1"
  proof
    assume e: "hd_Height x = Chain_Height (w_bc w) + 1"
    have "uint (Chain_Height (w_bc w) + 1) = (uint (Chain_Height (w_bc w)) + 1) mod 2 ^ 32"
      by (simp add: uint_word_ariths)
    also have "\<dots> = uint (Chain_Height (w_bc w)) + 1" using H by (intro mod_pos_pos_trivial) simp_all
    finally show False using e assms(3) by simp
  qed
  with False assms(2) have out: "AddBlock L br w = (Err (OutOfSync ?lag), w)"
    by (simp add: AddBlock_def ValidateBlock_def sbind_def sread_def HasBlockAtHeight_def word_le_def Let_def)
  have "?lag = word_of_int (uint (hd_Height x) - uint (Chain_Height (w_bc w)))"
    by (simp add: unsigned_ucast_eq flip: word_of_int_uint)
  then have "sint ?lag = signed_take_bit 63 (uint (hd_Height x) - uint (Chain_Height (w_bc w)))"
    by (simp only: sint_sbintrunc') simp
  moreover have "signed_take_bit 63 (uint (hd_Height x) - uint (Chain_Height (w_bc w))) =
      uint (hd_Height x) - uint (Chain_Height (w_bc w))"
  proof (rule signed_take_bit_int_eq_self)
    have d: "0 \<le> uint (hd_Height x) - uint (Chain_Height (w_bc w))"
      "uint (hd_Height x) - uint (Chain_Height (w_bc w)) < 2 ^ 32" using H by linarith+
    show "- (2 ^ 63) \<le> uint (hd_Height x) - uint (Chain_Height (w_bc w))"
      using d(1) by (rule order_trans [rotated]) simp
    show "uint (hd_Height x) - uint (Chain_Height (w_bc w)) < 2 ^ 63"
      using d(2) by (rule order_less_trans) simp
  qed
  ultimately have "sint ?lag = uint (hd_Height x) - uint (Chain_Height (w_bc w))"
    by simp
  with out show ?thesis using False H(1) assms(3) by auto
qed

text \<open>
  The heights the validator refuses. A block at or below the height of the chain is
  reported as existing, a block more than one above as out of sync, with the distance as
  the lag; in both cases nothing but the cached hash of the block changes, and the lag is
  at least 2.
\<close>

lemma AddBlock_wrong_height:
  assumes "chain_ok L w" and "block_header (w_heap w) br = Ok x"
    and "uint (hd_Height x) \<noteq> uint (Chain_Height (w_bc w)) + 1" and "header_hash L x = Some bh"
  shows "if uint (hd_Height x) \<le> uint (Chain_Height (w_bc w))
    then \<exists>h'. AddBlock L br w = (Err (BlockExists (hd_Height x) bh), w\<lparr>w_heap := h'\<rparr>)
    else \<exists>lag. AddBlock L br w = (Err (OutOfSync lag), w) \<and> 2 \<le> sint lag \<and>
      sint lag = uint (hd_Height x) - uint (Chain_Height (w_bc w))"
  by (rule AddBlock_other_height [OF assms])

lemma AddBlock_wrong_height_witness:
  "\<exists>w. NewBlockchain demo_lib 0 demo_heap = (Ok (), w) \<and>
     (\<exists>w' bh. AddBlock demo_lib 0 w = (Err (BlockExists 0 bh), w'))"
proof -
  from demo_chain obtain w bh where w: "NewBlockchain demo_lib 0 demo_heap = (Ok (), w)" "chain_ok demo_lib w"
    "quiet demo_lib demo_heap (w_heap w)" "w_bc w = stored demo_lib demo_heap 0 0 bh empty_chain"
    "header_hash demo_lib (h_headers demo_heap 0) = Some bh" by blast
  have x: "block_header (w_heap w) 0 = Ok (h_headers demo_heap 0)" "uint (hd_Height (h_headers demo_heap 0)) = 0"
  proof -
    have "blk_Header (h_blocks demo_heap 0) = Some 0" by (simp add: demo_heap_def NewBlock_def)
    then show "block_header (w_heap w) 0 = Ok (h_headers demo_heap 0)"
      by (simp only: block_header_def quiet_block [OF w(3)] option.case)
  qed (simp add: demo_heap_def)
  have "0 \<le> uint (Chain_Height (w_bc w))" by simp
  then have "uint (hd_Height (h_headers demo_heap 0)) \<noteq> uint (Chain_Height (w_bc w)) + 1" unfolding x(2) by linarith
  from AddBlock_wrong_height [OF w(2) x(1) this w(5)] w(1) show ?thesis
    by (auto simp: x(2)) (simp add: demo_heap_def)
qed

text \<open>
  C37: a block is executed on the contract state of the chain itself. When one of its
  transactions fails, the block is refused with that error, and what the transactions
  before and the failing one wrote stays in the contract state of the unchanged chain.
\<close>

theorem AddBlock_refused_keeps_writes:
  assumes "next_block L w br x"
    and "blk_Transactions (h_blocks (w_heap w) br) = done @ tr # rest"
    and "sfor done (run_tx L) w = (Ok (), w1)" and "run_tx L tr w1 = (Err e, w2)"
  shows "AddBlock L br w = (Err e, w2) \<and>
    w_bc w2 = (w_bc w)\<lparr>bc_cstate := bc_cstate (w_bc w2)\<rparr>"
proof -
  have "wquiet L w w2"
    by (rule keepsD [OF run_tx_wquiet keepsD [OF run_txs_wquiet wquiet_refl assms(3)] assms(4)])
  then have "w_bc w2 = (w_bc w)\<lparr>bc_cstate := bc_cstate (w_bc w2)\<rparr>" by (auto simp: wquiet_def)
  then show ?thesis
    using AddBlock_stops [OF ValidateBlock_accepts [OF assms(1)] assms(2-4)] by simp
qed

theorem AddBlock_refused_keeps_writes_witness:
  "\<exists>w e w'. NewBlockchain demo_lib 0 example_heap = (Ok (), w) \<and> AddBlock demo_lib 2 w = (Err e, w') \<and>
     bc_headers (w_bc w') = bc_headers (w_bc w) \<and> bc_cstate (w_bc w) = NewState \<and>
     bc_cstate (w_bc w') = stored_three NewState"
proof -
  obtain w where w: "NewBlockchain demo_lib 0 example_heap = (Ok (), w)" "bc_cstate (w_bc w) = NewState"
    "next_block demo_lib w 2 (example_header 2)" "blk_Transactions (h_blocks (w_heap w) 2) = [2]"
    "h_txs (w_heap w) 2 = example_tx 2"
    by (rule example_chain) (metis zero_neq_numeral)
  have d: "tx_Data (h_txs (w_heap w) 2) = store_code @ [InstructionAddInt]"
    and hs: "tx_hasher (h_txs (w_heap w) 2) \<noteq> None"
    unfolding w(5) by (simp_all add: example_tx_def Let_def)
  obtain h w' where r: "run_tx demo_lib 2 w = (Err (AddBlockVm h (VmRun StackEmpty)), w')"
    "bc_cstate (w_bc w') = stored_three NewState"
  proof -
    have "tx_Data (h_txs (w_heap w) 2) \<noteq> []" by (simp add: d)
    moreover have "lm_run None (tx_Data (h_txs (w_heap w) 2)) (fresh (bc_cstate (w_bc w))) =
        (Err (VmRun StackEmpty), fresh (stored_three NewState))"
      unfolding d w(2) by (rule failing_code_run)
    ultimately show thesis
      using run_tx_fails [of w 2 "VmRun StackEmpty" "fresh (stored_three NewState)" demo_lib] hs that
      by (auto simp: fresh_def)
  qed
  have "blk_Transactions (h_blocks (w_heap w) 2) = [] @ 2 # []" using w(4) by simp
  from AddBlock_refused_keeps_writes [OF w(3) this _ r(1)]
  have "AddBlock demo_lib 2 w = (Err (AddBlockVm h (VmRun StackEmpty)), w')"
    "bc_headers (w_bc w') = bc_headers (w_bc w)"
    by (auto simp: go_simps) (metis blockchain.select_convs(1) blockchain.surjective blockchain.update_convs(4))
  with w(1,2) r(2) show ?thesis by blast
qed


text \<open>
  A block from the network with a failing transaction crashes the node. Its
  transactions have no hasher and no cached hash, and building the error message of the
  first one that fails asks it for its hash.
\<close>

lemma AddBlock_received_failing_panics:
  assumes "next_block L w br x"
    and "blk_Transactions (h_blocks (w_heap w) br) = done @ tr # rest"
    and "sfor done (run_tx L) w = (Ok (), w1)"
    and "tx_hasher (h_txs (w_heap w1) tr) = None" and "Hash_IsZero (tx_hash (h_txs (w_heap w1) tr))"
    and "tx_Data (h_txs (w_heap w1) tr) \<noteq> []"
    and "lm_run None (tx_Data (h_txs (w_heap w1) tr)) (fresh (bc_cstate (w_bc w1))) = (Err e, l)"
  shows "\<exists>w'. AddBlock L br w = (Panic NilDereference, w')"
proof -
  from run_tx_fails [OF assms(6,7)] assms(4,5) obtain w2 where
    "run_tx L tr w1 = (Panic NilDereference, w2)" by blast
  from AddBlock_stops [OF ValidateBlock_accepts [OF assms(1)] assms(2,3) this] show ?thesis by simp
qed

lemma AddBlock_received_failing_panics_witness:
  "\<exists>w w'. NewBlockchain demo_lib 0 example_heap = (Ok (), w) \<and>
     Block_Verify demo_lib (w_heap w) 3 = Ok () \<and> AddBlock demo_lib 3 w = (Panic NilDereference, w')"
proof -
  obtain w where w: "NewBlockchain demo_lib 0 example_heap = (Ok (), w)" "bc_cstate (w_bc w) = NewState"
    "next_block demo_lib w 3 (example_header 3)" "blk_Transactions (h_blocks (w_heap w) 3) = [3]"
    "h_txs (w_heap w) 3 = example_tx 3"
    by (rule example_chain) (metis zero_neq_numeral)
  have d: "tx_Data (h_txs (w_heap w) 3) = store_code @ [InstructionAddInt]"
    "tx_hasher (h_txs (w_heap w) 3) = None" "Hash_IsZero (tx_hash (h_txs (w_heap w) 3))"
    unfolding w(5) by (simp_all add: example_tx_def Let_def)
  have t: "blk_Transactions (h_blocks (w_heap w) 3) = [] @ 3 # []" using w(4) by simp
  have run: "lm_run None (tx_Data (h_txs (w_heap w) 3)) (fresh (bc_cstate (w_bc w))) =
      (Err (VmRun StackEmpty), fresh (stored_three NewState))"
    unfolding d w(2) by (rule failing_code_run)
  have ne: "tx_Data (h_txs (w_heap w) 3) \<noteq> []" by (simp add: d)
  have s: "sfor [] (run_tx demo_lib) w = (Ok (), w)" by (simp add: go_simps)
  from AddBlock_received_failing_panics [OF w(3) t s d(2,3) ne run] w(1,3) show ?thesis
    by (auto simp: next_block_def)
qed

text \<open>
  The lookup by height never panics: up to the height of the chain it returns a block
  whose header has that height, above it the error that names both heights.
\<close>

lemma GetBlockAt_outcome:
  assumes "chain_ok L w"
  shows "if i \<le> Chain_Height (w_bc w)
    then \<exists>br x. GetBlockAt (w_bc w) i = Ok br \<and> block_header (w_heap w) br = Ok x \<and> hd_Height x = i
    else GetBlockAt (w_bc w) i = Err (HeaderOutOfRange i (Chain_Height (w_bc w)))"
proof (cases "unat i < length (chain_refs (w_bc w))")
  case True
  from GetBlockAt_in [OF assms True] obtain br where br: "GetBlockAt (w_bc w) i = Ok br"
    "blk_Header (h_blocks (w_heap w) br) = Some (chain_refs (w_bc w) ! unat i)" by blast
  have "hd_Height (h_headers (w_heap w) (chain_refs (w_bc w) ! unat i)) = i"
    using assms True by (simp add: chain_ok_def chain_pre_def heights_ok_def)
  with br True show ?thesis by (simp add: le_height_iff [OF assms] block_header_def)
next
  case False
  then show ?thesis
    by (simp add: le_height_iff [OF assms] GetBlockAt_def GetHeader_in [OF assms])
qed

lemma GetBlockAt_outcome_witness:
  "\<exists>w. NewBlockchain demo_lib 0 demo_heap = (Ok (), w) \<and> (\<exists>br. GetBlockAt (w_bc w) 0 = Ok br)"
proof -
  from demo_chain obtain w where w: "NewBlockchain demo_lib 0 demo_heap = (Ok (), w)" "chain_ok demo_lib w"
    by blast
  have "(0 :: u32) \<le> Chain_Height (w_bc w)" by simp
  with GetBlockAt_outcome [OF w(2), of 0] w(1) show ?thesis by auto
qed

text \<open>
  C13: a chain only grows. Along any sequence of insertions, whatever their outcomes, and
  changes of the rest of the memory, the chain stays well formed, its height does not
  fall, and the block and the header at a height stay the same.
\<close>

theorem chain_only_grows:
  assumes "(chain_step L)\<^sup>*\<^sup>* w w'" and "chain_ok L w"
  shows "chain_ok L w' \<and> Chain_Height (w_bc w) \<le> Chain_Height (w_bc w') \<and>
    (\<forall>i \<le> Chain_Height (w_bc w). GetBlockAt (w_bc w') i = GetBlockAt (w_bc w) i \<and>
       GetHeader (w_bc w') i = GetHeader (w_bc w) i)"
proof -
  from chain_run_extends [OF assms] have ok: "chain_ok L w'" and e: "extends w w'" by blast+
  have "length (chain_refs (w_bc w)) \<le> length (chain_refs (w_bc w'))"
    using e by (auto simp: extends_def)
  then have "Chain_Height (w_bc w) \<le> Chain_Height (w_bc w')"
    unfolding word_le_def Chain_Height_uint [OF assms(2)] Chain_Height_uint [OF ok] by simp
  with ok extends_GetBlockAt [OF e assms(2) ok] show ?thesis by blast
qed

theorem chain_only_grows_witness:
  "\<exists>w w'. NewBlockchain demo_lib 0 example_heap = (Ok (), w) \<and> AddBlock demo_lib 1 w = (Ok (), w') \<and>
     Chain_Height (w_bc w) \<le> Chain_Height (w_bc w')"
proof -
  obtain w where w: "NewBlockchain demo_lib 0 example_heap = (Ok (), w)" "chain_ok demo_lib w"
    "next_block demo_lib w 1 (example_header 1)" "blk_Transactions (h_blocks (w_heap w) 1) = [1]"
    "h_txs (w_heap w) 1 = example_tx 1"
    "\<And>bh. hs_idx (bc_headers (w_bc w)) bh = (if bh = genesis_hash then Some 0 else None)"
    by (rule example_chain) (metis One_nat_def zero_neq_one)
  obtain w' where a: "AddBlock demo_lib 1 w = (Ok (), w')" by (rule example_accepted [OF w(2-6)])
  have "(chain_step demo_lib)\<^sup>*\<^sup>* w w'" using insert_block [OF a] by (rule r_into_rtranclp)
  from chain_only_grows [OF this w(2)] w(1) a show ?thesis by blast
qed

text \<open>
  Two chains with a common block have a common past: when the headers of two well
  formed chains agree at a height, they agree at every height below it, as long as no two
  of the headers have the same hash.
\<close>

lemma chains_agree_below:
  assumes "chain_ok L w" and "chain_ok L v"
    and "no_header_collision L (set (chain_headers (w_heap w) (w_bc w)) \<union> set (chain_headers (w_heap v) (w_bc v)))"
    and "GetHeader (w_bc w) n = Ok a" and "GetHeader (w_bc v) n = Ok b"
    and "h_headers (w_heap w) a = h_headers (w_heap v) b" and "k \<le> n"
  shows "\<exists>c d. GetHeader (w_bc w) k = Ok c \<and> GetHeader (w_bc v) k = Ok d \<and>
    h_headers (w_heap w) c = h_headers (w_heap v) d"
proof -
  let ?xs = "chain_headers (w_heap w) (w_bc w)" and ?ys = "chain_headers (w_heap v) (w_bc v)"
  have n: "unat n < length (chain_refs (w_bc w))" "unat n < length (chain_refs (w_bc v))"
    "a = chain_refs (w_bc w) ! unat n" "b = chain_refs (w_bc v) ! unat n"
    using assms(4,5) by (simp_all add: GetHeader_in [OF assms(1)] GetHeader_in [OF assms(2)] split: if_splits)
  have k: "unat k \<le> unat n" using assms(7) by (simp add: word_le_nat_alt)
  have "?xs ! unat k = ?ys ! unat k"
    by (rule linked_agree [of L _ _ "unat n"])
       (use assms n k in \<open>auto simp: chain_ok_def chain_pre_def no_header_collision_def\<close>)
  with n k show ?thesis
    by (simp add: GetHeader_in [OF assms(1)] GetHeader_in [OF assms(2)])
qed

lemma chains_agree_below_witness:
  "\<exists>w. NewBlockchain demo_lib 0 demo_heap = (Ok (), w) \<and> (\<exists>c. GetHeader (w_bc w) 0 = Ok c)"
proof -
  from demo_chain obtain w where w: "NewBlockchain demo_lib 0 demo_heap = (Ok (), w)" "chain_ok demo_lib w"
    and "\<exists>bh. w_bc w = stored demo_lib demo_heap 0 0 bh empty_chain" by blast
  then have refs: "chain_refs (w_bc w) = [0]" by (auto simp: stored_def empty_chain_def newheaderStore_def)
  have g: "GetHeader (w_bc w) 0 = Ok 0" by (simp add: GetHeader_in [OF w(2)] refs)
  have "no_header_collision demo_lib (set (chain_headers (w_heap w) (w_bc w)) \<union> set (chain_headers (w_heap w) (w_bc w)))"
    by (simp add: no_header_collision_def refs)
  from chains_agree_below [OF w(2,2) this g g refl order_refl] w(1) show ?thesis by blast
qed

end
