(* ===== verification/Core_Replay.thy ===== *)
theory Core_Replay
  imports Core_Chain_Props
begin

section \<open>The contract state as a replay of the chain's transactions\<close>

text \<open>
  What a chain promises of its contract state: it is a function of the data of the
  transactions in the blocks, in their order, and of nothing else of the node. The
  reference definition replays the data on the list machine of \<open>Vm_Machine\<close>, a fresh one
  for each transaction; the chain's insertions are shown to compute it.
\<close>

subsection \<open>The reference\<close>

text \<open>No contract state is the result when a transaction is empty, fails or panics.\<close>

fun contract_replay :: "cstate \<Rightarrow> bytes list \<Rightarrow> cstate option" where
  "contract_replay cs [] = Some cs"
| "contract_replay cs (d # ds) =
     (if d = [] then None
      else case lm_run None d (fresh cs) of
             (Ok _, l) \<Rightarrow> contract_replay (lm_cstate l) ds
           | _ \<Rightarrow> None)"

definition txs_data :: "heap \<Rightarrow> ref list \<Rightarrow> bytes list" where
  "txs_data h rs = map (\<lambda>r. tx_Data (h_txs h r)) rs"

definition blocks_data :: "heap \<Rightarrow> ref list \<Rightarrow> bytes list" where
  "blocks_data h brs = concat (map (\<lambda>br. txs_data h (blk_Transactions (h_blocks h br))) brs)"

lemma contract_replay_append:
  "contract_replay cs (ds @ es) = Option.bind (contract_replay cs ds) (\<lambda>cs'. contract_replay cs' es)"
  by (induction cs ds rule: contract_replay.induct) (auto split: result.split prod.split)

lemma txs_data_quiet: "quiet L h h' \<Longrightarrow> txs_data h' rs = txs_data h rs"
  by (simp add: txs_data_def quiet_data)

lemma blocks_data_quiet: "quiet L h h' \<Longrightarrow> blocks_data h' brs = blocks_data h brs"
  by (simp add: blocks_data_def quiet_block txs_data_quiet)

lemma blocks_data_Cons:
  "blocks_data h (br # brs) = txs_data h (blk_Transactions (h_blocks h br)) @ blocks_data h brs"
  by (simp add: blocks_data_def)

subsection \<open>The blocks of a chain\<close>

text \<open>The block stored at a position of the chain.\<close>

definition nth_block :: "blockchain \<Rightarrow> nat \<Rightarrow> ref" where
  "nth_block b k = the (ms_data (bc_store b) (chain_refs b ! k))"

lemma nth_block_header:
  assumes "chain_ok L w" "j < length (chain_refs (w_bc w))"
  shows "block_header (w_heap w) (nth_block (w_bc w) j) = Ok (chain_headers (w_heap w) (w_bc w) ! j)"
    and "unat (hd_Height (chain_headers (w_heap w) (w_bc w) ! j)) = j"
    and "ms_data (bc_store (w_bc w)) (chain_refs (w_bc w) ! j) = Some (nth_block (w_bc w) j)"
proof -
  have "chain_refs (w_bc w) ! j \<in> set (chain_refs (w_bc w))" using assms(2) by simp
  from chain_stored_ok [OF assms(1) this] have b:
    "ms_data (bc_store (w_bc w)) (chain_refs (w_bc w) ! j) = Some (nth_block (w_bc w) j)"
    "blk_Header (h_blocks (w_heap w) (nth_block (w_bc w) j)) = Some (chain_refs (w_bc w) ! j)"
    by (auto simp: nth_block_def stored_ok_def)
  show "ms_data (bc_store (w_bc w)) (chain_refs (w_bc w) ! j) = Some (nth_block (w_bc w) j)" by (rule b(1))
  show "block_header (w_heap w) (nth_block (w_bc w) j) = Ok (chain_headers (w_heap w) (w_bc w) ! j)"
    using b(2) assms(2) by (simp add: block_header_def)
  have "hd_Height (chain_headers (w_heap w) (w_bc w) ! j) = of_nat j"
    using assms by (simp add: chain_ok_def chain_pre_def heights_ok_def)
  moreover have "length (chain_refs (w_bc w)) \<le> 2 ^ 32" using assms(1) by (simp add: chain_ok_def chain_pre_def)
  then have "j < 2 ^ LENGTH(32)" using assms(2) by simp
  then have "unat (of_nat j :: u32) = j" by (rule of_nat_inverse [OF refl])
  ultimately show "unat (hd_Height (chain_headers (w_heap w) (w_bc w) ! j)) = j" by simp
qed

subsection \<open>Transactions\<close>

text \<open>A transaction runs exactly when the replay of its data has a result, and then computes it.\<close>

lemma run_tx_Ok:
  assumes "run_tx L tr w = (Ok (), w')"
  obtains l where "tx_Data (h_txs (w_heap w) tr) \<noteq> []"
    "lm_run None (tx_Data (h_txs (w_heap w) tr)) (fresh (bc_cstate (w_bc w))) = (Ok (), l)"
    "w' = w\<lparr>w_bc := (w_bc w)\<lparr>bc_cstate := lm_cstate l\<rparr>\<rparr>"
proof -
  let ?d = "tx_Data (h_txs (w_heap w) tr)"
  obtain m where m: "NewVM ?d [ContractStateOpt (bc_cstate (w_bc w))] = Ok m" using NewVM_Ok by blast
  have "?d \<noteq> []"
  proof
    assume "?d = []"
    with run_panics [OF m] obtain m' where "vm_run m = (Panic IndexOutOfRange, m')" by blast
    with assms show False unfolding run_tx_def m by simp
  qed
  obtain r l where l: "lm_run None ?d (fresh (bc_cstate (w_bc w))) = (r, l)" by fastforce
  from fresh_runD [OF m \<open>?d \<noteq> []\<close> l] obtain m' where m': "vm_run m = (r, m')" "vm_cstate m' = lm_cstate l"
    by blast
  have "r = Ok ()"
    using assms by (cases r) (auto simp: run_tx_def m m' Let_def sbind_def sfail_def split: prod.splits result.splits)
  moreover from this have "w' = w\<lparr>w_bc := (w_bc w)\<lparr>bc_cstate := lm_cstate l\<rparr>\<rparr>"
    using run_tx_runs [OF \<open>?d \<noteq> []\<close>] l assms by simp
  ultimately show thesis using that \<open>?d \<noteq> []\<close> l by blast
qed

lemma run_txs_replay:
  "(\<exists>w'. sfor rs (run_tx L) w = (Ok (), w') \<and> bc_cstate (w_bc w') = cs) \<longleftrightarrow>
     contract_replay (bc_cstate (w_bc w)) (txs_data (w_heap w) rs) = Some cs"
proof (induction rs arbitrary: w)
  case Nil
  then show ?case by (simp add: txs_data_def go_simps)
next
  case (Cons r rs)
  let ?d = "tx_Data (h_txs (w_heap w) r)"
  show ?case
  proof (cases "\<exists>w1. run_tx L r w = (Ok (), w1)")
    case True
    then obtain w1 where w1: "run_tx L r w = (Ok (), w1)" by blast
    then obtain l where "?d \<noteq> []" "lm_run None ?d (fresh (bc_cstate (w_bc w))) = (Ok (), l)"
      "w1 = w\<lparr>w_bc := (w_bc w)\<lparr>bc_cstate := lm_cstate l\<rparr>\<rparr>" by (rule run_tx_Ok)
    with w1 Cons.IH [of w1] show ?thesis by (simp add: txs_data_def go_simps)
  next
    case False
    then have "sfor (r # rs) (run_tx L) w \<noteq> (Ok (), w')" for w'
      by (auto simp: sbind_def split: prod.splits result.splits)
    moreover have "contract_replay (bc_cstate (w_bc w)) (txs_data (w_heap w) (r # rs)) = None"
      using False run_tx_runs [of w r _ L] by (auto simp: txs_data_def split: prod.splits result.splits)
    ultimately show ?thesis by simp
  qed
qed

subsection \<open>Blocks\<close>

lemma AddBlock_replay:
  assumes "chain_ok L w" "AddBlock L br w = (Ok (), w')"
  shows "contract_replay (bc_cstate (w_bc w)) (txs_data (w_heap w) (blk_Transactions (h_blocks (w_heap w) br)))
      = Some (bc_cstate (w_bc w'))" "quiet L (w_heap w) (w_heap w')"
proof -
  from assms(2) obtain w1 w2 where v: "ValidateBlock L br w = (Ok (), w1)"
    and x: "sfor (blk_Transactions (h_blocks (w_heap w1) br)) (run_tx L) w1 = (Ok (), w2)"
    and p: "persistBlock L br w2 = (Ok (), w')"
    by (auto simp: AddBlock_def sbind_def sget_def split: prod.splits result.splits)
  from ValidateBlock_quiet [OF v] have q1: "quiet L (w_heap w) (w_heap w1)" "w_bc w1 = w_bc w" by simp_all
  have q2: "wquiet L w1 w2" by (rule keepsD [OF run_txs_wquiet wquiet_refl x])
  then have q: "quiet L (w_heap w) (w_heap w2)" using q1 by (auto simp: wquiet_def intro: quiet_trans)
  then have "heap_ok L (w_heap w2)" using assms(1) by (simp add: chain_ok_def quiet_heap_ok)
  from this p have "bc_cstate (w_bc w') = bc_cstate (w_bc w2) \<and> quiet L (w_heap w2) (w_heap w')"
    by (cases rule: persistBlock_cases) (simp_all add: stored_def)
  moreover have "contract_replay (bc_cstate (w_bc w1))
      (txs_data (w_heap w1) (blk_Transactions (h_blocks (w_heap w1) br))) = Some (bc_cstate (w_bc w2))"
    using run_txs_replay x by blast
  ultimately show "contract_replay (bc_cstate (w_bc w))
      (txs_data (w_heap w) (blk_Transactions (h_blocks (w_heap w) br))) = Some (bc_cstate (w_bc w'))"
    "quiet L (w_heap w) (w_heap w')"
    using q q1 by (auto simp: quiet_block txs_data_quiet intro: quiet_trans)
qed

lemma AddBlocks_replay:
  assumes "chain_ok L w" "sfor brs (AddBlock L) w = (Ok (), w')"
  shows "contract_replay (bc_cstate (w_bc w)) (blocks_data (w_heap w) brs) = Some (bc_cstate (w_bc w'))"
  using assms
proof (induction brs arbitrary: w)
  case Nil
  then show ?case by (simp add: blocks_data_def go_simps)
next
  case (Cons br brs)
  from Cons.prems(2) obtain w1 where w1: "AddBlock L br w = (Ok (), w1)" "sfor brs (AddBlock L) w1 = (Ok (), w')"
    by (auto simp: sbind_def split: prod.splits result.splits)
  from Cons.IH [OF AddBlock_chain_ok [OF Cons.prems(1) w1(1)] w1(2)] AddBlock_replay [OF Cons.prems(1) w1(1)]
  show ?case by (simp add: blocks_data_Cons contract_replay_append blocks_data_quiet)
qed

lemma next_block_quiet:
  assumes "quiet L (w_heap w) (w_heap v)" "w_bc v = w_bc w"
  shows "next_block L v br x \<longleftrightarrow> next_block L w br x"
  unfolding next_block_def block_header_def quiet_block [OF assms(1)] quiet_verify [OF assms(1)] assms(2) ..

text \<open>A valid next block is accepted exactly when the replay of its data has a result.\<close>

lemma AddBlock_decided_by_replay:
  assumes "heap_ok L (w_heap w)" "next_block L w br x"
    and "header_hash L x = Some bh" "hs_idx (bc_headers (w_bc w)) bh = None"
  shows "(\<exists>w'. AddBlock L br w = (Ok (), w')) \<longleftrightarrow>
    contract_replay (bc_cstate (w_bc w)) (txs_data (w_heap w) (blk_Transactions (h_blocks (w_heap w) br))) \<noteq> None"
proof -
  let ?txns = "blk_Transactions (h_blocks (w_heap w) br)"
  have "(\<exists>w'. AddBlock L br w = (Ok (), w')) \<longleftrightarrow> (\<exists>w1. sfor ?txns (run_tx L) w = (Ok (), w1))"
    using AddBlock_stores [OF assms(1,2) _ assms(3,4)] ValidateBlock_accepts [OF assms(2)]
    by (auto simp: AddBlock_def sbind_def sget_def split: prod.splits result.splits)
  also have "\<dots> \<longleftrightarrow> contract_replay (bc_cstate (w_bc w)) (txs_data (w_heap w) ?txns) \<noteq> None"
    using run_txs_replay by (metis not_None_eq)
  finally show ?thesis .
qed

subsection \<open>Two nodes with one chain\<close>

text \<open>
  Two nodes with the genesis block insert block 1; the second holds the transaction with
  its hasher set, as the node that made it does.
\<close>

lemma example_two_nodes:
  obtains w v w' v' where "NewBlockchain demo_lib 0 example_heap = (Ok (), w)" "chain_ok demo_lib w" "chain_ok demo_lib v"
    "chain_refs (w_bc w) = [0]" "bc_cstate (w_bc w) = NewState"
    "quiet demo_lib (w_heap w) (w_heap v)" "w_bc v = w_bc w"
    "blk_Transactions (h_blocks (w_heap w) 1) = [1]" "h_txs (w_heap w) 1 = example_tx 1"
    "tx_hasher (h_txs (w_heap w) 1) = None" "tx_hasher (h_txs (w_heap v) 1) = Some DefaultTxHasher"
    "next_block demo_lib w 1 (example_header 1)"
    "AddBlock demo_lib 1 w = (Ok (), w')" "AddBlock demo_lib 1 v = (Ok (), v')"
proof -
  obtain w where w: "NewBlockchain demo_lib 0 example_heap = (Ok (), w)" "chain_ok demo_lib w"
    "next_block demo_lib w 1 (example_header 1)" "blk_Transactions (h_blocks (w_heap w) 1) = [1]"
    "h_txs (w_heap w) 1 = example_tx 1" "bc_cstate (w_bc w) = NewState"
    "\<And>bh. hs_idx (bc_headers (w_bc w)) bh = (if bh = genesis_hash then Some 0 else None)"
    "chain_refs (w_bc w) = [0]"
    by (rule example_chain) (metis One_nat_def zero_neq_one)
  let ?t = "(example_tx 1)\<lparr>tx_hasher := Some DefaultTxHasher\<rparr>"
  let ?v = "w\<lparr>w_heap := (w_heap w)\<lparr>h_txs := (h_txs (w_heap w))(1 := ?t)\<rparr>\<rparr>"
  have "on_tx 1 (Tx_SetHasher (Some DefaultTxHasher)) (w_heap w) = (Ok (), w_heap ?v)"
    by (simp add: on_tx_def szoom_def Tx_SetHasher_def go_simps w(5) del: One_nat_def)
  from on_tx_quiet [OF this SetHasher_quiet] have q: "quiet demo_lib (w_heap w) (w_heap ?v)" .
  have cv: "chain_ok demo_lib ?v"
    by (rule wquiet_chain_ok [OF _ w(2)]) (use q in \<open>auto simp: wquiet_def intro: exI [of _ "bc_cstate (w_bc w)"]\<close>)
  have d: "tx_Data (example_tx 1) = store_code" by (simp add: example_tx_def Let_def)
  have r: "contract_replay NewState [store_code] = Some (stored_three NewState)"
    by (simp add: store_code_run) (simp add: fresh_def store_code_def)
  obtain bh where bh: "header_hash demo_lib (example_header 1) = Some bh"
    using gob_demo(1) [of "example_header 1"] by (auto simp: header_hash_def)
  with example_hash_differs [of 1] have i: "hs_idx (bc_headers (w_bc w)) bh = None" by (auto simp: w(7))
  have nv: "next_block demo_lib ?v 1 (example_header 1)"
    using w(3) next_block_quiet [OF q] by simp
  obtain w' where w': "AddBlock demo_lib 1 w = (Ok (), w')"
    using AddBlock_decided_by_replay [OF _ w(3) bh i] w(2,4,5,6) r d
    by (auto simp: txs_data_def chain_ok_def simp del: contract_replay.simps)
  obtain v' where v': "AddBlock demo_lib 1 ?v = (Ok (), v')"
    using AddBlock_decided_by_replay [OF _ nv bh] cv i w(4,6) r d
    by (auto simp: txs_data_def chain_ok_def simp del: contract_replay.simps)
  have h: "tx_hasher (h_txs (w_heap w) 1) = None" unfolding w(5) by (simp add: example_tx_def Let_def)
  show thesis
    by (rule that [OF w(1,2) cv w(8,6) q _ w(4,5) h _ w(3) w' v']) simp_all
qed

subsection \<open>Replication\<close>

text \<open>
  Contract states are replicated. The insertion of a sequence of blocks leaves the
  contract state that the replay of their transactions' data computes, in the order of the
  blocks, so two nodes that start from one contract state and insert blocks with the same
  data end with the same contract state, however the data is grouped in blocks, who signed
  them, and wherever the objects are in the memory of each.
\<close>

lemma contract_state_is_replicated:
  assumes "chain_ok L w" "sfor brs (AddBlock L) w = (Ok (), w')"
    and "chain_ok L v" "sfor crs (AddBlock L) v = (Ok (), v')"
    and "bc_cstate (w_bc v) = bc_cstate (w_bc w)"
    and "blocks_data (w_heap v) crs = blocks_data (w_heap w) brs"
  shows "contract_replay (bc_cstate (w_bc w)) (blocks_data (w_heap w) brs) = Some (bc_cstate (w_bc w')) \<and>
    bc_cstate (w_bc v') = bc_cstate (w_bc w')"
  using AddBlocks_replay [OF assms(1,2)] AddBlocks_replay [OF assms(3,4)] assms(5,6) by simp

lemma contract_state_is_replicated_witness:
  "\<exists>w v w' v'. NewBlockchain demo_lib 0 example_heap = (Ok (), w) \<and>
     tx_hasher (h_txs (w_heap w) 1) = None \<and> tx_hasher (h_txs (w_heap v) 1) = Some DefaultTxHasher \<and>
     AddBlock demo_lib 1 w = (Ok (), w') \<and> AddBlock demo_lib 1 v = (Ok (), v') \<and>
     bc_cstate (w_bc w') = stored_three NewState \<and> bc_cstate (w_bc v') = stored_three NewState"
proof -
  obtain w v w' v' where e: "NewBlockchain demo_lib 0 example_heap = (Ok (), w)" "chain_ok demo_lib w" "chain_ok demo_lib v"
    "bc_cstate (w_bc w) = NewState" "quiet demo_lib (w_heap w) (w_heap v)" "w_bc v = w_bc w"
    "blk_Transactions (h_blocks (w_heap w) 1) = [1]" "h_txs (w_heap w) 1 = example_tx 1"
    "tx_hasher (h_txs (w_heap w) 1) = None" "tx_hasher (h_txs (w_heap v) 1) = Some DefaultTxHasher"
    "AddBlock demo_lib 1 w = (Ok (), w')" "AddBlock demo_lib 1 v = (Ok (), v')"
    by (rule example_two_nodes)
  have r: "contract_replay NewState [store_code] = Some (stored_three NewState)"
    by (simp add: store_code_run) (simp add: fresh_def store_code_def)
  have "tx_Data (example_tx 1) = store_code" by (simp add: example_tx_def Let_def)
  with e(7,8) have "blocks_data (w_heap w) [1] = [store_code]" by (simp add: blocks_data_def txs_data_def)
  with contract_state_is_replicated [of demo_lib w "[1]" w' v "[1]" v'] e r blocks_data_quiet [OF e(5)]
  have "bc_cstate (w_bc w') = stored_three NewState" "bc_cstate (w_bc v') = stored_three NewState"
    by (simp_all add: go_simps del: contract_replay.simps One_nat_def)
  with e show ?thesis by blast
qed

end
