(* ===== verification/Core_Ledger.thy ===== *)
theory Core_Ledger
  imports Core_Replay Core_Coding "HOL-Library.Sublist"
begin

section \<open>The ledger of a chain\<close>

text \<open>
  What a chain is for: an agreed sequence of transactions, and the contract state they
  produce. The ledger of a chain is the transactions of the blocks above the genesis block
  (which are not run), as they are sent and hashed. This theory shows how the code ties
  the three together: the contract state is the replay of the ledger, as long as no refused
  block has left its writes behind, and the hash of the last header determines both.
\<close>

subsection \<open>Ledgers\<close>

definition block_wires :: "heap \<Rightarrow> ref \<Rightarrow> tx_wire list" where
  "block_wires h br = map (\<lambda>r. tx_wire (h_txs h r)) (blk_Transactions (h_blocks h br))"

definition ledger :: "world \<Rightarrow> tx_wire list list" where
  "ledger w = map (\<lambda>k. block_wires (w_heap w) (nth_block (w_bc w) k)) [1..<length (chain_refs (w_bc w))]"

definition ledger_replay :: "tx_wire list list \<Rightarrow> cstate option" where
  "ledger_replay ws = contract_replay NewState (map fst (concat ws))"

text \<open>
  The headers commit to the ledger: each one above the genesis header has the hash of the
  transactions of its block. The ledger is intact when the contract state is its replay.
\<close>

definition data_hash :: "lib \<Rightarrow> tx_wire list \<Rightarrow> hash" where
  "data_hash L ws = sha256 L (wires_bytes (gob_tx L) ws)"

definition committed :: "lib \<Rightarrow> world \<Rightarrow> bool" where
  "committed L w \<longleftrightarrow> chain_ok L w \<and>
     map hd_DataHash (tl (chain_headers (w_heap w) (w_bc w))) = map (data_hash L) (ledger w)"

definition intact :: "world \<Rightarrow> bool" where
  "intact w \<longleftrightarrow> ledger_replay (ledger w) = Some (bc_cstate (w_bc w))"

definition ledger_ok :: "lib \<Rightarrow> world \<Rightarrow> bool" where
  "ledger_ok L w \<longleftrightarrow> committed L w \<and> intact w"

lemma committed_chain_ok: "committed L w \<Longrightarrow> chain_ok L w"
  by (simp add: committed_def)

lemma ledger_ok_chain_ok: "ledger_ok L w \<Longrightarrow> chain_ok L w"
  by (simp add: ledger_ok_def committed_def)

lemma block_wires_quiet: "quiet L h h' \<Longrightarrow> block_wires h' br = block_wires h br"
  by (simp add: block_wires_def quiet_block) (simp add: quiet_def)

lemma block_wires_data: "txs_data h (blk_Transactions (h_blocks h br)) = map fst (block_wires h br)"
  by (simp add: txs_data_def block_wires_def tx_wire_def)

lemma ledger_replay_snoc:
  "ledger_replay (ws @ [ts]) = Option.bind (ledger_replay ws) (\<lambda>cs. contract_replay cs (map fst ts))"
  by (simp add: ledger_replay_def contract_replay_append)

subsection \<open>Steps\<close>

text \<open>
  A step is an insertion of any block with any outcome, or a change of the memory that
  leaves the stored blocks and what is sent of their transactions alone. A block that is
  refused leaks when its transactions have changed the contract state; a clean step is one
  without.
\<close>

definition keeps_ledger :: "world \<Rightarrow> heap \<Rightarrow> bool" where
  "keeps_ledger w h' \<longleftrightarrow> keeps_stored w h' \<and>
     (\<forall>hr \<in> set (chain_refs (w_bc w)). \<forall>br. ms_data (bc_store (w_bc w)) hr = Some br \<longrightarrow>
        block_wires h' br = block_wires (w_heap w) br)"

inductive ledger_step :: "lib \<Rightarrow> world \<Rightarrow> world \<Rightarrow> bool" for L where
  insert_block: "AddBlock L br w = (r, w') \<Longrightarrow> ledger_step L w w'"
| memory: "heap_ok L h' \<Longrightarrow> keeps_ledger w h' \<Longrightarrow> ledger_step L w (w\<lparr>w_heap := h'\<rparr>)"

inductive_cases ledger_stepE: "ledger_step L w w'"

definition leaks :: "lib \<Rightarrow> world \<Rightarrow> world \<Rightarrow> bool" where
  "leaks L w w' \<longleftrightarrow> (\<exists>br r. AddBlock L br w = (r, w') \<and> r \<noteq> Ok () \<and> bc_cstate (w_bc w') \<noteq> bc_cstate (w_bc w))"

definition clean_step :: "lib \<Rightarrow> world \<Rightarrow> world \<Rightarrow> bool" where
  "clean_step L w w' \<longleftrightarrow> ledger_step L w w' \<and> \<not> leaks L w w'"

lemma clean_or_leak:
  assumes "(ledger_step L)\<^sup>*\<^sup>* w0 w"
  shows "(clean_step L)\<^sup>*\<^sup>* w0 w \<or>
    (\<exists>u v. (ledger_step L)\<^sup>*\<^sup>* w0 u \<and> leaks L u v \<and> (ledger_step L)\<^sup>*\<^sup>* v w)"
  using assms
proof (induction rule: rtranclp_induct)
  case (step w w')
  show ?case
  proof (cases "leaks L w w'")
    case True
    with step.hyps(1) show ?thesis by blast
  next
    case False
    with step.hyps(2) have "clean_step L w w'" by (simp add: clean_step_def)
    with step.IH step.hyps(2) show ?thesis by (meson rtranclp.rtrancl_into_rtrancl)
  qed
qed simp

text \<open>An insertion that succeeds, and a change of the memory, are clean.\<close>

lemma accepted_is_clean:
  assumes "chain_ok L w" "AddBlock L br w = (Ok (), w')"
  shows "clean_step L w w'"
proof -
  have "length (chain_refs (w_bc w')) = length (chain_refs (w_bc w)) + 1"
    using assms by (cases rule: AddBlock_cases) (simp_all add: stored_def)
  moreover have "length (chain_refs (w_bc w')) = length (chain_refs (w_bc w))"
    if "AddBlock L br' w = (r, w')" "r \<noteq> Ok ()" for br' r
    using assms(1) that(1) by (cases rule: AddBlock_cases) (use that(2) in \<open>auto simp: wquiet_def\<close>)
  ultimately have "\<not> leaks L w w'" unfolding leaks_def by fastforce
  with insert_block [OF assms(2)] show ?thesis by (simp add: clean_step_def)
qed

lemma memory_is_clean: "heap_ok L h' \<Longrightarrow> keeps_ledger w h' \<Longrightarrow> clean_step L w (w\<lparr>w_heap := h'\<rparr>)"
  by (auto simp: clean_step_def leaks_def intro: ledger_step.memory)

subsection \<open>Preservation\<close>

lemma stored_nth_block:
  assumes "w_bc w' = stored L h br hr bh b" "hr \<notin> set (chain_refs b)"
  shows "k < length (chain_refs b) \<Longrightarrow> nth_block (w_bc w') k = nth_block b k"
    and "nth_block (w_bc w') (length (chain_refs b)) = br"
  using assms(2) by (auto simp: nth_block_def assms(1) nth_append)

lemma ledger_memory:
  assumes "chain_ok L w" "keeps_ledger w h'"
  shows "ledger (w\<lparr>w_heap := h'\<rparr>) = ledger w"
proof -
  have "block_wires h' (nth_block (w_bc w) k) = block_wires (w_heap w) (nth_block (w_bc w) k)"
    if "k < length (chain_refs (w_bc w))" for k
    using nth_block_header(3) [OF assms(1) that] assms(2) nth_mem [OF that] by (auto simp: keeps_ledger_def)
  then show ?thesis by (simp add: ledger_def)
qed

lemma ledger_ok_memory:
  assumes "ledger_ok L w" "heap_ok L h'" "keeps_ledger w h'"
  shows "ledger_ok L (w\<lparr>w_heap := h'\<rparr>)"
proof -
  note c = ledger_ok_chain_ok [OF assms(1)]
  from assms(3) have k: "keeps_stored w h'" by (simp add: keeps_ledger_def)
  have "chain_headers (w_heap (w\<lparr>w_heap := h'\<rparr>)) (w_bc (w\<lparr>w_heap := h'\<rparr>)) = chain_headers (w_heap w) (w_bc w)"
    using keeps_stored_headers [OF k] by simp
  then show ?thesis
    using assms(1) memory_chain_ok [OF c assms(2) k] ledger_memory [OF c assms(3)]
    unfolding ledger_ok_def committed_def intact_def by (simp only:) simp
qed

lemma quiet_keeps_ledger:
  assumes "quiet L (w_heap w) h'"
  shows "keeps_ledger w h'"
  using assms
  by (auto simp: keeps_ledger_def keeps_stored_def quiet_block quiet_data block_wires_quiet)

text \<open>A block that is refused, whatever it leaks, does not change the ledger.\<close>

lemma ledger_wquiet:
  assumes "chain_ok L w" "wquiet L w w'"
  shows "ledger w' = ledger w"
proof -
  from assms(2) obtain cs where q: "quiet L (w_heap w) (w_heap w')" "w_bc w' = (w_bc w)\<lparr>bc_cstate := cs\<rparr>"
    by (auto simp: wquiet_def)
  have "nth_block (w_bc w') k = nth_block (w_bc w) k" for k by (simp add: nth_block_def q(2))
  then show ?thesis by (simp add: ledger_def q(2) block_wires_quiet [OF q(1)])
qed

text \<open>A block that is accepted is appended.\<close>

lemma AddBlock_ledger:
  assumes "chain_ok L w" "AddBlock L br w = (r, w')"
  shows "ledger w' = (if r = Ok () then ledger w @ [block_wires (w_heap w) br] else ledger w)"
  using assms
proof (cases rule: AddBlock_cases)
  case (added hr bh cs)
  have ne: "chain_refs (w_bc w) \<noteq> []" using assms(1) by (simp add: chain_ok_def)
  have fresh: "hr \<notin> set (chain_refs ((w_bc w)\<lparr>bc_cstate := cs\<rparr>))"
    using chain_ref_fresh [of L "w_heap w" "w_bc w" hr] assms(1) added by (simp add: chain_ok_def)
  note nth = stored_nth_block [OF added(8) fresh]
  have refs: "chain_refs (w_bc w') = chain_refs (w_bc w) @ [hr]" by (simp add: added(8))
  have "nth_block (w_bc w') k = nth_block (w_bc w) k" if "k < length (chain_refs (w_bc w))" for k
    using nth(1) that by (simp add: nth_block_def)
  then show ?thesis
    using ne nth(2) added(1) by (simp add: ledger_def refs block_wires_quiet [OF added(7)] Suc_le_eq)
next
  case refused
  with ledger_wquiet [OF assms(1) refused(2)] show ?thesis by simp
qed

lemma ledger_step_prefix:
  assumes "ledger_step L w w'" "chain_ok L w"
  shows "chain_ok L w' \<and> prefix (ledger w) (ledger w')"
proof (rule ledger_stepE [OF assms(1)])
  fix br r
  assume a: "AddBlock L br w = (r, w')"
  with AddBlock_chain_ok [OF assms(2) a] AddBlock_ledger [OF assms(2) a] show ?thesis by auto
next
  fix h'
  assume "w' = w\<lparr>w_heap := h'\<rparr>" "heap_ok L h'" "keeps_ledger w h'"
  with ledger_memory [OF assms(2)] memory_chain_ok [OF assms(2)] show ?thesis by (simp add: keeps_ledger_def)
qed

lemma length_ledger: "length (ledger w) = length (chain_refs (w_bc w)) - 1"
  by (simp add: ledger_def)

lemma ledger_run_prefix:
  "(ledger_step L)\<^sup>*\<^sup>* w w' \<Longrightarrow> chain_ok L w \<Longrightarrow> chain_ok L w' \<and> prefix (ledger w) (ledger w')"
proof (induction rule: rtranclp_induct)
  case (step v v')
  with ledger_step_prefix [OF step.hyps(2)] show ?case by (blast intro: prefix_order.trans)
qed simp

lemma verified_data_hash:
  assumes "gob_total L" "Block_Verify L h br = Ok ()" "blk_Header (h_blocks h br) = Some hr"
  shows "hd_DataHash (h_headers h hr) = data_hash L (block_wires h br)"
proof -
  have "calculateDataHash L (the_txs h (blk_Transactions (h_blocks h br))) = Ok (hd_DataHash (h_headers h hr))"
    using assms(2,3) unfolding Block_Verify_Ok_iff [OF assms(1)] by auto
  moreover have "encode_txs (gob_tx L) (the_txs h (blk_Transactions (h_blocks h br))) [] =
      (Ok (), wires_bytes (gob_tx L) (block_wires h br))"
    using assms(1) encode_txs_total [of "gob_tx L" _ "[]"]
    by (simp add: gob_total_def the_txs_def block_wires_def o_def)
  ultimately show ?thesis
    by (simp add: calculateDataHash_def data_hash_def flip: data_hash_loop_encodes)
qed

lemma AddBlock_intact:
  assumes "chain_ok L w" "intact w" "AddBlock L br w = (Ok (), w')"
  shows "intact w'"
  using AddBlock_ledger [OF assms(1,3)] AddBlock_replay(1) [OF assms(1,3)] assms(2)
  by (simp add: intact_def ledger_replay_snoc block_wires_data)

lemma ledger_ok_insert:
  assumes "gob_total L" "ledger_ok L w" "AddBlock L br w = (Ok (), w')"
  shows "ledger_ok L w'"
proof -
  note c = ledger_ok_chain_ok [OF assms(2)]
  have l: "ledger w' = ledger w @ [block_wires (w_heap w) br]"
    using AddBlock_ledger [OF c assms(3)] by simp
  from c assms(3) show ?thesis
  proof (cases rule: AddBlock_cases)
    case (added hr bh cs)
    have hr: "blk_Header (h_blocks (w_heap w) br) = Some hr" using added(2) by (simp add: storable_def)
    have "chain_headers (w_heap w) (w_bc w) \<noteq> []" using c by (simp add: chain_ok_def)
    moreover have "chain_headers (w_heap w') (w_bc w') = chain_headers (w_heap w) (w_bc w) @ [h_headers (w_heap w) hr]"
      by (rule AddBlock_headers [OF c assms(3)]) (simp add: block_header_def hr)
    ultimately have "committed L w'"
      using assms(2) verified_data_hash [OF assms(1) added(6) hr] AddBlock_chain_ok [OF c assms(3)]
      unfolding ledger_ok_def committed_def by (simp only: l tl_append2 map_append) simp
    moreover have "intact w'" using AddBlock_intact [OF c _ assms(3)] assms(2) by (simp add: ledger_ok_def)
    ultimately show ?thesis by (simp add: ledger_ok_def)
  qed simp
qed

lemma clean_step_ledger_ok:
  assumes "gob_total L" "clean_step L w w'" "ledger_ok L w"
  shows "ledger_ok L w'"
proof -
  from assms(2) have s: "ledger_step L w w'" "\<not> leaks L w w'" by (simp_all add: clean_step_def)
  note c = ledger_ok_chain_ok [OF assms(3)]
  show ?thesis
  proof (rule ledger_stepE [OF s(1)])
    fix br r
    assume a: "AddBlock L br w = (r, w')"
    show ?thesis
    proof (cases "r = Ok ()")
      case True
      with ledger_ok_insert [OF assms(1,3)] a show ?thesis by blast
    next
      case False
      with s(2) a have cs: "bc_cstate (w_bc w') = bc_cstate (w_bc w)" by (auto simp: leaks_def)
      from c a have q: "wquiet L w w'" by (cases rule: AddBlock_cases) (use False in auto)
      then have "w' = w\<lparr>w_heap := w_heap w'\<rparr>" using cs by (cases w'; cases w) (auto simp: wquiet_def)
      moreover have "heap_ok L (w_heap w')" using q c by (auto simp: wquiet_def quiet_heap_ok chain_ok_def)
      ultimately show ?thesis
        using ledger_ok_memory [OF assms(3)] quiet_keeps_ledger q by (metis wquiet_def)
    qed
  next
    fix h'
    assume "w' = w\<lparr>w_heap := h'\<rparr>" "heap_ok L h'" "keeps_ledger w h'"
    with ledger_ok_memory [OF assms(3)] show ?thesis by blast
  qed
qed

lemma clean_run_ledger_ok:
  "(clean_step L)\<^sup>*\<^sup>* w0 w \<Longrightarrow> gob_total L \<Longrightarrow> ledger_ok L w0 \<Longrightarrow> ledger_ok L w"
  by (induction rule: rtranclp_induct) (blast intro: clean_step_ledger_ok)+

lemma ledger_run_same_chain:
  assumes "(ledger_step L)\<^sup>*\<^sup>* w w'" "chain_ok L w" "w_bc w' = w_bc w"
  shows "ledger w' = ledger w"
  using ledger_run_prefix [OF assms(1,2)] length_ledger [of w] length_ledger [of w'] assms(3)
  by (metis prefix_def append_eq_conv_conj take_all_iff order_refl)

text \<open>A new chain has an empty ledger and an empty contract state.\<close>

definition new_chain :: "lib \<Rightarrow> world \<Rightarrow> bool" where
  "new_chain L w \<longleftrightarrow> chain_ok L w \<and> length (chain_refs (w_bc w)) = 1 \<and> bc_cstate (w_bc w) = NewState"

lemma new_chain_ledger_ok:
  assumes "new_chain L w"
  shows "ledger_ok L w"
  using assms
  by (cases "chain_refs (w_bc w)") (simp_all add: new_chain_def ledger_ok_def committed_def intact_def ledger_def ledger_replay_def)

lemma NewBlockchain_new_chain:
  assumes "NewBlockchain L g h = (Ok (), w)" "chain_ok L w" "heap_ok L h"
    "blk_Header (h_blocks h g) = Some hr" "header_hash L (h_headers h hr) = Some bh"
  shows "new_chain L w"
  using NewBlockchain_result [OF assms(3,4,5)] assms(1,2)
  by (auto simp: new_chain_def stored_def empty_chain_def newheaderStore_def)

subsection \<open>Properties\<close>

text \<open>Chains whose last headers have one hash have the same headers.\<close>

lemma same_tip_same_headers:
  assumes "chain_ok L w" "chain_ok L v"
    and tip: "header_hash L (last (chain_headers (w_heap w) (w_bc w))) = header_hash L (last (chain_headers (w_heap v) (w_bc v)))"
    and inj: "no_header_collision L (set (chain_headers (w_heap w) (w_bc w)) \<union> set (chain_headers (w_heap v) (w_bc v)))"
  shows "chain_headers (w_heap w) (w_bc w) = chain_headers (w_heap v) (w_bc v)"
proof -
  let ?xs = "chain_headers (w_heap w) (w_bc w)" and ?ys = "chain_headers (w_heap v) (w_bc v)"
  have ok: "?xs \<noteq> []" "?ys \<noteq> []" "linked L ?xs" "linked L ?ys"
    using assms(1,2) by (simp_all add: chain_ok_def chain_pre_def)
  have last: "last ?xs = last ?ys"
    using last_in_set [OF ok(1)] last_in_set [OF ok(2)]
    by (intro inj_onD [OF inj [unfolded no_header_collision_def] tip]) blast+
  have n: "unat (hd_Height (last zs)) = length zs - 1"
    if "zs \<noteq> []" "zs = chain_headers (w_heap u) (w_bc u)" "chain_ok L u" for zs u
  proof -
    have "length zs - 1 < length (chain_refs (w_bc u))" using that(1,2) by (cases zs) auto
    from nth_block_header(2) [OF that(3) this] show ?thesis
      unfolding that(2) [symmetric] last_conv_nth [OF that(1)] .
  qed
  have "length ?xs - 1 = length ?ys - 1"
    unfolding n [OF ok(1) refl assms(1), symmetric] n [OF ok(2) refl assms(2), symmetric] last ..
  moreover have "0 < length ?xs" "0 < length ?ys" using ok(1,2) by simp_all
  ultimately have len: "length ?xs = length ?ys" by linarith
  have l: "?xs ! (length ?xs - 1) = ?ys ! (length ?xs - 1)"
    using last unfolding last_conv_nth [OF ok(1)] last_conv_nth [OF ok(2)] len .
  show ?thesis
  proof (rule nth_equalityI [OF len])
    fix k
    assume "k < length ?xs"
    with linked_agree [OF ok(3,4) inj [unfolded no_header_collision_def], of "length ?xs - 1" k] l len
    show "?xs ! k = ?ys ! k" by simp
  qed
qed

text \<open>Equal data hashes give equal blocks, as long as the hash function has no collision on them.\<close>

lemma data_hashes_determine:
  assumes "gob_total L" "gob_streams (gob_tx L) dec" "map (data_hash L) ws = map (data_hash L) us"
    and "inj_on (sha256 L) (wires_bytes (gob_tx L) ` (set ws \<union> set us))"
  shows "map (map wire_sent) ws = map (map wire_sent) us"
proof -
  let ?b = "wires_bytes (gob_tx L)"
  have "map (sha256 L) (map ?b ws) = map (sha256 L) (map ?b us)" using assms(3) unfolding data_hash_def map_map o_def .
  moreover have "inj_on (sha256 L) (set (map ?b ws) \<union> set (map ?b us))" using assms(4) by (simp add: image_Un)
  ultimately have b: "map ?b ws = map ?b us" using inj_on_map_eq_map by blast
  then have len: "length ws = length us" by (rule map_eq_imp_length_eq)
  have "map wire_sent (ws ! k) = map wire_sent (us ! k)" if "k < length ws" for k
    using wires_bytes_inj [OF assms(2), of "ws ! k" "us ! k"] arg_cong [OF b, of "\<lambda>xs. xs ! k"] that len assms(1)
    by (simp add: gob_total_def)
  with len show ?thesis by (simp add: list_eq_iff_nth_eq)
qed

lemma committed_prefix:
  assumes "gob_total L" "gob_streams (gob_tx L) dec" "committed L w" "committed L v"
    and "prefix (chain_headers (w_heap w) (w_bc w)) (chain_headers (w_heap v) (w_bc v))"
    and inj: "inj_on (sha256 L) (wires_bytes (gob_tx L) ` (set (ledger w) \<union> set (ledger v)))"
  shows "prefix (map (map wire_sent) (ledger w)) (map (map wire_sent) (ledger v))"
proof -
  let ?n = "length (ledger w)"
  from assms(5) obtain zs where zs: "chain_headers (w_heap v) (w_bc v) = chain_headers (w_heap w) (w_bc w) @ zs"
    by (auto simp: prefix_def)
  have "chain_headers (w_heap w) (w_bc w) \<noteq> []" using committed_chain_ok [OF assms(3)] by (simp add: chain_ok_def)
  with assms(3,4) zs have "map (data_hash L) (ledger v) = map (data_hash L) (ledger w) @ map hd_DataHash zs"
    unfolding committed_def by (metis map_append tl_append2)
  then have "take ?n (map (data_hash L) (ledger v)) = map (data_hash L) (ledger w)" by simp
  then have "map (data_hash L) (ledger w) = map (data_hash L) (take ?n (ledger v))" by (simp add: take_map)
  moreover have "inj_on (sha256 L) (wires_bytes (gob_tx L) ` (set (ledger w) \<union> set (take ?n (ledger v))))"
    by (rule inj_on_subset [OF inj]) (use set_take_subset in fastforce)
  ultimately have "map (map wire_sent) (ledger w) = map (map wire_sent) (take ?n (ledger v))"
    by (rule data_hashes_determine [OF assms(1,2)])
  then have "map (map wire_sent) (ledger w) = take ?n (map (map wire_sent) (ledger v))" by (simp add: take_map)
  then show ?thesis by (metis take_is_prefix)
qed

lemma sent_replay:
  "map (map wire_sent) ws = map (map wire_sent) us \<Longrightarrow> ledger_replay ws = ledger_replay us"
proof -
  assume s: "map (map wire_sent) ws = map (map wire_sent) us"
  have "fst \<circ> wire_sent = fst" by (simp add: wire_sent_def fun_eq_iff split: prod.split)
  then have d: "map fst (concat xs) = map fst (concat (map (map wire_sent) xs))" for xs
    by (simp add: map_concat)
  show ?thesis unfolding ledger_replay_def d [of ws] d [of us] s ..
qed

text \<open>
  C6: the hash of the last header determines the ledger and the contract state. Two nodes
  start with a new chain each and take any sequence of steps in which no refused block
  leaves its writes behind. When the last headers of their chains have the same hash, they
  have the same headers, the same transactions in the same blocks (an empty signature
  counts as none), and the same contract state, if no two of the headers and no two of
  the transaction lists collide.
\<close>

theorem tip_hash_determines_contract_state:
  assumes "gob_total L" "gob_streams (gob_tx L) dec" "new_chain L w0" "new_chain L v0"
    and "(clean_step L)\<^sup>*\<^sup>* w0 w" "(clean_step L)\<^sup>*\<^sup>* v0 v"
    and "header_hash L (last (chain_headers (w_heap w) (w_bc w))) = header_hash L (last (chain_headers (w_heap v) (w_bc v)))"
    and "no_header_collision L (set (chain_headers (w_heap w) (w_bc w)) \<union> set (chain_headers (w_heap v) (w_bc v)))"
    and "inj_on (sha256 L) (wires_bytes (gob_tx L) ` (set (ledger w) \<union> set (ledger v)))"
  shows "chain_headers (w_heap w) (w_bc w) = chain_headers (w_heap v) (w_bc v) \<and>
    map (map wire_sent) (ledger w) = map (map wire_sent) (ledger v) \<and>
    ledger_replay (ledger w) = Some (bc_cstate (w_bc w)) \<and> bc_cstate (w_bc w) = bc_cstate (w_bc v)"
proof -
  have ok: "ledger_ok L w" "ledger_ok L v"
    using clean_run_ledger_ok assms(1,3-6) new_chain_ledger_ok by blast+
  then have c: "committed L w" "committed L v" by (simp_all add: ledger_ok_def)
  note h = same_tip_same_headers [OF committed_chain_ok [OF c(1)] committed_chain_ok [OF c(2)] assms(7,8)]
  have "map (data_hash L) (ledger w) = map (data_hash L) (ledger v)"
    using c h unfolding committed_def by metis
  from data_hashes_determine [OF assms(1,2) this assms(9)]
  have s: "map (map wire_sent) (ledger w) = map (map wire_sent) (ledger v)" .
  with sent_replay [OF s] h ok show ?thesis by (simp add: ledger_ok_def intact_def)
qed

theorem tip_hash_determines_contract_state_witness:
  "\<exists>w0 v0 w v. new_chain demo_lib w0 \<and> new_chain demo_lib v0 \<and> w0 \<noteq> v0 \<and>
     AddBlock demo_lib 1 w0 = (Ok (), w) \<and> AddBlock demo_lib 1 v0 = (Ok (), v) \<and>
     ledger w = [[tx_wire (example_tx 1)]] \<and>
     ledger_replay (ledger w) = Some (bc_cstate (w_bc w)) \<and> bc_cstate (w_bc w) = bc_cstate (w_bc v)"
proof -
  obtain w0 v0 w v where e: "chain_ok demo_lib w0" "chain_ok demo_lib v0"
    "chain_refs (w_bc w0) = [0]" "bc_cstate (w_bc w0) = NewState"
    "quiet demo_lib (w_heap w0) (w_heap v0)" "w_bc v0 = w_bc w0"
    "blk_Transactions (h_blocks (w_heap w0) 1) = [1]" "h_txs (w_heap w0) 1 = example_tx 1"
    "tx_hasher (h_txs (w_heap w0) 1) = None" "tx_hasher (h_txs (w_heap v0) 1) = Some DefaultTxHasher"
    "next_block demo_lib w0 1 (example_header 1)"
    "AddBlock demo_lib 1 w0 = (Ok (), w)" "AddBlock demo_lib 1 v0 = (Ok (), v)"
    by (rule example_two_nodes)
  have new: "new_chain demo_lib w0" "new_chain demo_lib v0" using e(1-4,6) by (simp_all add: new_chain_def)
  have g: "gob_total demo_lib" by (rule demo_lib_contracts)
  have wires: "block_wires (w_heap w0) 1 = [tx_wire (example_tx 1)]" using e(7,8) by (simp add: block_wires_def)
  have empty: "ledger w0 = []" "ledger v0 = []" using e(3,6) by (simp_all add: ledger_def)
  have lw: "ledger w = [[tx_wire (example_tx 1)]]" and lv: "ledger v = [[tx_wire (example_tx 1)]]"
    using AddBlock_ledger [OF e(1,12)] AddBlock_ledger [OF e(2,13)] empty wires block_wires_quiet [OF e(5)]
    by simp_all
  have run: "(clean_step demo_lib)\<^sup>*\<^sup>* w0 w" "(clean_step demo_lib)\<^sup>*\<^sup>* v0 v"
    using accepted_is_clean [OF e(1,12)] accepted_is_clean [OF e(2,13)] by simp_all
  let ?g = "h_headers (w_heap w0) 0" and ?x = "example_header 1"
  have "next_block demo_lib v0 1 ?x" using e(11) next_block_quiet [OF e(5,6)] by simp
  with e(11) have x: "block_header (w_heap w0) 1 = Ok ?x" "block_header (w_heap v0) 1 = Ok ?x"
    by (simp_all add: next_block_def)
  have hw: "chain_headers (w_heap w) (w_bc w) = [?g, ?x]" "chain_headers (w_heap v) (w_bc v) = [?g, ?x]"
    using AddBlock_headers [OF e(1,12) x(1)] AddBlock_headers [OF e(2,13) x(2)] e(3,6) quiet_block(3) [OF e(5)]
    by simp_all
  have "linked demo_lib [?g, ?x]"
    using AddBlock_chain_ok [OF e(1,12)] hw(1) by (simp add: chain_ok_def chain_pre_def)
  then have "header_hash demo_lib ?g = Some genesis_hash"
    by (simp add: linked_def) (simp add: example_header_def)
  with example_hash_differs [of 1] have "no_header_collision demo_lib {?g, ?x}"
    by (auto simp: no_header_collision_def)
  with tip_hash_determines_contract_state [OF g demo_lib_streams new run] hw lw lv
  have "ledger_replay (ledger w) = Some (bc_cstate (w_bc w)) \<and> bc_cstate (w_bc w) = bc_cstate (w_bc v)"
    by simp
  moreover have "w0 \<noteq> v0" using e(9,10) by auto
  ultimately show ?thesis using new e(12,13) lw by blast
qed

end
