(* ===== verification/Server_TxPool.thy ===== *)
theory Server_TxPool
  imports Core_Transaction Types_List "HOL-Library.Sublist"
begin

section \<open>The transaction pool\<close>

text \<open>
  Models \<^verbatim>\<open>server/txpool.go\<close>: a map of transactions by hash that keeps the order of
  insertion, and the pool of two such maps, one of the pending transactions and one of all
  it has seen. The operations run on the pool and the memory, because adding a transaction
  sets its hasher and fills its hash. Each operation of a map runs under the lock of the
  map; an operation of the pool is one step of the model, so an interleaving of \<^verbatim>\<open>Add\<close>
  with itself, which the server does not have, is not covered.
\<close>

subsection \<open>The ordered map\<close>

record tx_ordered_map =
  tm_lookup :: "hash \<rightharpoonup> ref"
  tm_txns :: "ref golist"

record pool =
  tp_all :: tx_ordered_map
  tp_pending :: tx_ordered_map
  tp_max :: int
  tp_hasher :: "tx_hasher option"

record pool_state =
  ps_heap :: heap
  ps_pool :: pool

definition NewTxOrderedMap :: tx_ordered_map where
  "NewTxOrderedMap = \<lparr>tm_lookup = Map.empty, tm_txns = NewList\<rparr>"

definition TM_Len :: "tx_ordered_map \<Rightarrow> int" where
  "TM_Len m = List_Len (tm_txns m)"

definition TM_Contains :: "hash \<Rightarrow> tx_ordered_map \<Rightarrow> bool" where
  "TM_Contains h m \<longleftrightarrow> tm_lookup m h \<noteq> None"

definition TM_First :: "tx_ordered_map \<Rightarrow> ref result" where
  "TM_First m = List_Get (tm_txns m) 0"

definition TM_Get :: "hash \<Rightarrow> tx_ordered_map \<Rightarrow> ref option" where
  "TM_Get h m = tm_lookup m h"

definition TM_Clear :: "tx_ordered_map \<Rightarrow> tx_ordered_map" where
  "TM_Clear m = m\<lparr>tm_lookup := Map.empty, tm_txns := List_Clear (tm_txns m)\<rparr>"

text \<open>Adding asks the transaction for its hash; removing compares in the memory.\<close>

definition TM_Add :: "lib \<Rightarrow> ref \<Rightarrow> (heap \<times> tx_ordered_map, unit) go" where
  "TM_Add L tr = sbind (szoom fst (\<lambda>h (_, m). (h, m)) (on_tx tr (Tx_Hash L))) (\<lambda>x.
     smodify (\<lambda>(h, m). (h, m\<lparr>tm_lookup := (tm_lookup m)(x \<mapsto> tr), tm_txns := List_Append tr (tm_txns m)\<rparr>)))"

definition TM_Remove :: "hash \<Rightarrow> heap \<Rightarrow> tx_ordered_map \<Rightarrow> tx_ordered_map" where
  "TM_Remove x h m = (case tm_lookup m x of
     None \<Rightarrow> m
   | Some v \<Rightarrow> m\<lparr>tm_txns := List_Delete (deep_equal_tx h) v (tm_txns m),
                 tm_lookup := (tm_lookup m)(x := None)\<rparr>)"

subsection \<open>The pool\<close>

definition MaxPoolDepth :: "int \<Rightarrow> pool \<Rightarrow> pool" where
  "MaxPoolDepth n p = p\<lparr>tp_max := n\<rparr>"

definition WithHasher :: "tx_hasher option \<Rightarrow> pool \<Rightarrow> pool" where
  "WithHasher hs p = p\<lparr>tp_hasher := hs\<rparr>"

definition NewTxPool :: "(pool \<Rightarrow> pool) list \<Rightarrow> pool" where
  "NewTxPool opts = fold (\<lambda>opt p. opt p) opts
     \<lparr>tp_all = NewTxOrderedMap, tp_pending = NewTxOrderedMap, tp_max = 1000,
      tp_hasher = Some DefaultTxHasher\<rparr>"

definition Pool_Pending :: "pool \<Rightarrow> ref list" where
  "Pool_Pending p = List_Slice (tm_txns (tp_pending p))"

definition Pool_PendingCount :: "pool \<Rightarrow> int" where
  "Pool_PendingCount p = TM_Len (tp_pending p)"

definition Pool_ClearPending :: "pool \<Rightarrow> pool" where
  "Pool_ClearPending p = p\<lparr>tp_pending := TM_Clear (tp_pending p)\<rparr>"

definition Pool_Contains :: "hash \<Rightarrow> pool \<Rightarrow> bool" where
  "Pool_Contains x p = TM_Contains x (tp_pending p)"

abbreviation on_pool_tx :: "ref \<Rightarrow> (transaction, 'a) go \<Rightarrow> (pool_state, 'a) go" where
  "on_pool_tx r m \<equiv> szoom ps_heap (\<lambda>h s. s\<lparr>ps_heap := h\<rparr>) (on_tx r m)"

abbreviation on_all :: "(heap \<times> tx_ordered_map, 'a) go \<Rightarrow> (pool_state, 'a) go" where
  "on_all \<equiv> szoom (\<lambda>s. (ps_heap s, tp_all (ps_pool s)))
     (\<lambda>(h, m) s. s\<lparr>ps_heap := h, ps_pool := (ps_pool s)\<lparr>tp_all := m\<rparr>\<rparr>)"

abbreviation on_pending :: "(heap \<times> tx_ordered_map, 'a) go \<Rightarrow> (pool_state, 'a) go" where
  "on_pending \<equiv> szoom (\<lambda>s. (ps_heap s, tp_pending (ps_pool s)))
     (\<lambda>(h, m) s. s\<lparr>ps_heap := h, ps_pool := (ps_pool s)\<lparr>tp_pending := m\<rparr>\<rparr>)"

abbreviation on_remove :: "hash \<Rightarrow> (heap \<times> tx_ordered_map, unit) go" where
  "on_remove x \<equiv> smodify (\<lambda>(h, m). (h, TM_Remove x h m))"

text \<open>
  The pruning before an insertion: when the map of all transactions is full, the oldest
  goes. The log message asks both transactions for their hashes.
\<close>

definition prune :: "lib \<Rightarrow> ref \<Rightarrow> (pool_state, unit) go" where
  "prune L tr = (\<lambda>s.
     if TM_Len (tp_all (ps_pool s)) = tp_max (ps_pool s) then
       sbind (sread (\<lambda>s. TM_First (tp_all (ps_pool s)))) (\<lambda>first.
       sbind (on_pool_tx first (Tx_Hash L)) (\<lambda>_.
       sbind (on_pool_tx tr (Tx_Hash L)) (\<lambda>_.
       sbind (on_pool_tx first (Tx_Hash L)) (\<lambda>x.
         on_all (on_remove x))))) s
     else (Ok (), s))"

text \<open>The deferred function: after an error of an insertion the hash leaves both maps.\<close>

definition with_rollback :: "hash \<Rightarrow> (pool_state, 'a) go \<Rightarrow> (pool_state, 'a) go" where
  "with_rollback x m = (\<lambda>s. case m s of
     (Err e, s') \<Rightarrow> sbind (on_all (on_remove x)) (\<lambda>_. sbind (on_pending (on_remove x)) (\<lambda>_. sfail e)) s'
   | out \<Rightarrow> out)"

definition Pool_Add :: "lib \<Rightarrow> ref \<Rightarrow> (pool_state, bool) go" where
  "Pool_Add L tr = (\<lambda>s.
     if TM_Len (tp_pending (ps_pool s)) = tp_max (ps_pool s) then (Err PoolFull, s)
     else
       sbind (on_pool_tx tr (Tx_SetHasher (tp_hasher (ps_pool s)))) (\<lambda>_.
       sbind (on_pool_tx tr (Tx_Hash L)) (\<lambda>txHash.
       sbind (sget (\<lambda>s. Pool_Contains txHash (ps_pool s))) (\<lambda>known.
         if known then sret False
         else sbind (prune L tr) (\<lambda>_.
           with_rollback txHash
             (sbind (on_all (TM_Add L tr)) (\<lambda>_. sbind (on_pending (TM_Add L tr)) (\<lambda>_. sret True))))))) s)"

subsection \<open>The interface: a bounded queue without duplicates\<close>

text \<open>
  What a client of the pool relies on: adding an element to a full queue fails, adding one
  whose key is queued does nothing, and any other goes to the end.
\<close>

locale bounded_key_queue =
  fixes add :: "'e \<Rightarrow> ('s, bool) go"
    and items :: "'s \<Rightarrow> 'e list"
    and key :: "'s \<Rightarrow> 'e \<Rightarrow> 'k"
    and cap :: "'s \<Rightarrow> nat"
    and valid :: "'s \<Rightarrow> bool"
    and full :: goerror
  assumes add_outcome: "valid s \<Longrightarrow> \<exists>s'. valid s' \<and> cap s' = cap s \<and> key s' = key s \<and>
      add e s = (if length (items s) = cap s then Err full
                 else Ok (key s e \<notin> key s ` set (items s)), s') \<and>
      items s' = (if length (items s) = cap s \<or> key s e \<in> key s ` set (items s) then items s
                  else items s @ [e])"
    and valid_items: "valid s \<Longrightarrow> length (items s) \<le> cap s \<and> distinct (map (key s) (items s))"
begin

text \<open>The elements a sequence of additions leaves, errors ignored.\<close>

fun add_all :: "'e list \<Rightarrow> 's \<Rightarrow> 's" where
  "add_all [] s = s"
| "add_all (e # es) s = add_all es (snd (add e s))"

lemma add_all_valid:
  "valid s \<Longrightarrow> valid (add_all es s) \<and> cap (add_all es s) = cap s \<and> key (add_all es s) = key s \<and>
   (\<exists>new. items (add_all es s) = items s @ new \<and> subseq new es)"
proof (induction es arbitrary: s)
  case (Cons e es)
  from add_outcome [OF Cons.prems, of e] obtain s' where s': "valid s'" "cap s' = cap s" "key s' = key s"
    "snd (add e s) = s'" "items s' = items s \<or> items s' = items s @ [e]" by auto
  from Cons.IH [OF s'(1)] obtain new where n: "items (add_all es s') = items s' @ new" "subseq new es" by blast
  with s'(5) have "\<exists>new. items (add_all es s') = items s @ new \<and> subseq new (e # es)" by auto
  with Cons.IH [OF s'(1)] s' show ?case by simp
qed simp

lemma add_all_distinct:
  assumes "valid s" "distinct (map (key s) (items s @ es))" "length (items s @ es) \<le> cap s"
  shows "items (add_all es s) = items s @ es"
  using assms
proof (induction es arbitrary: s)
  case (Cons e es)
  from add_outcome [OF Cons.prems(1), of e] Cons.prems(2,3) obtain s' where s': "valid s'" "cap s' = cap s"
    "key s' = key s" "snd (add e s) = s'" "items s' = items s @ [e]" by auto
  have "items (add_all es s') = items s' @ es"
    by (rule Cons.IH [OF s'(1)]) (use s' Cons.prems in auto)
  with s' show ?case by simp
qed simp

end

subsection \<open>The pool keeps the interface\<close>

interpretation txeq: deep_eq "deep_equal_tx h" for h
  by unfold_locales (auto simp: deep_equal_tx_def)

definition pool_key :: "lib \<Rightarrow> pool_state \<Rightarrow> ref \<Rightarrow> hash" where
  "pool_key L s r = sha256 L (tx_Data (h_txs (ps_heap s) r))"

definition pool_items :: "pool_state \<Rightarrow> ref list" where
  "pool_items s = Pool_Pending (ps_pool s)"

definition pool_seen :: "pool_state \<Rightarrow> ref list" where
  "pool_seen s = l_data (tm_txns (tp_all (ps_pool s)))"

text \<open>
  A pool is well formed when its bound is not negative and holds, the lookup of the pending
  map knows exactly the hashes of its transactions, which are distinct, every transaction
  it holds has a hasher, and no cached hash in the memory is wrong.
\<close>

definition pool_ok :: "lib \<Rightarrow> pool_state \<Rightarrow> bool" where
  "pool_ok L s \<longleftrightarrow> (\<forall>r. tx_cache_ok L (h_txs (ps_heap s) r)) \<and> tp_hasher (ps_pool s) \<noteq> None \<and>
     0 \<le> tp_max (ps_pool s) \<and> int (length (pool_items s)) \<le> tp_max (ps_pool s) \<and>
     distinct (map (pool_key L s) (pool_items s)) \<and>
     dom (tm_lookup (tp_pending (ps_pool s))) = pool_key L s ` set (pool_items s) \<and>
     (\<forall>r \<in> set (pool_items s) \<union> set (pool_seen s). tx_hasher (h_txs (ps_heap s) r) \<noteq> None)"

text \<open>Changes of the memory that keep data, hashers and right caches.\<close>

definition tx_quiet :: "lib \<Rightarrow> heap \<Rightarrow> heap \<Rightarrow> bool" where
  "tx_quiet L h h' \<longleftrightarrow> (\<forall>r. tx_Data (h_txs h' r) = tx_Data (h_txs h r) \<and>
     (tx_hasher (h_txs h r) \<noteq> None \<longrightarrow> tx_hasher (h_txs h' r) \<noteq> None) \<and>
     (tx_cache_ok L (h_txs h r) \<longrightarrow> tx_cache_ok L (h_txs h' r)))"

lemma tx_quiet_refl [simp]: "tx_quiet L h h"
  by (simp add: tx_quiet_def)

lemma tx_quiet_trans: "tx_quiet L h h1 \<Longrightarrow> tx_quiet L h1 h2 \<Longrightarrow> tx_quiet L h h2"
  by (simp add: tx_quiet_def)

lemma on_tx_Hash_ok:
  assumes "tx_cache_ok L (h_txs h r)" "tx_hasher (h_txs h r) \<noteq> None"
  shows "\<exists>h'. on_tx r (Tx_Hash L) h = (Ok (sha256 L (tx_Data (h_txs h r))), h') \<and> tx_quiet L h h'"
  using Tx_Hash_Ok [OF assms]
  by (auto simp: on_tx_def szoom_def tx_quiet_def tx_wire_def)

lemma on_tx_SetHasher_ok:
  "on_tx r (Tx_SetHasher (Some hs)) h =
     (Ok (), h\<lparr>h_txs := (h_txs h)(r := (h_txs h r)\<lparr>tx_hasher := Some hs\<rparr>)\<rparr>) \<and>
   tx_quiet L h (h\<lparr>h_txs := (h_txs h)(r := (h_txs h r)\<lparr>tx_hasher := Some hs\<rparr>)\<rparr>)"
  by (simp add: on_tx_def szoom_def Tx_SetHasher_def go_simps tx_quiet_def tx_cache_ok_def)

definition appended :: "hash \<Rightarrow> ref \<Rightarrow> tx_ordered_map \<Rightarrow> tx_ordered_map" where
  "appended k tr m = m\<lparr>tm_lookup := (tm_lookup m)(k \<mapsto> tr), tm_txns := List_Append tr (tm_txns m)\<rparr>"

lemma TM_Add_ok:
  assumes "tx_cache_ok L (h_txs h r)" "tx_hasher (h_txs h r) \<noteq> None"
  shows "\<exists>h'. tx_quiet L h h' \<and>
    TM_Add L r (h, m) = (Ok (), (h', appended (sha256 L (tx_Data (h_txs h r))) r m))"
  using on_tx_Hash_ok [OF assms]
  by (auto simp: appended_def TM_Add_def sbind_def szoom_def smodify_def)

lemma TM_Remove_subset: "set (l_data (tm_txns (TM_Remove x h m))) \<subseteq> set (l_data (tm_txns m))"
  using txeq.delete_subset by (auto simp: TM_Remove_def split: option.split)

text \<open>What pruning makes of the map of all transactions, in some memory \<open>h\<close>.\<close>

definition pruned :: "lib \<Rightarrow> pool_state \<Rightarrow> heap \<Rightarrow> tx_ordered_map" where
  "pruned L s h = (if int (length (pool_seen s)) = tp_max (ps_pool s)
     then TM_Remove (pool_key L s (hd (pool_seen s))) h (tp_all (ps_pool s)) else tp_all (ps_pool s))"

lemma pruned_subset: "set (l_data (tm_txns (pruned L s h))) \<subseteq> set (pool_seen s)"
  using TM_Remove_subset by (auto simp: pruned_def pool_seen_def)

lemma prune_ok:
  assumes "\<forall>r. tx_cache_ok L (h_txs (ps_heap s) r)" "0 < tp_max (ps_pool s)"
    and "\<forall>r \<in> insert tr (set (pool_seen s)). tx_hasher (h_txs (ps_heap s) r) \<noteq> None"
  shows "\<exists>h' h. tx_quiet L (ps_heap s) h' \<and>
    prune L tr s = (Ok (), s\<lparr>ps_heap := h', ps_pool := (ps_pool s)\<lparr>tp_all := pruned L s h\<rparr>\<rparr>)"
proof (cases "TM_Len (tp_all (ps_pool s)) = tp_max (ps_pool s)")
  case False
  then show ?thesis
    by (intro exI [of _ "ps_heap s"]) (simp add: prune_def pruned_def pool_seen_def TM_Len_def List_Len_def)
next
  case True
  let ?h = "ps_heap s"
  from True assms(2) obtain x xs where xs: "pool_seen s = x # xs"
    by (cases "pool_seen s") (auto simp: TM_Len_def List_Len_def pool_seen_def)
  then have f: "TM_First (tp_all (ps_pool s)) = Ok x"
    by (simp add: TM_First_def List_Get_def pool_seen_def go_index_def)
  let ?k = "\<lambda>r. sha256 L (tx_Data (h_txs ?h r))"
  have "tx_hasher (h_txs ?h x) \<noteq> None" "tx_hasher (h_txs ?h tr) \<noteq> None" using assms(3) xs by auto
  with assms(1) obtain h1 where h1: "on_tx x (Tx_Hash L) ?h = (Ok (?k x), h1)" "tx_quiet L ?h h1"
    using on_tx_Hash_ok [of L ?h x] by blast
  then obtain h2 where h2: "on_tx tr (Tx_Hash L) h1 = (Ok (?k tr), h2)" "tx_quiet L h1 h2"
    using on_tx_Hash_ok [of L h1 tr] assms(1) \<open>tx_hasher (h_txs ?h tr) \<noteq> None\<close> by (auto simp: tx_quiet_def)
  then have q2: "tx_quiet L ?h h2" using tx_quiet_trans h1(2) by blast
  then obtain h3 where h3: "on_tx x (Tx_Hash L) h2 = (Ok (?k x), h3)" "tx_quiet L h2 h3"
    using on_tx_Hash_ok [of L h2 x] assms(1) \<open>tx_hasher (h_txs ?h x) \<noteq> None\<close> by (auto simp: tx_quiet_def)
  have "pruned L s h3 = TM_Remove (?k x) h3 (tp_all (ps_pool s))"
    using True xs by (simp add: pruned_def TM_Len_def List_Len_def pool_key_def) (simp add: pool_seen_def)
  with True have "prune L tr s = (Ok (), s\<lparr>ps_heap := h3, ps_pool := (ps_pool s)\<lparr>tp_all := pruned L s h3\<rparr>\<rparr>)"
    by (simp add: prune_def sbind_def sread_def f szoom_def h1 h2 h3 smodify_def)
  moreover have "tx_quiet L ?h h3" using q2 h3(2) by (rule tx_quiet_trans)
  ultimately show ?thesis by blast
qed

text \<open>The three outcomes of an addition to a well-formed pool.\<close>

lemma Pool_Add_full:
  assumes "int (length (pool_items s)) = tp_max (ps_pool s)"
  shows "Pool_Add L tr s = (Err PoolFull, s)"
  using assms by (simp add: Pool_Add_def TM_Len_def List_Len_def pool_items_def Pool_Pending_def List_Slice_def)

lemma pool_key_quiet: "tx_quiet L (ps_heap s) (ps_heap s') \<Longrightarrow> pool_key L s' = pool_key L s"
  by (simp add: pool_key_def tx_quiet_def fun_eq_iff)

text \<open>The entry of a transaction in both maps.\<close>

lemma enter_ok:
  assumes "tx_cache_ok L (h_txs (ps_heap s) tr)" "tx_hasher (h_txs (ps_heap s) tr) \<noteq> None"
  shows "\<exists>h'. tx_quiet L (ps_heap s) h' \<and>
    with_rollback k (sbind (on_all (TM_Add L tr)) (\<lambda>_. sbind (on_pending (TM_Add L tr)) (\<lambda>_. sret True))) s =
      (Ok True, s\<lparr>ps_heap := h', ps_pool := (ps_pool s)
         \<lparr>tp_all := appended (pool_key L s tr) tr (tp_all (ps_pool s)),
          tp_pending := appended (pool_key L s tr) tr (tp_pending (ps_pool s))\<rparr>\<rparr>)"
proof -
  let ?k = "pool_key L s tr"
  obtain h4 where h4: "tx_quiet L (ps_heap s) h4"
    "TM_Add L tr (ps_heap s, tp_all (ps_pool s)) = (Ok (), (h4, appended ?k tr (tp_all (ps_pool s))))"
    using TM_Add_ok [OF assms] by (auto simp: pool_key_def)
  then have "tx_cache_ok L (h_txs h4 tr)" "tx_hasher (h_txs h4 tr) \<noteq> None" "sha256 L (tx_Data (h_txs h4 tr)) = ?k"
    using assms by (auto simp: tx_quiet_def pool_key_def)
  then obtain h5 where h5: "tx_quiet L h4 h5"
    "TM_Add L tr (h4, tp_pending (ps_pool s)) = (Ok (), (h5, appended ?k tr (tp_pending (ps_pool s))))"
    using TM_Add_ok [of L h4 tr] by auto
  with h4 tx_quiet_trans [OF h4(1) h5(1)] show ?thesis
    by (intro exI [of _ h5]) (simp add: sbind_def with_rollback_def szoom_def sret_def)
qed

lemma Pool_Add_room:
  assumes ok: "pool_ok L s" and room: "int (length (pool_items s)) \<noteq> tp_max (ps_pool s)"
  shows "\<exists>s'. Pool_Add L tr s = (Ok (pool_key L s tr \<notin> pool_key L s ` set (pool_items s)), s') \<and>
    tx_quiet L (ps_heap s) (ps_heap s') \<and> tp_max (ps_pool s') = tp_max (ps_pool s) \<and>
    tp_hasher (ps_pool s') = tp_hasher (ps_pool s) \<and> tx_hasher (h_txs (ps_heap s') tr) \<noteq> None \<and>
    (if pool_key L s tr \<in> pool_key L s ` set (pool_items s)
     then tp_pending (ps_pool s') = tp_pending (ps_pool s) \<and> tp_all (ps_pool s') = tp_all (ps_pool s)
     else (\<exists>h. tp_all (ps_pool s') = appended (pool_key L s tr) tr (pruned L s h)) \<and>
       tp_pending (ps_pool s') = appended (pool_key L s tr) tr (tp_pending (ps_pool s)))"
proof -
  let ?h = "ps_heap s" and ?p = "ps_pool s" and ?k = "pool_key L s tr"
  from ok obtain hs where hs: "tp_hasher ?p = Some hs" by (auto simp: pool_ok_def)
  let ?h1 = "?h\<lparr>h_txs := (h_txs ?h)(tr := (h_txs ?h tr)\<lparr>tx_hasher := Some hs\<rparr>)\<rparr>"
  note q1 = on_tx_SetHasher_ok [of tr hs ?h L]
  have c: "\<forall>r. tx_cache_ok L (h_txs ?h r)" using ok by (simp add: pool_ok_def)
  then have c1: "tx_cache_ok L (h_txs ?h1 tr)" using q1 unfolding tx_quiet_def by blast
  obtain h2 where h2: "on_tx tr (Tx_Hash L) ?h1 = (Ok ?k, h2)" "tx_quiet L ?h1 h2"
    using on_tx_Hash_ok [OF c1] by (auto simp: pool_key_def)
  have q2: "tx_quiet L ?h h2" using q1 h2(2) tx_quiet_trans by blast
  have t2: "tx_hasher (h_txs h2 tr) \<noteq> None" using h2(2) by (simp add: tx_quiet_def)
  let ?s2 = "s\<lparr>ps_heap := h2\<rparr>"
  have known: "Pool_Contains ?k ?p \<longleftrightarrow> ?k \<in> pool_key L s ` set (pool_items s)"
    using ok by (auto simp: Pool_Contains_def TM_Contains_def pool_ok_def dom_def)
  have ne: "TM_Len (tp_pending ?p) \<noteq> tp_max ?p"
    using room by (simp add: TM_Len_def List_Len_def pool_items_def Pool_Pending_def List_Slice_def)
  have start: "Pool_Add L tr s = (if Pool_Contains ?k ?p then sret False
      else sbind (prune L tr) (\<lambda>_. with_rollback ?k
        (sbind (on_all (TM_Add L tr)) (\<lambda>_. sbind (on_pending (TM_Add L tr)) (\<lambda>_. sret True))))) ?s2"
    using ne by (simp add: Pool_Add_def sbind_def sget_def szoom_def hs q1 h2)
  show ?thesis
  proof (cases "Pool_Contains ?k ?p")
    case True
    with start q2 t2 known show ?thesis by (simp add: sret_def)
  next
    case False
    have "tx_cache_ok L (h_txs h2 r)" for r using q2 c by (simp add: tx_quiet_def)
    moreover have "\<forall>r \<in> insert tr (set (pool_seen s)). tx_hasher (h_txs h2 r) \<noteq> None"
      using ok t2 q2 by (auto simp: pool_ok_def tx_quiet_def)
    moreover have "0 < tp_max ?p" using ok room by (auto simp: pool_ok_def)
    ultimately obtain h3 h where h3: "tx_quiet L h2 h3"
      "prune L tr ?s2 = (Ok (), ?s2\<lparr>ps_heap := h3, ps_pool := ?p\<lparr>tp_all := pruned L ?s2 h\<rparr>\<rparr>)"
      using prune_ok [of L ?s2 tr] by (auto simp: pool_seen_def)
    have m: "pruned L ?s2 h = pruned L s h"
      using q2 by (simp add: pruned_def pool_seen_def pool_key_def tx_quiet_def)
    have q3: "tx_quiet L ?h h3" using q2 h3(1) by (rule tx_quiet_trans)
    let ?s3 = "?s2\<lparr>ps_heap := h3, ps_pool := ?p\<lparr>tp_all := pruned L s h\<rparr>\<rparr>"
    have t3: "tx_cache_ok L (h_txs (ps_heap ?s3) tr)" "tx_hasher (h_txs (ps_heap ?s3) tr) \<noteq> None"
      "pool_key L ?s3 tr = ?k"
      using q3 h3(1) t2 c by (auto simp: tx_quiet_def pool_key_def)
    from enter_ok [OF t3(1,2), of ?k, unfolded t3(3)] obtain h5 where h5: "tx_quiet L h3 h5"
      "with_rollback ?k (sbind (on_all (TM_Add L tr)) (\<lambda>_. sbind (on_pending (TM_Add L tr)) (\<lambda>_. sret True))) ?s3 =
        (Ok True, ?s3\<lparr>ps_heap := h5, ps_pool := (ps_pool ?s3)\<lparr>tp_all := appended ?k tr (pruned L s h),
           tp_pending := appended ?k tr (tp_pending ?p)\<rparr>\<rparr>)"
      by auto
    have "Pool_Add L tr s = (Ok True, ?s3\<lparr>ps_heap := h5, ps_pool := (ps_pool ?s3)
        \<lparr>tp_all := appended ?k tr (pruned L s h), tp_pending := appended ?k tr (tp_pending ?p)\<rparr>\<rparr>)"
      using start False h3(2) h5(2) by (simp add: sbind_Ok m)
    moreover have "tx_hasher (h_txs h5 tr) \<noteq> None" using h5(1) t3(2) by (simp add: tx_quiet_def)
    ultimately show ?thesis
      using False known tx_quiet_trans [OF q3 h5(1)] by auto
  qed
qed

lemma Pool_Add_ok:
  assumes "pool_ok L s"
  shows "pool_ok L (snd (Pool_Add L tr s)) \<and> pool_key L (snd (Pool_Add L tr s)) = pool_key L s \<and>
    tp_max (ps_pool (snd (Pool_Add L tr s))) = tp_max (ps_pool s) \<and>
    fst (Pool_Add L tr s) = (if int (length (pool_items s)) = tp_max (ps_pool s) then Err PoolFull
      else Ok (pool_key L s tr \<notin> pool_key L s ` set (pool_items s))) \<and>
    pool_items (snd (Pool_Add L tr s)) =
      (if int (length (pool_items s)) = tp_max (ps_pool s) \<or> pool_key L s tr \<in> pool_key L s ` set (pool_items s)
       then pool_items s else pool_items s @ [tr])"
proof (cases "int (length (pool_items s)) = tp_max (ps_pool s)")
  case True
  with Pool_Add_full [OF True] assms show ?thesis by simp
next
  case False
  let ?new = "pool_key L s tr \<notin> pool_key L s ` set (pool_items s)"
  from Pool_Add_room [OF assms False, of tr] obtain s' where s': "Pool_Add L tr s = (Ok ?new, s')"
    "tx_quiet L (ps_heap s) (ps_heap s')" "tp_max (ps_pool s') = tp_max (ps_pool s)"
    "tp_hasher (ps_pool s') = tp_hasher (ps_pool s)" "tx_hasher (h_txs (ps_heap s') tr) \<noteq> None"
    "\<not> ?new \<longrightarrow> tp_pending (ps_pool s') = tp_pending (ps_pool s) \<and> tp_all (ps_pool s') = tp_all (ps_pool s)"
    "?new \<longrightarrow> (\<exists>h. tp_all (ps_pool s') = appended (pool_key L s tr) tr (pruned L s h)) \<and>
       tp_pending (ps_pool s') = appended (pool_key L s tr) tr (tp_pending (ps_pool s))"
    by (auto split: if_splits)
  have key: "pool_key L s' = pool_key L s" by (rule pool_key_quiet [OF s'(2)])
  have items: "pool_items s' = (if ?new then pool_items s @ [tr] else pool_items s)"
    using s'(6,7) by (auto simp: pool_items_def Pool_Pending_def List_Slice_def List_Append_def appended_def)
  have seen: "set (pool_seen s') \<subseteq> insert tr (set (pool_seen s))"
  proof (cases ?new)
    case True
    with s'(7) obtain h where "tp_all (ps_pool s') = appended (pool_key L s tr) tr (pruned L s h)" by blast
    with pruned_subset [of L s h] show ?thesis
      by (auto simp: pool_seen_def [of s'] appended_def List_Append_def)
  qed (use s'(6) in \<open>auto simp: pool_seen_def\<close>)
  have "dom (tm_lookup (tp_pending (ps_pool s'))) = pool_key L s ` set (pool_items s')"
    using s'(6,7) items assms by (auto simp: pool_ok_def appended_def)
  moreover have "\<forall>r \<in> set (pool_items s') \<union> set (pool_seen s'). tx_hasher (h_txs (ps_heap s') r) \<noteq> None"
  proof
    fix r
    assume "r \<in> set (pool_items s') \<union> set (pool_seen s')"
    then have "r = tr \<or> r \<in> set (pool_items s) \<union> set (pool_seen s)"
      using seen items by (auto split: if_splits)
    then show "tx_hasher (h_txs (ps_heap s') r) \<noteq> None"
      using s'(2,5) assms unfolding pool_ok_def tx_quiet_def by blast
  qed
  moreover have "distinct (map (pool_key L s) (pool_items s'))"
    using items assms by (auto simp: pool_ok_def)
  moreover have "int (length (pool_items s')) \<le> tp_max (ps_pool s)"
    using items assms False by (auto simp: pool_ok_def)
  moreover have "\<forall>r. tx_cache_ok L (h_txs (ps_heap s') r)"
    using assms s'(2) unfolding pool_ok_def tx_quiet_def by blast
  ultimately have "pool_ok L s'"
    using assms s'(3,4) key by (simp add: pool_ok_def)
  with s'(1,3) key items False show ?thesis by auto
qed

interpretation poolq: bounded_key_queue "Pool_Add L" pool_items "pool_key L"
    "\<lambda>s. nat (tp_max (ps_pool s))" "pool_ok L" PoolFull for L
proof unfold_locales
  fix s e
  assume ok: "pool_ok L s"
  then have "0 \<le> tp_max (ps_pool s)" by (simp add: pool_ok_def)
  then have m: "length (pool_items s) = nat (tp_max (ps_pool s)) \<longleftrightarrow>
      int (length (pool_items s)) = tp_max (ps_pool s)" by auto
  show "\<exists>s'. pool_ok L s' \<and> nat (tp_max (ps_pool s')) = nat (tp_max (ps_pool s)) \<and> pool_key L s' = pool_key L s \<and>
      Pool_Add L e s = (if length (pool_items s) = nat (tp_max (ps_pool s)) then Err PoolFull
        else Ok (pool_key L s e \<notin> pool_key L s ` set (pool_items s)), s') \<and>
      pool_items s' = (if length (pool_items s) = nat (tp_max (ps_pool s)) \<or>
        pool_key L s e \<in> pool_key L s ` set (pool_items s) then pool_items s else pool_items s @ [e])"
    unfolding m using Pool_Add_ok [OF ok, of e]
    by (intro exI [of _ "snd (Pool_Add L e s)"]) (simp add: prod_eq_iff)
next
  fix s
  assume "pool_ok L s"
  then show "length (pool_items s) \<le> nat (tp_max (ps_pool s)) \<and> distinct (map (pool_key L s) (pool_items s))"
    by (auto simp: pool_ok_def)
qed

lemma Pool_ClearPending_ok:
  assumes "pool_ok L s"
  shows "pool_ok L (s\<lparr>ps_pool := Pool_ClearPending (ps_pool s)\<rparr>) \<and>
    pool_items (s\<lparr>ps_pool := Pool_ClearPending (ps_pool s)\<rparr>) = []"
  using assms
  by (simp add: pool_ok_def pool_items_def pool_seen_def Pool_ClearPending_def TM_Clear_def
      Pool_Pending_def List_Slice_def List_Clear_def pool_key_def)

lemma NewTxPool_ok:
  assumes "\<forall>r. tx_cache_ok L (h_txs h r)" "0 \<le> n"
  shows "pool_ok L \<lparr>ps_heap = h, ps_pool = NewTxPool [MaxPoolDepth n]\<rparr>"
  using assms
  by (simp add: pool_ok_def pool_items_def pool_seen_def NewTxPool_def NewTxOrderedMap_def MaxPoolDepth_def
      Pool_Pending_def List_Slice_def NewList_def)

text \<open>What an addition makes of the map of all transactions.\<close>

lemma Pool_Add_all:
  assumes "pool_ok L s" "int (length (pool_items s)) < tp_max (ps_pool s)"
    and "pool_key L s tr \<notin> pool_key L s ` set (pool_items s)"
  shows "\<exists>s' h. Pool_Add L tr s = (Ok True, s') \<and> pool_ok L s' \<and> pool_key L s' = pool_key L s \<and>
    tp_max (ps_pool s') = tp_max (ps_pool s) \<and>
    tp_all (ps_pool s') = appended (pool_key L s tr) tr (pruned L s h)"
proof -
  have "int (length (pool_items s)) \<noteq> tp_max (ps_pool s)" using assms(2) by simp
  from Pool_Add_room [OF assms(1) this, of tr] assms(3) obtain s' h where
    "Pool_Add L tr s = (Ok True, s')" "tp_all (ps_pool s') = appended (pool_key L s tr) tr (pruned L s h)"
    by auto
  with Pool_Add_ok [OF assms(1), of tr] show ?thesis by auto
qed

text \<open>A transaction is added and a block is made: the pending transactions are cleared.\<close>

definition add_and_clear :: "lib \<Rightarrow> pool_state \<Rightarrow> ref \<Rightarrow> pool_state" where
  "add_and_clear L s tr = (let s' = snd (Pool_Add L tr s) in s'\<lparr>ps_pool := Pool_ClearPending (ps_pool s')\<rparr>)"

lemma add_and_clear_result:
  assumes "pool_ok L s" "pool_items s = []" "0 < tp_max (ps_pool s)"
  shows "\<exists>h. pool_ok L (add_and_clear L s tr) \<and> pool_items (add_and_clear L s tr) = [] \<and>
    pool_key L (add_and_clear L s tr) = pool_key L s \<and>
    tp_max (ps_pool (add_and_clear L s tr)) = tp_max (ps_pool s) \<and>
    tp_all (ps_pool (add_and_clear L s tr)) = appended (pool_key L s tr) tr (pruned L s h)"
proof -
  from Pool_Add_all [OF assms(1), of tr] assms(2,3) obtain s' h where s': "Pool_Add L tr s = (Ok True, s')"
    "pool_ok L s'" "pool_key L s' = pool_key L s" "tp_max (ps_pool s') = tp_max (ps_pool s)"
    "tp_all (ps_pool s') = appended (pool_key L s tr) tr (pruned L s h)" by auto
  have "pool_key L (add_and_clear L s tr) = pool_key L s'"
    by (simp add: add_and_clear_def s'(1) Let_def) (simp add: pool_key_def fun_eq_iff)
  with Pool_ClearPending_ok [OF s'(2)] s' show ?thesis
    by (auto simp: add_and_clear_def Let_def) (auto simp: Pool_ClearPending_def)
qed

lemma List_Delete_head: "l_data l = v # xs \<Longrightarrow> l_data (List_Delete (deep_equal_tx h) v l) = xs"
  by (simp add: List_Delete_def List_Index_def List_DeleteAt_def deep_equal_tx_def Let_def)

subsection \<open>Properties\<close>

text \<open>
  C28: \<^verbatim>\<open>Add\<close> is an insertion into a bounded queue without duplicates: a full pool refuses
  with an error, a transaction whose hash is pending is reported as known, any other goes
  to the end of the pending ones. It never panics and keeps the pool well formed, whatever
  the pruning of the map of all transactions does.
\<close>

theorem Pool_Add_bounded_queue:
  assumes "pool_ok L s"
  shows "\<exists>s'. pool_ok L s' \<and> tp_max (ps_pool s') = tp_max (ps_pool s) \<and>
    Pool_Add L tr s = (if Pool_PendingCount (ps_pool s) = tp_max (ps_pool s) then Err PoolFull
      else Ok (pool_key L s tr \<notin> pool_key L s ` set (Pool_Pending (ps_pool s))), s') \<and>
    Pool_Pending (ps_pool s') =
      (if fst (Pool_Add L tr s) = Ok True then Pool_Pending (ps_pool s) @ [tr] else Pool_Pending (ps_pool s)) \<and>
    Pool_PendingCount (ps_pool s') \<le> tp_max (ps_pool s)"
proof -
  obtain r s' where a: "Pool_Add L tr s = (r, s')" by fastforce
  have c: "Pool_PendingCount p = int (length (Pool_Pending p))" for p
    by (simp add: Pool_PendingCount_def TM_Len_def List_Len_def Pool_Pending_def List_Slice_def)
  from Pool_Add_ok [OF assms, of tr] show ?thesis
    unfolding a c by (auto simp: pool_items_def pool_ok_def)
qed

definition demo_pool :: "int \<Rightarrow> pool_state" where
  "demo_pool n = \<lparr>ps_heap = \<lparr>h_txs = (\<lambda>r. NewTransaction [of_nat r]), h_headers = (\<lambda>_. \<lparr>hd_Version = 1,
     hd_DataHash = zero_hash, hd_PreviousBlockHash = zero_hash, hd_Timestamp = 0, hd_Height = 0\<rparr>),
     h_blocks = (\<lambda>_. \<lparr>blk_Header = None, blk_Transactions = [], blk_Validator = [], blk_Signature = None,
       blk_hash = zero_hash\<rparr>), h_next = 0\<rparr>, ps_pool = NewTxPool [MaxPoolDepth n]\<rparr>"

lemma demo_pool_ok: "0 \<le> n \<Longrightarrow> pool_ok L (demo_pool n)"
  unfolding demo_pool_def by (rule NewTxPool_ok) (simp_all add: tx_cache_ok_def NewTransaction_def)

lemma demo_pool_empty: "pool_items (demo_pool n) = []" "tp_max (ps_pool (demo_pool n)) = n"
  by (simp_all add: demo_pool_def pool_items_def NewTxPool_def NewTxOrderedMap_def MaxPoolDepth_def
      Pool_Pending_def List_Slice_def NewList_def)

theorem Pool_Add_bounded_queue_witness:
  "\<exists>s'. Pool_Add demo_lib 4 (demo_pool 2) = (Ok True, s') \<and> Pool_Pending (ps_pool s') = [4]"
  using Pool_Add_bounded_queue [OF demo_pool_ok [of 2 demo_lib], of 4] demo_pool_empty [of 2]
  by (auto simp: pool_items_def Pool_PendingCount_def TM_Len_def List_Len_def Pool_Pending_def List_Slice_def)

text \<open>
  The pending transactions are handed out in the order they came: after transactions
  with distinct hashes that fit have been added, \<^verbatim>\<open>Pending\<close> returns those from before
  followed by the new ones in the order of their additions.
\<close>

lemma Pool_Pending_in_order:
  assumes "pool_ok L s"
    and "distinct (map (pool_key L s) (Pool_Pending (ps_pool s) @ trs))"
    and "int (length (Pool_Pending (ps_pool s) @ trs)) \<le> tp_max (ps_pool s)"
  shows "Pool_Pending (ps_pool (fold (\<lambda>tr s. snd (Pool_Add L tr s)) trs s)) = Pool_Pending (ps_pool s) @ trs"
proof -
  have "fold (\<lambda>tr s. snd (Pool_Add L tr s)) trs s = poolq.add_all L trs s" for s
    by (induction trs arbitrary: s) simp_all
  moreover have "pool_items (poolq.add_all L trs s) = pool_items s @ trs"
    by (rule poolq.add_all_distinct [OF assms(1)]) (use assms(2,3) in \<open>simp_all add: pool_items_def\<close>)
  ultimately show ?thesis by (simp add: pool_items_def)
qed

lemma Pool_Pending_in_order_witness:
  "Pool_Pending (ps_pool (fold (\<lambda>tr s. snd (Pool_Add demo_lib tr s)) [3, 1, 2] (demo_pool 3))) = [3, 1, 2]"
proof -
  have "distinct (map (pool_key demo_lib (demo_pool 3)) (Pool_Pending (ps_pool (demo_pool 3)) @ [3, 1, 2]))"
    using demo_pool_empty [of 3]
    by (simp add: pool_items_def pool_key_def) (simp add: demo_pool_def NewTransaction_def demo_lib_def)
  from Pool_Pending_in_order [OF demo_pool_ok this] demo_pool_empty [of 3] show ?thesis
    by (simp add: pool_items_def)
qed

text \<open>
  A transaction that went into a block is accepted again. Clearing the pending
  transactions forgets their hashes, so the same transaction is new to the next \<^verbatim>\<open>Add\<close> and
  goes into a second block.
\<close>

lemma Pool_readmits_after_clear:
  assumes "pool_ok L s" and "Pool_Add L tr s = (Ok b, s1)" and "0 < tp_max (ps_pool s)"
  shows "\<exists>s2. Pool_Add L tr (s1\<lparr>ps_pool := Pool_ClearPending (ps_pool s1)\<rparr>) = (Ok True, s2) \<and>
    Pool_Pending (ps_pool s2) = [tr]"
proof -
  let ?s = "s1\<lparr>ps_pool := Pool_ClearPending (ps_pool s1)\<rparr>"
  from Pool_Add_ok [OF assms(1), of tr] assms(2) have "pool_ok L s1" "tp_max (ps_pool s1) = tp_max (ps_pool s)"
    by auto
  with Pool_ClearPending_ok have c: "pool_ok L ?s" "pool_items ?s = []" "0 < tp_max (ps_pool ?s)"
    using assms(3) by (auto simp: Pool_ClearPending_def)
  obtain r s2 where a: "Pool_Add L tr ?s = (r, s2)" by fastforce
  have "r = Ok True" "pool_items s2 = [tr]"
    using Pool_Add_ok [OF c(1), of tr] c(2,3) unfolding a by auto
  with a show ?thesis by (simp add: pool_items_def)
qed

lemma Pool_readmits_after_clear_witness:
  "\<exists>s1 s2. Pool_Add demo_lib 4 (demo_pool 2) = (Ok True, s1) \<and>
     Pool_Add demo_lib 4 (s1\<lparr>ps_pool := Pool_ClearPending (ps_pool s1)\<rparr>) = (Ok True, s2)"
proof -
  obtain r s1 where a: "Pool_Add demo_lib 4 (demo_pool 2) = (r, s1)" by fastforce
  then have "r = Ok True"
    using Pool_Add_ok [OF demo_pool_ok [of 2 demo_lib], of 4] demo_pool_empty [of 2] by simp
  with Pool_readmits_after_clear [OF demo_pool_ok [of 2 demo_lib], of 4 True s1] a demo_pool_empty [of 2]
  show ?thesis by auto
qed

text \<open>
  The bound of the map of all transactions does not hold. When a transaction that went
  into a block comes again, its second copy stays behind without an entry in the lookup;
  as the oldest entry it is then never pruned, and the map grows beyond the bound.
\<close>

lemma Pool_all_outgrows_bound:
  assumes "pool_ok L s" and "tp_max (ps_pool s) = 2" and "Pool_Pending (ps_pool s) = []"
    and "TM_Len (tp_all (ps_pool s)) = 0"
    and "distinct (map (pool_key L s) [a, b, c])"
  shows "tp_max (ps_pool (foldl (add_and_clear L) s [a, a, b, c])) = 2 \<and>
    TM_Len (tp_all (ps_pool (foldl (add_and_clear L) s [a, a, b, c]))) = 3"
proof -
  let ?k = "pool_key L s"
  have d: "?k a \<noteq> ?k b" "?k a \<noteq> ?k c" "?k b \<noteq> ?k c" using assms(5) by auto
  have seen: "pool_seen s = []" using assms(4) by (simp add: TM_Len_def List_Len_def pool_seen_def)
  define s1 where "s1 = add_and_clear L s a"
  from add_and_clear_result [OF assms(1), of a] assms(2,3) obtain h1 where 1: "pool_ok L s1" "pool_items s1 = []"
    "pool_key L s1 = ?k" "tp_max (ps_pool s1) = 2" "tp_all (ps_pool s1) = appended (?k a) a (pruned L s h1)"
    by (auto simp: s1_def pool_items_def)
  have seen1: "pool_seen s1 = [a]"
    using 1(5) seen assms(2) by (simp add: pool_seen_def pruned_def appended_def List_Append_def)
  define s2 where "s2 = add_and_clear L s1 a"
  from add_and_clear_result [OF 1(1,2), of a] 1 obtain h2 where 2: "pool_ok L s2" "pool_items s2 = []"
    "pool_key L s2 = ?k" "tp_max (ps_pool s2) = 2" "tp_all (ps_pool s2) = appended (?k a) a (pruned L s1 h2)"
    by (auto simp: s2_def)
  have all2: "tp_all (ps_pool s2) = appended (?k a) a (tp_all (ps_pool s1))"
    using 2(5) seen1 1(4) by (simp add: pruned_def)
  have seen2: "pool_seen s2 = [a, a]"
    using all2 seen1 by (simp add: pool_seen_def appended_def List_Append_def)
  define s3 where "s3 = add_and_clear L s2 b"
  from add_and_clear_result [OF 2(1,2), of b] 2 obtain h3 where 3: "pool_ok L s3" "pool_items s3 = []"
    "pool_key L s3 = ?k" "tp_max (ps_pool s3) = 2" "tp_all (ps_pool s3) = appended (?k b) b (pruned L s2 h3)"
    by (auto simp: s3_def)
  have "tm_lookup (tp_all (ps_pool s2)) (?k a) = Some a" by (simp add: all2 appended_def)
  then have p3: "tm_txns (pruned L s2 h3) = List_Delete (deep_equal_tx h3) a (tm_txns (tp_all (ps_pool s2)))"
    "tm_lookup (pruned L s2 h3) (?k a) = None"
    using seen2 2(3,4) by (simp_all add: pruned_def TM_Remove_def)
  have seen3: "pool_seen s3 = [a, b]"
    using 3(5) p3(1) seen2 List_Delete_head [of _ a "[a]" h3]
    by (simp add: pool_seen_def appended_def List_Append_def)
  define s4 where "s4 = add_and_clear L s3 c"
  from add_and_clear_result [OF 3(1,2), of c] 3 obtain h4 where 4: "tp_max (ps_pool s4) = 2"
    "tp_all (ps_pool s4) = appended (?k c) c (pruned L s3 h4)" by (auto simp: s4_def)
  have "tm_lookup (tp_all (ps_pool s3)) (?k a) = None" using 3(5) p3(2) d by (simp add: appended_def)
  then have "pruned L s3 h4 = tp_all (ps_pool s3)"
    using seen3 3(3,4) by (simp add: pruned_def TM_Remove_def)
  with 4 seen3 have "pool_seen s4 = [a, b, c]" by (simp add: pool_seen_def appended_def List_Append_def)
  with 4(1) show ?thesis by (simp add: s1_def s2_def s3_def s4_def TM_Len_def List_Len_def pool_seen_def)
qed

lemma Pool_all_outgrows_bound_witness:
  "TM_Len (tp_all (ps_pool (foldl (add_and_clear demo_lib) (demo_pool 2) [1, 1, 2, 3]))) = 3"
proof -
  have "distinct (map (pool_key demo_lib (demo_pool 2)) [1, 2, 3])"
    by (simp add: pool_key_def demo_pool_def NewTransaction_def demo_lib_def)
  moreover have "TM_Len (tp_all (ps_pool (demo_pool 2))) = 0"
    by (simp add: demo_pool_def NewTxPool_def MaxPoolDepth_def NewTxOrderedMap_def TM_Len_def List_Len_def NewList_def)
  ultimately show ?thesis
    using Pool_all_outgrows_bound [OF demo_pool_ok [of 2 demo_lib]] demo_pool_empty [of 2]
    by (simp add: pool_items_def)
qed

end
