(* ===== verification/Network_Envelope.thy ===== *)
theory Network_Envelope
  imports Prelude
begin

section \<open>Framing on a TCP connection\<close>

text \<open>
  Models \<^verbatim>\<open>network/tcp_envelope.go\<close> and the read loop of \<^verbatim>\<open>network/tcp_transport.go\<close>:
  a message is its length, then the sender and the payload, each with its length, all
  lengths four bytes, the least significant first. Slices are kept with their backing
  array, because Go bounds a slice expression by the capacity and not by the length, and
  because the payload of a queued message shares the buffer of the loop. Sockets are
  parameters: a connection is the sequence of chunks that its reads return.
\<close>

subsection \<open>Slices\<close>

text \<open>The backing array from the start of the slice to its capacity, and the length.\<close>

record slice =
  sl_back :: bytes
  sl_len :: nat

definition slice_bytes :: "slice \<Rightarrow> bytes" where
  "slice_bytes s = take (sl_len s) (sl_back s)"

text \<open>\<^verbatim>\<open>s[lo:hi]\<close>; it panics unless \<open>lo \<le> hi\<close> and \<open>hi\<close> is within the capacity.\<close>

definition slice_sub :: "slice \<Rightarrow> nat \<Rightarrow> nat \<Rightarrow> slice result" where
  "slice_sub s lo hi = (if lo \<le> hi \<and> hi \<le> length (sl_back s)
     then Ok \<lparr>sl_back = drop lo (sl_back s), sl_len = hi - lo\<rparr> else Panic SliceBounds)"

subsection \<open>Little-endian integers\<close>

definition put_uint32 :: "u32 \<Rightarrow> bytes" where
  "put_uint32 v = [ucast v, ucast (drop_bit 8 v), ucast (drop_bit 16 v), ucast (drop_bit 24 v)]"

unbundle bit_operations_syntax

fun get_uint32 :: "bytes \<Rightarrow> u32 result" where
  "get_uint32 (a # b # c # d # rest) = Ok (ucast a OR push_bit 8 (ucast b) OR push_bit 16 (ucast c) OR push_bit 24 (ucast d))"
| "get_uint32 _ = Panic IndexOutOfRange"

subsection \<open>Envelopes\<close>

record envelope =
  env_senderId :: bytes
  env_data :: slice

definition lenSize :: nat where
  "lenSize = 4"

text \<open>The writes of a buffer succeed; a length is truncated to 32 bits.\<close>

definition encodeEnvelope :: "bytes \<Rightarrow> bytes \<Rightarrow> bytes" where
  "encodeEnvelope senderId data =
     (let msgLen = length senderId + lenSize + length data + lenSize;
          buf = put_uint32 (of_nat msgLen);
          buf = buf @ put_uint32 (of_nat (length senderId));
          buf = buf @ senderId;
          buf = buf @ put_uint32 (of_nat (length data))
      in buf @ data)"

text \<open>The offsets are 32-bit and wrap around.\<close>

definition decodeEnvelope :: "slice \<Rightarrow> envelope result" where
  "decodeEnvelope b =
     bind_result (slice_sub b 0 4) (\<lambda>s. bind_result (get_uint32 (slice_bytes s)) (\<lambda>idLen.
     let offset = (4 :: u32) in
     bind_result (slice_sub b (unat offset) (unat (offset + idLen))) (\<lambda>id.
     let offset = offset + idLen in
     bind_result (slice_sub b (unat offset) (unat (offset + 4))) (\<lambda>s. bind_result (get_uint32 (slice_bytes s)) (\<lambda>pLen.
     let offset = offset + 4 in
     bind_result (slice_sub b (unat offset) (unat (offset + pLen))) (\<lambda>payload.
       Ok \<lparr>env_senderId = slice_bytes id, env_data = payload\<rparr>))))))"

subsection \<open>The read loop\<close>

text \<open>
  The state of one connection: the chunks still to come, the buffer the loop reuses for
  every message, the buffer of the length, and the messages put on the channel. A queued
  message keeps where its payload is in the buffer; what it contains is read later.
\<close>

record rpc =
  rpc_From :: bytes
  rpc_off :: nat
  rpc_len :: nat

record reader =
  rd_chunks :: "bytes list"
  rd_buf :: bytes
  rd_lenBuf :: bytes
  rd_recv :: "rpc list"

definition new_reader :: "bytes list \<Rightarrow> reader" where
  "new_reader chunks = \<lparr>rd_chunks = chunks, rd_buf = replicate 65536 0, rd_lenBuf = replicate 4 0, rd_recv = []\<rparr>"

text \<open>\<^verbatim>\<open>Content\<close> of a queued message, read from the buffer as it is now.\<close>

definition rpc_content :: "reader \<Rightarrow> rpc \<Rightarrow> bytes" where
  "rpc_content r m = take (rpc_len m) (drop (rpc_off m) (rd_buf r))"

text \<open>
  A buffered reader gives at most what one read of the connection brought: \<^verbatim>\<open>Read\<close> can
  return fewer bytes than asked. At the end of the stream the loop panics.
\<close>

fun read_some :: "nat \<Rightarrow> bytes list \<Rightarrow> (bytes \<times> bytes list) option" where
  "read_some n [] = None"
| "read_some n (c # cs) =
     (if c = [] then read_some n cs
      else Some (take n c, if n < length c then drop n c # cs else cs))"

primrec read_full :: "bytes list \<Rightarrow> nat \<Rightarrow> (bytes \<times> bytes list) option" where
  "read_full [] n = (if n = 0 then Some ([], []) else None)"
| "read_full (c # cs) n =
     (if n = 0 then Some ([], c # cs)
      else if n < length c then Some (take n c, drop n c # cs)
      else map_option (\<lambda>(bs, cs'). (c @ bs, cs')) (read_full cs (n - length c)))"

text \<open>One iteration of the loop. Bytes that are read overwrite the front of a buffer.\<close>

definition overwrite :: "bytes \<Rightarrow> bytes \<Rightarrow> bytes" where
  "overwrite new buf = new @ drop (length new) buf"

definition read_length :: "(reader, u32) go" where
  "read_length = (\<lambda>r. case read_some 4 (rd_chunks r) of
       None \<Rightarrow> (Panic ExplicitPanic, r)
     | Some (bs, cs) \<Rightarrow>
         let lenBuf = overwrite bs (rd_lenBuf r)
         in (get_uint32 lenBuf, r\<lparr>rd_chunks := cs, rd_lenBuf := lenBuf\<rparr>))"

text \<open>The body of a message goes to the front of the buffer, whose start and length are \<^verbatim>\<open>buf[:length]\<close>.\<close>

definition read_body :: "u32 \<Rightarrow> (reader, unit) go" where
  "read_body length' =
     sbind (sread (\<lambda>r. slice_sub \<lparr>sl_back = rd_buf r, sl_len = length (rd_buf r)\<rparr> 0 (unat length'))) (\<lambda>_.
     sbind (\<lambda>r. case read_full (rd_chunks r) (unat length') of
         None \<Rightarrow> (Panic ExplicitPanic, r)
       | Some (bs, cs) \<Rightarrow> (Ok (), r\<lparr>rd_chunks := cs, rd_buf := overwrite bs (rd_buf r)\<rparr>)) (\<lambda>_ r.
       case decodeEnvelope \<lparr>sl_back = rd_buf r, sl_len = unat length'\<rparr> of
         Err e \<Rightarrow> (Panic ExplicitPanic, r)
       | Panic p \<Rightarrow> (Panic p, r)
       | Ok e \<Rightarrow> (Ok (), r\<lparr>rd_recv := rd_recv r @
           [\<lparr>rpc_From = env_senderId e,
             rpc_off = length (rd_buf r) - length (sl_back (env_data e)),
             rpc_len = sl_len (env_data e)\<rparr>]\<rparr>)))"

definition read_step :: "(reader, unit) go" where
  "read_step = sbind read_length read_body"

subsection \<open>Facts\<close>

lemma bit_byte_of: "bit (ucast (ucast (drop_bit k v) :: byte) :: u32) m \<longleftrightarrow> m < 8 \<and> bit v (k + m)" for v :: u32
  by (auto simp: bit_simps dest: bit_imp_le_length)

lemma bit_byte_of_0: "bit (ucast (ucast v :: byte) :: u32) m \<longleftrightarrow> m < 8 \<and> bit v m" for v :: u32
  using bit_byte_of [of 0 v m] by simp

lemma uint32_bytes:
  fixes v :: u32
  shows "ucast (ucast v :: byte) OR push_bit 8 (ucast (ucast (drop_bit 8 v) :: byte)) OR
      push_bit 16 (ucast (ucast (drop_bit 16 v) :: byte)) OR
      push_bit 24 (ucast (ucast (drop_bit 24 v) :: byte)) = v" (is "?w = v")
proof (rule bit_word_eqI)
  fix n
  assume n: "n < LENGTH(32)"
  have "bit ?w n \<longleftrightarrow> (n < 8 \<and> bit v n) \<or> (8 \<le> n \<and> n < 16 \<and> bit v n) \<or>
      (16 \<le> n \<and> n < 24 \<and> bit v n) \<or> (24 \<le> n \<and> n < 32 \<and> bit v n)"
    using n unfolding bit_or_iff bit_push_bit_iff bit_byte_of unfolding bit_byte_of_0 by auto
  with n show "bit ?w n = bit v n" by auto
qed

lemma get_put_uint32: "get_uint32 (put_uint32 v @ rest) = Ok v" "get_uint32 (put_uint32 v) = Ok v"
  unfolding put_uint32_def append.simps get_uint32.simps uint32_bytes by (rule refl)+

lemma put_uint32_length [simp]: "length (put_uint32 v) = 4"
  by (simp add: put_uint32_def)

lemma put_uint32_ne [simp]: "put_uint32 v \<noteq> []"
  by (simp add: put_uint32_def)

lemma encodeEnvelope_length: "length (encodeEnvelope sid data) = length sid + length data + 12"
  by (simp add: encodeEnvelope_def Let_def)

text \<open>The body of a frame: what follows the length of the message.\<close>

definition body :: "bytes \<Rightarrow> bytes \<Rightarrow> bytes" where
  "body sid data = put_uint32 (of_nat (length sid)) @ sid @ put_uint32 (of_nat (length data)) @ data"

lemma encodeEnvelope_body:
  "encodeEnvelope sid data = put_uint32 (of_nat (length sid + length data + 8)) @ body sid data"
  by (simp add: encodeEnvelope_def body_def Let_def lenSize_def add.commute add.left_commute)

lemma body_length [simp]: "length (body sid data) = length sid + length data + 8"
  by (simp add: body_def)

lemma unat_of_nat_small: "n < 2 ^ 32 \<Longrightarrow> unat (of_nat n :: u32) = n"
  by (simp add: unat_of_nat)

lemma unat_add_small: "unat (a :: u32) + unat b < 2 ^ 32 \<Longrightarrow> unat (a + b) = unat a + unat b"
  by (simp add: unat_word_ariths)

text \<open>Decoding a frame's body at the front of any buffer.\<close>

lemma decode_body:
  assumes "length sid + length data + 8 < 2 ^ 32"
  shows "decodeEnvelope \<lparr>sl_back = body sid data @ junk, sl_len = n\<rparr> =
    Ok \<lparr>env_senderId = sid, env_data = \<lparr>sl_back = data @ junk, sl_len = length data\<rparr>\<rparr>"
proof -
  let ?i = "of_nat (length sid) :: u32" and ?d = "of_nat (length data) :: u32"
  have i: "unat ?i = length sid" and d: "unat ?d = length data"
    using assms by (simp_all add: unat_of_nat_small)
  have o1: "unat (4 + ?i) = 4 + length sid" using assms i by (subst unat_add_small) simp_all
  have o2: "unat (4 + ?i + 4) = 8 + length sid" using assms o1 by (subst unat_add_small) simp_all
  have o3: "unat (4 + ?i + 4 + ?d) = 8 + length sid + length data"
    using assms o2 d by (subst unat_add_small) simp_all
  let ?b = "\<lparr>sl_back = body sid data @ junk, sl_len = n\<rparr>"
  have s1: "slice_sub ?b 0 4 = Ok \<lparr>sl_back = body sid data @ junk, sl_len = 4\<rparr>"
    and s2: "slice_sub ?b (unat (4 :: u32)) (unat (4 + ?i)) =
      Ok \<lparr>sl_back = sid @ put_uint32 ?d @ data @ junk, sl_len = length sid\<rparr>"
    and s3: "slice_sub ?b (unat (4 + ?i)) (unat (4 + ?i + 4)) =
      Ok \<lparr>sl_back = put_uint32 ?d @ data @ junk, sl_len = 4\<rparr>"
    and s4: "slice_sub ?b (unat (4 + ?i + 4)) (unat (4 + ?i + 4 + ?d)) =
      Ok \<lparr>sl_back = data @ junk, sl_len = length data\<rparr>"
    unfolding o1 o2 o3 by (simp_all add: slice_sub_def body_def)
  have g: "get_uint32 (slice_bytes \<lparr>sl_back = body sid data @ junk, sl_len = 4\<rparr>) = Ok ?i"
    "get_uint32 (slice_bytes \<lparr>sl_back = put_uint32 ?d @ data @ junk, sl_len = 4\<rparr>) = Ok ?d"
    by (simp_all add: slice_bytes_def body_def get_put_uint32)
  show ?thesis
    unfolding decodeEnvelope_def Let_def s1 bind_result.simps g s2 s3 s4
    by (simp add: slice_bytes_def)
qed

text \<open>Reading a stream that has enough bytes.\<close>

lemma read_full_enough:
  "n \<le> length (concat cs) \<Longrightarrow>
   \<exists>cs'. read_full cs n = Some (take n (concat cs), cs') \<and> concat cs' = drop n (concat cs)"
proof (induction cs arbitrary: n)
  case (Cons c cs)
  show ?case
  proof (cases "n = 0 \<or> n < length c")
    case False
    with Cons.IH [of "n - length c"] Cons.prems show ?thesis by auto
  qed auto
qed simp

definition reader_ok :: "reader \<Rightarrow> bool" where
  "reader_ok r \<longleftrightarrow> length (rd_buf r) = 65536 \<and> length (rd_lenBuf r) = 4"

lemma read_body_frame:
  assumes "reader_ok r" "read_full (rd_chunks r) (length sid + length data + 8) = Some (body sid data, cs)"
    and "length sid + length data + 8 \<le> 65536" "v = of_nat (length sid + length data + 8)"
  shows "read_body v r = (Ok (), r\<lparr>rd_chunks := cs, rd_buf := overwrite (body sid data) (rd_buf r),
    rd_recv := rd_recv r @ [\<lparr>rpc_From = sid, rpc_off = 8 + length sid, rpc_len = length data\<rparr>]\<rparr>)"
proof -
  let ?n = "length sid + length data + 8" and ?junk = "drop (length sid + length data + 8) (rd_buf r)"
  have v: "unat v = ?n" unfolding assms(4) by (rule unat_of_nat_small) (use assms(3) in simp)
  have len: "length (rd_buf r) = 65536" using assms(1) by (simp add: reader_ok_def)
  have b: "slice_sub \<lparr>sl_back = rd_buf r, sl_len = 65536\<rparr> 0 ?n = Ok \<lparr>sl_back = rd_buf r, sl_len = ?n\<rparr>"
    using assms(3) len by (simp add: slice_sub_def)
  have buf: "overwrite (body sid data) (rd_buf r) = body sid data @ ?junk"
    by (simp add: overwrite_def)
  have d: "decodeEnvelope \<lparr>sl_back = body sid data @ ?junk, sl_len = ?n\<rparr> =
      Ok \<lparr>env_senderId = sid, env_data = \<lparr>sl_back = data @ ?junk, sl_len = length data\<rparr>\<rparr>"
    by (rule decode_body) (use assms(3) in simp)
  show ?thesis
    using assms(3) by (simp add: read_body_def sbind_def sread_def v len b assms(2) buf d)
qed

text \<open>A message whose length prefix arrives in one piece is put on the queue.\<close>

lemma read_step_reads:
  assumes "reader_ok r" "v = of_nat (length sid + length data + 8)"
    and "read_some 4 (rd_chunks r) = Some (put_uint32 v, cs)"
    and "read_full cs (length sid + length data + 8) = Some (body sid data, cs')"
    and "length sid + length data + 8 \<le> 65536"
  shows "\<exists>r'. read_step r = (Ok (), r') \<and> reader_ok r' \<and> rd_chunks r' = cs' \<and>
    rd_buf r' = overwrite (body sid data) (rd_buf r) \<and>
    rd_recv r' = rd_recv r @ [\<lparr>rpc_From = sid, rpc_off = 8 + length sid, rpc_len = length data\<rparr>]"
proof -
  let ?r = "r\<lparr>rd_chunks := cs, rd_lenBuf := put_uint32 v\<rparr>"
  have "overwrite (put_uint32 v) (rd_lenBuf r) = put_uint32 v"
    using assms(1) by (simp add: overwrite_def reader_ok_def)
  then have l: "read_length r = (Ok v, ?r)" by (simp add: read_length_def assms(3) get_put_uint32)
  have ok: "reader_ok ?r" using assms(1) by (simp add: reader_ok_def)
  have "read_full (rd_chunks ?r) (length sid + length data + 8) = Some (body sid data, cs')"
    by (simp add: assms(4))
  from read_body_frame [OF ok this assms(5,2)] l assms(1,5) show ?thesis
    by (auto simp: read_step_def sbind_def reader_ok_def overwrite_def)
qed

text \<open>The message is cut anywhere behind the length.\<close>

lemma read_step_frame:
  assumes "reader_ok r" "rd_chunks r = c # cs" "4 \<le> length c"
    and "concat (rd_chunks r) = encodeEnvelope sid data @ rest"
    and "length sid + length data + 8 \<le> 65536"
  shows "\<exists>r'. read_step r = (Ok (), r') \<and> reader_ok r' \<and> concat (rd_chunks r') = rest \<and>
    rd_buf r' = overwrite (body sid data) (rd_buf r) \<and>
    rd_recv r' = rd_recv r @ [\<lparr>rpc_From = sid, rpc_off = 8 + length sid, rpc_len = length data\<rparr>]"
proof -
  let ?n = "length sid + length data + 8"
  define v where "v = (of_nat ?n :: u32)"
  let ?cs = "if 4 < length c then drop 4 c # cs else cs"
  have whole: "c @ concat cs = put_uint32 v @ body sid data @ rest"
    using assms(2,4) by (simp only: encodeEnvelope_body append_assoc v_def concat.simps)
  have "take 4 c = take 4 (c @ concat cs)" using assms(3) by simp
  then have p: "take 4 c = put_uint32 v" by (simp add: whole)
  have "c \<noteq> []" using assms(3) by auto
  then have s: "read_some 4 (rd_chunks r) = Some (put_uint32 v, ?cs)" using assms(2) p by simp
  have "concat ?cs = drop 4 (c @ concat cs)" using assms(3) by auto
  then have q: "concat ?cs = body sid data @ rest" by (simp add: whole)
  have "?n \<le> length (concat ?cs)" by (simp only: q length_append body_length)
  from read_full_enough [OF this] obtain cs' where
    f: "read_full ?cs ?n = Some (body sid data, cs')" "concat cs' = rest"
    unfolding q by auto
  from read_step_reads [OF assms(1) v_def s f(1) assms(5)] f(2) show ?thesis by auto
qed

text \<open>The message comes in one read of its own.\<close>

lemma read_step_chunk:
  assumes "reader_ok r" "rd_chunks r = encodeEnvelope sid data # cs"
    and "length sid + length data + 8 \<le> 65536"
  shows "\<exists>r'. read_step r = (Ok (), r') \<and> reader_ok r' \<and> rd_chunks r' = cs \<and>
    rd_buf r' = overwrite (body sid data) (rd_buf r) \<and>
    rd_recv r' = rd_recv r @ [\<lparr>rpc_From = sid, rpc_off = 8 + length sid, rpc_len = length data\<rparr>]"
proof -
  define v where "v = (of_nat (length sid + length data + 8) :: u32)"
  have e: "encodeEnvelope sid data = put_uint32 v @ body sid data"
    by (simp only: encodeEnvelope_body v_def)
  have s: "read_some 4 (rd_chunks r) = Some (put_uint32 v, body sid data # cs)"
    using assms(2) e by simp
  have "read_full cs 0 = Some ([], cs)" by (cases cs) simp_all
  then have "read_full (body sid data # cs) (length sid + length data + 8) = Some (body sid data, cs)"
    by simp
  from read_step_reads [OF assms(1) v_def s this assms(3)] show ?thesis .
qed

lemma content_overwritten:
  "rpc_content (r\<lparr>rd_buf := overwrite (body sid data) buf\<rparr>)
     \<lparr>rpc_From = x, rpc_off = 8 + length sid, rpc_len = length data\<rparr> = data"
  by (simp add: rpc_content_def overwrite_def body_def)

text \<open>Small lengths, and a length shifted by three bytes.\<close>

lemma put_small:
  assumes "m < 256"
  shows "put_uint32 (of_nat m) = [of_nat m, 0, 0, 0]"
proof -
  have "(ucast (of_nat m :: u32) :: byte) = of_nat m"
    by (rule word_uint_eqI) (simp add: unsigned_ucast_eq unsigned_of_nat take_bit_eq_mod mod_mod_cancel)
  moreover have "drop_bit k (of_nat m :: u32) = 0" if "8 \<le> k" for k
  proof (rule bit_word_eqI)
    fix j
    have "\<not> bit (of_nat m :: u32) (k + j)"
    proof
      assume "bit (of_nat m :: u32) (k + j)"
      then have "bit m (k + j)" by (simp add: bit_simps)
      moreover have "m < 2 ^ (k + j)"
        using assms that power_increasing [of 8 "k + j" "2 :: nat"] by simp
      ultimately show False by (simp add: bit_iff_odd)
    qed
    then show "bit (drop_bit k (of_nat m :: u32)) j = bit (0 :: u32) j"
      by (simp add: bit_drop_bit_eq)
  qed
  ultimately show ?thesis by (simp add: put_uint32_def)
qed

lemma shifted_big:
  assumes "0 < m" "m < 248"
  shows "65536 < unat (4 + push_bit 24 (ucast (of_nat m :: byte)) :: u32)"
proof -
  have "unat (ucast (of_nat m :: byte) :: u32) = m"
    using assms by (simp add: unsigned_ucast_eq unsigned_of_nat take_bit_eq_mod)
  then have "unat (push_bit 24 (ucast (of_nat m :: byte)) :: u32) = m * 2 ^ 24"
    using assms by (simp add: push_bit_eq_mult unat_word_ariths)
  then have "unat (4 + push_bit 24 (ucast (of_nat m :: byte)) :: u32) = 4 + m * 2 ^ 24"
    using assms by (subst unat_add_small) simp_all
  with assms(1) show ?thesis by simp
qed

subsection \<open>Properties\<close>

text \<open>
  C29: an encoded message decodes to its sender and its payload, whatever the buffer holds
  behind it, and its length prefix is the length of what follows, as long as that length
  fits in 32 bits.
\<close>

theorem envelope_round_trip:
  assumes "length sid + length data + 8 < 2 ^ 32"
  shows "\<exists>e. decodeEnvelope \<lparr>sl_back = drop 4 (encodeEnvelope sid data) @ junk, sl_len = n\<rparr> = Ok e \<and>
    env_senderId e = sid \<and> slice_bytes (env_data e) = data \<and>
    (\<exists>v. get_uint32 (take 4 (encodeEnvelope sid data)) = Ok v \<and>
       unat v = length (drop 4 (encodeEnvelope sid data)))"
proof -
  have d: "drop 4 (encodeEnvelope sid data) = body sid data"
    and t: "take 4 (encodeEnvelope sid data) = put_uint32 (of_nat (length sid + length data + 8))"
    by (simp_all add: encodeEnvelope_body del: of_nat_add)
  have "unat (of_nat (length sid + length data + 8) :: u32) = length (body sid data)"
    unfolding body_length by (rule unat_of_nat_small) (use assms in simp)
  then show ?thesis
    unfolding d t get_put_uint32 decode_body [OF assms] by (simp add: slice_bytes_def)
qed

theorem envelope_round_trip_witness:
  "\<exists>e. decodeEnvelope \<lparr>sl_back = drop 4 (encodeEnvelope [97, 98] [1, 2, 3]) @ [9], sl_len = 13\<rparr> = Ok e \<and>
    env_senderId e = [97, 98] \<and> slice_bytes (env_data e) = [1, 2, 3]"
  using envelope_round_trip [of "[97, 98]" "[1, 2, 3]" "[9]" 13] by auto

text \<open>
  The read loop takes a message off the stream and queues it with its sender and its
  payload, wherever the stream is cut into reads, provided the four bytes of the length
  come in one read and the message fits in the buffer.
\<close>

lemma read_loop_queues_message:
  assumes "reader_ok r" and "rd_chunks r = c # cs" and "4 \<le> length c"
    and "concat (rd_chunks r) = encodeEnvelope sid data @ rest"
    and "length sid + length data + 8 \<le> 65536"
  shows "\<exists>r' m. read_step r = (Ok (), r') \<and> reader_ok r' \<and> concat (rd_chunks r') = rest \<and>
    rd_recv r' = rd_recv r @ [m] \<and> rpc_From m = sid \<and> rpc_content r' m = data"
proof -
  obtain r' where r': "read_step r = (Ok (), r')" "reader_ok r'" "concat (rd_chunks r') = rest"
    "rd_buf r' = overwrite (body sid data) (rd_buf r)"
    "rd_recv r' = rd_recv r @ [\<lparr>rpc_From = sid, rpc_off = 8 + length sid, rpc_len = length data\<rparr>]"
    using read_step_frame [OF assms] by blast
  moreover have "rpc_content r' \<lparr>rpc_From = sid, rpc_off = 8 + length sid, rpc_len = length data\<rparr> = data"
    using content_overwritten [where r = r' and buf = "rd_buf r" and sid = sid and data = data] r'(4) by (simp add: rpc_content_def)
  ultimately show ?thesis by auto
qed

lemma read_loop_queues_message_witness:
  "\<exists>r' m. read_step (new_reader [take 5 (encodeEnvelope [97] [1, 2]), drop 5 (encodeEnvelope [97] [1, 2])]) = (Ok (), r') \<and>
     rd_recv r' = [m] \<and> rpc_From m = [97] \<and> rpc_content r' m = [1, 2]"
  using read_loop_queues_message [of "new_reader [take 5 (encodeEnvelope [97] [1, 2]), drop 5 (encodeEnvelope [97] [1, 2])]"
      "take 5 (encodeEnvelope [97] [1, 2])" "[drop 5 (encodeEnvelope [97] [1, 2])]" "[97]" "[1, 2]" "[]"]
  by (auto simp: new_reader_def reader_ok_def encodeEnvelope_length)

text \<open>
  C40: a queued message can be overwritten before it is handled. Its payload shares the
  buffer of the loop, so when the loop has read the next message of the same sender with a
  payload of the same length, both queued messages contain the second payload.
\<close>

theorem queued_payload_overwritten:
  assumes "reader_ok r" and "rd_chunks r = [encodeEnvelope sid d1, encodeEnvelope sid d2]"
    and "length d2 = length d1" and "length sid + length d1 + 8 \<le> 65536"
  shows "\<exists>r' m1 m2. (sbind read_step (\<lambda>_. read_step)) r = (Ok (), r') \<and>
    rd_recv r' = rd_recv r @ [m1, m2] \<and> rpc_content r' m1 = d2 \<and> rpc_content r' m2 = d2"
proof -
  let ?m = "\<lparr>rpc_From = sid, rpc_off = 8 + length sid, rpc_len = length d1\<rparr>"
  from read_step_chunk [OF assms(1,2,4)] obtain r1 where
    1: "read_step r = (Ok (), r1)" "reader_ok r1" "rd_chunks r1 = [encodeEnvelope sid d2]"
    "rd_recv r1 = rd_recv r @ [?m]" by blast
  have "length sid + length d2 + 8 \<le> 65536" using assms(3,4) by simp
  from read_step_chunk [OF 1(2,3) this] obtain r2 where
    2: "read_step r1 = (Ok (), r2)" "rd_buf r2 = overwrite (body sid d2) (rd_buf r1)"
    "rd_recv r2 = rd_recv r1 @ [?m]" using assms(3) by auto
  have "rpc_content r2 ?m = d2"
    using content_overwritten [where r = r2 and buf = "rd_buf r1" and sid = sid and data = d2 and x = sid]
      2(2) assms(3) by (simp add: rpc_content_def)
  with 1 2 show ?thesis by (intro exI [of _ r2] exI [of _ ?m]) (simp add: sbind_def)
qed

theorem queued_payload_overwritten_witness:
  "\<exists>r' m1 m2. (sbind read_step (\<lambda>_. read_step)) (new_reader [encodeEnvelope [97] [1, 2], encodeEnvelope [97] [3, 4]]) = (Ok (), r') \<and>
     rd_recv r' = [m1, m2] \<and> rpc_content r' m1 = [3, 4] \<and> rpc_content r' m2 = [3, 4]"
  using queued_payload_overwritten [of "new_reader [encodeEnvelope [97] [1, 2], encodeEnvelope [97] [3, 4]]"
      "[97]" "[1, 2]" "[3, 4]"]
  by (simp add: new_reader_def reader_ok_def)

text \<open>
  Any peer can crash the node: a message that announces more than 64 KiB makes the read
  loop slice its buffer out of range and panic, before a byte of the message is read.
\<close>

lemma oversized_message_panics:
  assumes "reader_ok r" and "rd_chunks r = (put_uint32 v @ xs) # cs" and "65536 < unat v"
  shows "\<exists>r'. read_step r = (Panic SliceBounds, r')"
proof -
  obtain cs' where s: "read_some 4 (rd_chunks r) = Some (put_uint32 v, cs')"
    using assms(2) by simp
  have "overwrite (put_uint32 v) (rd_lenBuf r) = put_uint32 v"
    using assms(1) by (simp add: overwrite_def reader_ok_def)
  with s assms(1,3) show ?thesis
    by (simp add: read_step_def sbind_def read_length_def get_put_uint32 read_body_def sread_def
        slice_sub_def reader_ok_def)
qed

lemma oversized_message_panics_witness:
  "\<exists>r'. read_step (new_reader [put_uint32 65537 @ []]) = (Panic SliceBounds, r')"
  by (rule oversized_message_panics [where v = 65537 and xs = "[]" and cs = "[]"])
     (simp_all add: new_reader_def reader_ok_def)

text \<open>
  The loop loses its place when the length does not come in one read. With only its
  first byte read, the loop takes that byte for the length, the other three for the start
  of the message, and a well-formed first message of at most 255 bytes makes it panic.
\<close>

lemma split_length_panics:
  assumes "encodeEnvelope sid data = b # frame" and "rd_chunks r = [[b], frame]"
    and "reader_ok r" and "rd_lenBuf r = [0, 0, 0, 0]"
    and "0 < length sid" and "length sid + length data + 8 < 256"
  shows "\<exists>r'. read_step r = (Panic SliceBounds, r')"
proof -
  let ?n = "length sid + length data + 8" and ?s = "length sid"
  have lt: "?s < 256" using assms(6) by simp
  have "b # frame = put_uint32 (of_nat ?n) @ body sid data"
    using assms(1) by (simp only: encodeEnvelope_body)
  then have b: "b = of_nat ?n" and frame: "frame = [0, 0, 0] @ body sid data"
    unfolding put_small [OF assms(6)] by simp_all
  have "overwrite [b] (rd_lenBuf r) = put_uint32 (of_nat ?n)"
    unfolding put_small [OF assms(6)] assms(4) b by (simp add: overwrite_def)
  then have l: "read_length r = (Ok (of_nat ?n), r\<lparr>rd_chunks := [frame], rd_lenBuf := put_uint32 (of_nat ?n)\<rparr>)"
    unfolding read_length_def assms(2) by (simp add: get_put_uint32 del: of_nat_add)
  have v: "unat (of_nat ?n :: u32) = ?n" by (rule unat_of_nat_small) (use assms(6) in simp)
  let ?r = "r\<lparr>rd_chunks := [frame], rd_lenBuf := put_uint32 (of_nat ?n)\<rparr>"
  have f: "read_full [frame] ?n = Some (take ?n frame, [drop ?n frame])" by (simp add: frame)
  obtain more where t: "take ?n frame = [0, 0, 0, of_nat ?s] @ more"
  proof
    have "frame = [0, 0, 0, of_nat ?s] @ ([0, 0, 0] @ sid @ put_uint32 (of_nat (length data)) @ data)"
      unfolding frame body_def put_small [OF lt] by simp
    then show "take ?n frame = [0, 0, 0, of_nat ?s] @
        take (?n - 4) ([0, 0, 0] @ sid @ put_uint32 (of_nat (length data)) @ data)"
      by (simp only: take_append) simp
  qed
  let ?buf = "overwrite (take ?n frame) (rd_buf r)"
  have g: "get_uint32 (slice_bytes \<lparr>sl_back = ?buf, sl_len = 4\<rparr>) = Ok (push_bit 24 (ucast (of_nat ?s :: byte)))"
    by (simp add: slice_bytes_def overwrite_def t)
  have "length (take ?n frame) = ?n" by (simp add: frame)
  then have len: "length ?buf = 65536" using assms(3,6) by (simp add: overwrite_def reader_ok_def del: length_take)
  have big: "65536 < unat (4 + push_bit 24 (ucast (of_nat ?s :: byte)) :: u32)"
    using shifted_big [OF assms(5)] assms(6) by simp
  have "slice_sub \<lparr>sl_back = ?buf, sl_len = k\<rparr> 0 4 = Ok \<lparr>sl_back = ?buf, sl_len = 4\<rparr>" for k
    using len by (simp add: slice_sub_def)
  then have d: "decodeEnvelope \<lparr>sl_back = ?buf, sl_len = k\<rparr> = Panic SliceBounds" for k
    unfolding decodeEnvelope_def using g big len by (simp add: slice_sub_def)
  have "slice_sub \<lparr>sl_back = rd_buf r, sl_len = length (rd_buf r)\<rparr> 0 ?n = Ok \<lparr>sl_back = rd_buf r, sl_len = ?n\<rparr>"
    using assms(3,6) by (simp add: slice_sub_def reader_ok_def)
  then have "read_body (of_nat ?n) ?r = (Panic SliceBounds, ?r\<lparr>rd_chunks := [drop ?n frame], rd_buf := ?buf\<rparr>)"
    unfolding read_body_def sbind_def sread_def v using f d by simp
  with l show ?thesis by (simp add: read_step_def sbind_def del: of_nat_add)
qed

lemma split_length_panics_witness:
  "\<exists>b frame r'. encodeEnvelope [97] [1, 2] = b # frame \<and> read_step (new_reader [[b], frame]) = (Panic SliceBounds, r')"
proof -
  obtain b frame where f: "encodeEnvelope [97] [1, 2] = b # frame"
    using encodeEnvelope_length [of "[97]" "[1, 2]"] by (cases "encodeEnvelope [97] [1, 2]") auto
  have four: "replicate 4 (0 :: byte) = [0, 0, 0, 0]" by (simp add: eval_nat_numeral)
  have "\<exists>r'. read_step (new_reader [[b], frame]) = (Panic SliceBounds, r')"
    by (rule split_length_panics [OF f]) (simp_all add: new_reader_def reader_ok_def four)
  with f show ?thesis by blast
qed

end
