(* ===== verification/Protocol_Message.thy ===== *)
theory Protocol_Message
  imports Core_Block Core_Coding
begin

section \<open>Messages between nodes\<close>

text \<open>
  Models \<^verbatim>\<open>protocol/message.go\<close>, \<^verbatim>\<open>protocol/status_message.go\<close>,
  \<^verbatim>\<open>server/rpc_decode_func.go\<close> and the coders of \<^verbatim>\<open>core/coding.go\<close>: the message types and
  their codes, the construction of a message from each kind of payload, and the extraction
  of the payload from what a transport delivers. The gob package is a parameter: what it
  makes of a value, and what it makes of bytes when it is told the type.
\<close>

subsection \<open>Message types\<close>

datatype message_type =
    MessageTypeTx
  | MessageTypeBlock
  | MessageTypeStatusRequest
  | MessageTypeStatusResponse
  | MessageTypeSubscribeResponse
  | MessageTypeSubscribeRequest
  | MessageTypeGetBlocksRequest
  | MessageTypeGetBlocksResponse

definition MessageTypes :: "message_type list" where
  "MessageTypes = [MessageTypeTx, MessageTypeBlock, MessageTypeStatusRequest, MessageTypeStatusResponse,
     MessageTypeSubscribeRequest, MessageTypeSubscribeResponse, MessageTypeGetBlocksRequest,
     MessageTypeGetBlocksResponse]"

text \<open>The constants count from 0 in the order of their declaration.\<close>

primrec type_code :: "message_type \<Rightarrow> byte" where
  "type_code MessageTypeTx = 0"
| "type_code MessageTypeBlock = 1"
| "type_code MessageTypeStatusRequest = 2"
| "type_code MessageTypeStatusResponse = 3"
| "type_code MessageTypeSubscribeResponse = 4"
| "type_code MessageTypeSubscribeRequest = 5"
| "type_code MessageTypeGetBlocksRequest = 6"
| "type_code MessageTypeGetBlocksResponse = 7"

text \<open>The switch over the byte of a received message.\<close>

definition type_of_code :: "byte \<Rightarrow> message_type option" where
  "type_of_code b = find (\<lambda>t. type_code t = b) MessageTypes"

definition MessageType_String :: "byte \<Rightarrow> string" where
  "MessageType_String b = (case type_of_code b of
     Some MessageTypeBlock \<Rightarrow> ''MessageTypeBlock''
   | Some MessageTypeTx \<Rightarrow> ''MessageTypeTx''
   | Some MessageTypeStatusRequest \<Rightarrow> ''MessageTypeStatusRequest''
   | Some MessageTypeStatusResponse \<Rightarrow> ''MessageTypeStatusResponse''
   | Some MessageTypeSubscribeRequest \<Rightarrow> ''MessageTypeSubscribeRequest''
   | Some MessageTypeSubscribeResponse \<Rightarrow> ''MessageTypeSubscribeResponse''
   | Some MessageTypeGetBlocksRequest \<Rightarrow> ''MessageTypeGetBlocksRequest''
   | Some MessageTypeGetBlocksResponse \<Rightarrow> ''MessageTypeGetBlocksResponse''
   | None \<Rightarrow> ''unknown'')"

lemma type_code_eq [simp]: "type_code a = type_code b \<longleftrightarrow> a = b"
  by (cases a; cases b) simp_all

lemma type_of_code_code [simp]: "type_of_code (type_code t) = Some t"
  by (cases t) (simp_all add: type_of_code_def MessageTypes_def)

text \<open>The types are ordered by their codes.\<close>

instantiation message_type :: linorder
begin

definition less_eq_message_type :: "message_type \<Rightarrow> message_type \<Rightarrow> bool" where
  "less_eq_message_type a b \<longleftrightarrow> type_code a \<le> type_code b"

definition less_message_type :: "message_type \<Rightarrow> message_type \<Rightarrow> bool" where
  "less_message_type a b \<longleftrightarrow> type_code a < type_code b"

instance
proof
  fix a b :: message_type
  assume "a \<le> b" "b \<le> a"
  then have "type_code a = type_code b" by (simp add: less_eq_message_type_def)
  then show "a = b" by simp
qed (auto simp: less_eq_message_type_def less_message_type_def simp del: type_code_eq)

end

subsection \<open>Payloads\<close>

text \<open>
  What is sent of a block: the header it points to, the exported fields of its
  transactions, the validator and the signature.
\<close>

record block_wire =
  bw_Header :: "header option"
  bw_Transactions :: "tx_wire list"
  bw_Validator :: bytes
  bw_Signature :: "bytes option"

record StatusMessageResponse =
  sr_ServerID :: string
  sr_CurrentHeight :: u32
  sr_Version :: u32

record SubscribeMessageRequest =
  sq_RequestorID :: string
  sq_Handle :: string

record GetBlocksRequest =
  gq_RequestorID :: string
  gq_StartHeight :: u32

datatype payload =
    PTx tx_wire
  | PBlock block_wire
  | PStatusRequest string
  | PStatusResponse StatusMessageResponse
  | PSubscribeResponse string
  | PSubscribeRequest SubscribeMessageRequest
  | PGetBlocksRequest GetBlocksRequest
  | PGetBlocksResponse "block_wire list"

primrec payload_type :: "payload \<Rightarrow> message_type" where
  "payload_type (PTx t) = MessageTypeTx"
| "payload_type (PBlock b) = MessageTypeBlock"
| "payload_type (PStatusRequest i) = MessageTypeStatusRequest"
| "payload_type (PStatusResponse s) = MessageTypeStatusResponse"
| "payload_type (PSubscribeResponse i) = MessageTypeSubscribeResponse"
| "payload_type (PSubscribeRequest q) = MessageTypeSubscribeRequest"
| "payload_type (PGetBlocksRequest q) = MessageTypeGetBlocksRequest"
| "payload_type (PGetBlocksResponse bs) = MessageTypeGetBlocksResponse"

definition block_wire_of :: "heap \<Rightarrow> ref \<Rightarrow> block_wire" where
  "block_wire_of h br = (let b = h_blocks h br in
     \<lparr>bw_Header = map_option (h_headers h) (blk_Header b),
      bw_Transactions = map tx_wire (the_txs h (blk_Transactions b)),
      bw_Validator = blk_Validator b, bw_Signature = blk_Signature b\<rparr>)"

subsection \<open>The coders of blocks\<close>

text \<open>Every block that the code decodes is a new one, so the result is what was sent.\<close>

definition DefaultBlockEncoder_Encode :: "(block_wire \<Rightarrow> bytes option) \<Rightarrow> heap \<Rightarrow> ref encoder" where
  "DefaultBlockEncoder_Encode enc h br = gob_Encode enc (block_wire_of h br)"

definition DefaultBlockDecoder_Decode :: "(bytes \<Rightarrow> (block_wire \<times> bytes) option) \<Rightarrow> (bytes, block_wire) go" where
  "DefaultBlockDecoder_Decode dec = gob_Decode dec"

definition Block_Encode :: "ref encoder \<Rightarrow> ref \<Rightarrow> (bytes, unit) go" where
  "Block_Encode encoder br = encoder br"

definition Block_Decode :: "(bytes, block_wire) go \<Rightarrow> (bytes, block_wire) go" where
  "Block_Decode decoder = decoder"

lemma Block_round_trip:
  assumes "\<And>v b rest. enc v = Some b \<Longrightarrow> dec (b @ rest) = Some (v, rest)"
    and "Block_Encode (DefaultBlockEncoder_Encode enc h) br [] = (Ok (), b)"
  shows "Block_Decode (DefaultBlockDecoder_Decode dec) b = (Ok (block_wire_of h br), [])"
  using assms(2) assms(1) [of "block_wire_of h br" b "[]"]
  by (auto simp: Block_Encode_def DefaultBlockEncoder_Encode_def gob_Encode_def Block_Decode_def
      DefaultBlockDecoder_Decode_def gob_Decode_def split: option.splits)

subsection \<open>Messages\<close>

record message =
  m_Header :: byte
  m_Data :: bytes

record gob =
  gob_enc :: "payload \<Rightarrow> bytes option"
  gob_dec :: "message_type \<Rightarrow> bytes \<Rightarrow> payload option"
  gob_enc_message :: "message \<Rightarrow> bytes option"
  gob_dec_message :: "bytes \<Rightarrow> message option"

definition NewMessage :: "message_type \<Rightarrow> bytes \<Rightarrow> message" where
  "NewMessage t data = \<lparr>m_Header = type_code t, m_Data = data\<rparr>"

definition Message_Bytes :: "gob \<Rightarrow> message \<Rightarrow> bytes result" where
  "Message_Bytes G m = (case gob_enc_message G m of None \<Rightarrow> Err EncodeError | Some b \<Rightarrow> Ok b)"

text \<open>One constructor of messages for each kind of payload.\<close>

definition message_of :: "gob \<Rightarrow> message_type \<Rightarrow> payload \<Rightarrow> message result" where
  "message_of G t p = (case gob_enc G p of None \<Rightarrow> Err EncodeError | Some b \<Rightarrow> Ok (NewMessage t b))"

definition NewMessageFromTransaction :: "gob \<Rightarrow> transaction \<Rightarrow> message result" where
  "NewMessageFromTransaction G t =
     (case Tx_Encode (GobTxEncoder_Encode (\<lambda>w. gob_enc G (PTx w))) t [] of
        (Ok _, buf) \<Rightarrow> Ok (NewMessage MessageTypeTx buf)
      | (Err e, _) \<Rightarrow> Err e
      | (Panic p, _) \<Rightarrow> Panic p)"

definition NewMessageFromBlock :: "gob \<Rightarrow> heap \<Rightarrow> ref \<Rightarrow> message result" where
  "NewMessageFromBlock G h br =
     (case Block_Encode (DefaultBlockEncoder_Encode (\<lambda>w. gob_enc G (PBlock w)) h) br [] of
        (Ok _, buf) \<Rightarrow> Ok (NewMessage MessageTypeBlock buf)
      | (Err e, _) \<Rightarrow> Err e
      | (Panic p, _) \<Rightarrow> Panic p)"

lemma NewMessageFromTransaction_of:
  "NewMessageFromTransaction G t = message_of G MessageTypeTx (PTx (tx_wire t))"
  by (simp add: NewMessageFromTransaction_def Tx_Encode_gob message_of_def split: option.split)

lemma NewMessageFromBlock_of:
  "NewMessageFromBlock G h br = message_of G MessageTypeBlock (PBlock (block_wire_of h br))"
  by (simp add: NewMessageFromBlock_def Block_Encode_def DefaultBlockEncoder_Encode_def gob_Encode_def
      message_of_def split: option.split)

definition NewMessageFromStatusMessageResponse :: "gob \<Rightarrow> StatusMessageResponse \<Rightarrow> message result" where
  "NewMessageFromStatusMessageResponse G s = message_of G MessageTypeStatusResponse (PStatusResponse s)"

definition NewMessageFromStatusMessageRequest :: "gob \<Rightarrow> string \<Rightarrow> message result" where
  "NewMessageFromStatusMessageRequest G i = message_of G MessageTypeStatusRequest (PStatusRequest i)"

definition NewMessageFromSubscribeMessageResponse :: "gob \<Rightarrow> string \<Rightarrow> message result" where
  "NewMessageFromSubscribeMessageResponse G i = message_of G MessageTypeSubscribeResponse (PSubscribeResponse i)"

definition NewMessageFromSubscribeMessageRequest :: "gob \<Rightarrow> SubscribeMessageRequest \<Rightarrow> message result" where
  "NewMessageFromSubscribeMessageRequest G q = message_of G MessageTypeSubscribeRequest (PSubscribeRequest q)"

definition NewMessageFromGetBlocksRequest :: "gob \<Rightarrow> GetBlocksRequest \<Rightarrow> message result" where
  "NewMessageFromGetBlocksRequest G q = message_of G MessageTypeGetBlocksRequest (PGetBlocksRequest q)"

definition NewMessageFromGetBlocksResponse :: "gob \<Rightarrow> heap \<Rightarrow> ref list \<Rightarrow> message result" where
  "NewMessageFromGetBlocksResponse G h brs =
     message_of G MessageTypeGetBlocksResponse (PGetBlocksResponse (map (block_wire_of h) brs))"

subsection \<open>Extraction\<close>

definition MessageFromRPC :: "gob \<Rightarrow> bytes \<Rightarrow> message result" where
  "MessageFromRPC G content = (case gob_dec_message G content of None \<Rightarrow> Err DecodeError | Some m \<Rightarrow> Ok m)"

text \<open>
  A message without data decodes to the nil slice. The switch decodes the data into the
  type that the header names; the result carries the sender of the message.
\<close>

definition ExtractMessageFromRPC :: "gob \<Rightarrow> 'a \<Rightarrow> bytes \<Rightarrow> ('a \<times> payload) result" where
  "ExtractMessageFromRPC G from' content =
     bind_result (MessageFromRPC G content) (\<lambda>msg.
       if m_Data msg = [] then Err NilData
       else case type_of_code (m_Header msg) of
              None \<Rightarrow> Err (InvalidMessageType (m_Header msg))
            | Some t \<Rightarrow> (case gob_dec G t (m_Data msg) of
                None \<Rightarrow> Err DecodeError | Some p \<Rightarrow> Ok (from', p)))"

subsection \<open>The codec\<close>

text \<open>
  The interface of a codec, as a client of one relies on it: what it encodes it decodes to
  the same value, for the values it supports.
\<close>

locale codec =
  fixes enc :: "'v \<Rightarrow> bytes result"
    and dec :: "bytes \<Rightarrow> 'v result"
    and supported :: "'v \<Rightarrow> bool"
  assumes dec_enc: "supported v \<Longrightarrow> enc v = Ok b \<Longrightarrow> dec b = Ok v"
begin

lemma enc_inj: "supported v \<Longrightarrow> supported w \<Longrightarrow> enc v = Ok b \<Longrightarrow> enc w = Ok b \<Longrightarrow> v = w"
  using dec_enc [of v b] dec_enc [of w b] by simp

end

text \<open>
  Gob leaves out the fields that are empty, a pointer to an empty signature among them: it
  decodes to nil. The other values come back; no value encodes to nothing.
\<close>

definition plain_sig :: "bytes option \<Rightarrow> bool" where
  "plain_sig s \<longleftrightarrow> s \<noteq> Some []"

definition plain_block :: "block_wire \<Rightarrow> bool" where
  "plain_block b \<longleftrightarrow> plain_sig (bw_Signature b) \<and> (\<forall>(d, f, s) \<in> set (bw_Transactions b). plain_sig s)"

fun plain_payload :: "payload \<Rightarrow> bool" where
  "plain_payload (PTx (d, f, s)) \<longleftrightarrow> plain_sig s"
| "plain_payload (PBlock b) \<longleftrightarrow> plain_block b"
| "plain_payload (PGetBlocksResponse bs) \<longleftrightarrow> (\<forall>b \<in> set bs. plain_block b)"
| "plain_payload _ \<longleftrightarrow> True"

definition gob_round_trips :: "gob \<Rightarrow> bool" where
  "gob_round_trips G \<longleftrightarrow>
     (\<forall>p b. plain_payload p \<longrightarrow> gob_enc G p = Some b \<longrightarrow> gob_dec G (payload_type p) b = Some p) \<and>
     (\<forall>m b. gob_enc_message G m = Some b \<longrightarrow> gob_dec_message G b = Some m) \<and>
     (\<forall>p. gob_enc G p \<noteq> Some []) \<and> (\<forall>m. gob_enc_message G m \<noteq> Some [])"

text \<open>A payload as it goes out: the message of its type, encoded.\<close>

definition payload_Bytes :: "gob \<Rightarrow> payload \<Rightarrow> bytes result" where
  "payload_Bytes G p = bind_result (message_of G (payload_type p) p) (Message_Bytes G)"

definition payload_from :: "gob \<Rightarrow> bytes \<Rightarrow> payload result" where
  "payload_from G b = bind_result (ExtractMessageFromRPC G () b) (\<lambda>(_, p). Ok p)"

lemma ExtractMessage_encoded:
  assumes "gob_round_trips G" "plain_payload p" "payload_Bytes G p = Ok b"
  shows "ExtractMessageFromRPC G x b = Ok (x, p)"
proof -
  from assms(3) obtain d where d: "gob_enc G p = Some d"
    "gob_enc_message G (NewMessage (payload_type p) d) = Some b"
    by (auto simp: payload_Bytes_def message_of_def Message_Bytes_def split: option.splits)
  from assms(1) have "gob_dec_message G b = Some (NewMessage (payload_type p) d)"
    using d(2) unfolding gob_round_trips_def by blast
  moreover have "gob_dec G (payload_type p) d = Some p"
    using assms(1,2) d(1) unfolding gob_round_trips_def by blast
  moreover have "d \<noteq> []" using assms(1) d(1) unfolding gob_round_trips_def by blast
  ultimately show ?thesis
    by (simp add: ExtractMessageFromRPC_def MessageFromRPC_def NewMessage_def)
qed

interpretation msg_codec: codec "payload_Bytes G" "payload_from G" "\<lambda>p. gob_round_trips G \<and> plain_payload p" for G
  by unfold_locales (auto simp: payload_from_def ExtractMessage_encoded)

subsection \<open>An instance of the coder\<close>

text \<open>
  A concrete coder for status requests and transactions with short fields: it satisfies
  the contract and gives up on the other payloads.
\<close>

fun demo_enc :: "payload \<Rightarrow> bytes option" where
  "demo_enc (PStatusRequest i) = Some (0 # map (\<lambda>c. of_nat (of_char c)) i)"
| "demo_enc (PTx (d, f, s)) = (if length d < 256 \<and> length f < 256
     then Some (of_nat (length d) # of_nat (length f) # d @ f @ (case s of None \<Rightarrow> [] | Some x \<Rightarrow> x)) else None)"
| "demo_enc _ = None"

fun demo_dec :: "message_type \<Rightarrow> bytes \<Rightarrow> payload option" where
  "demo_dec MessageTypeStatusRequest (_ # i) = Some (PStatusRequest (map (\<lambda>b. char_of (unat b)) i))"
| "demo_dec MessageTypeTx (n # m # b) = Some (PTx (take (unat n) b, take (unat m) (drop (unat n) b),
     case drop (unat n + unat m) b of [] \<Rightarrow> None | x # xs \<Rightarrow> Some (x # xs)))"
| "demo_dec _ _ = None"

definition demo_gob :: gob where
  "demo_gob = \<lparr>gob_enc = demo_enc, gob_dec = demo_dec,
     gob_enc_message = (\<lambda>m. Some (m_Header m # m_Data m)),
     gob_dec_message = (\<lambda>b. case b of [] \<Rightarrow> None | h # d \<Rightarrow> Some \<lparr>m_Header = h, m_Data = d\<rparr>)\<rparr>"

lemma unat_byte_of_nat: "n < 256 \<Longrightarrow> unat (of_nat n :: byte) = n"
  by (simp add: unat_of_nat)

lemma char_of_byte: "char_of (unat (of_nat (of_char c) :: byte)) = c"
  by (simp add: unat_of_nat)

lemma demo_gob_round_trips: "gob_round_trips demo_gob"
proof -
  have "demo_dec (payload_type p) b = Some p" if "plain_payload p" "demo_enc p = Some b" for p b
    using that
    by (cases p rule: demo_enc.cases)
       (auto simp: unat_byte_of_nat char_of_byte plain_sig_def o_def split: option.splits if_splits list.split)
  moreover have "demo_enc p \<noteq> Some []" for p
    by (cases p rule: demo_enc.cases) auto
  ultimately show ?thesis by (auto simp: gob_round_trips_def demo_gob_def)
qed

subsection \<open>Properties\<close>

text \<open>
  C30: what one node sends, another receives: each function that makes a message of a
  payload gives one that is extracted as the same payload, with the sender the transport
  names, and no other payload has the same bytes.
\<close>

theorem message_round_trip:
  assumes "gob_round_trips G" and "plain_payload p" and "bind_result c (Message_Bytes G) = Ok b"
    and "(c, p) \<in> {(NewMessageFromTransaction G t, PTx (tx_wire t)),
      (NewMessageFromBlock G h br, PBlock (block_wire_of h br)),
      (NewMessageFromStatusMessageRequest G i, PStatusRequest i),
      (NewMessageFromStatusMessageResponse G sr, PStatusResponse sr),
      (NewMessageFromSubscribeMessageRequest G sq, PSubscribeRequest sq),
      (NewMessageFromSubscribeMessageResponse G i, PSubscribeResponse i),
      (NewMessageFromGetBlocksRequest G gq, PGetBlocksRequest gq),
      (NewMessageFromGetBlocksResponse G h brs, PGetBlocksResponse (map (block_wire_of h) brs))}"
  shows "ExtractMessageFromRPC G sender b = Ok (sender, p) \<and>
    (\<forall>q. plain_payload q \<and> payload_Bytes G q = Ok b \<longrightarrow> q = p)"
proof -
  have c: "c = message_of G (payload_type p) p"
    using assms(4) by (auto simp: NewMessageFromTransaction_of NewMessageFromBlock_of
        NewMessageFromStatusMessageRequest_def NewMessageFromStatusMessageResponse_def
        NewMessageFromSubscribeMessageRequest_def NewMessageFromSubscribeMessageResponse_def
        NewMessageFromGetBlocksRequest_def NewMessageFromGetBlocksResponse_def)
  have b: "payload_Bytes G p = Ok b" using assms(3) unfolding payload_Bytes_def c .
  show ?thesis
  proof (intro conjI allI impI)
    show "ExtractMessageFromRPC G sender b = Ok (sender, p)" by (rule ExtractMessage_encoded [OF assms(1,2) b])
    show "q = p" if "plain_payload q \<and> payload_Bytes G q = Ok b" for q
      by (rule msg_codec.enc_inj [of G _ _ b]) (use that assms(1,2) b in simp_all)
  qed
qed

theorem message_round_trip_witness:
  "\<exists>b. bind_result (NewMessageFromTransaction demo_gob (NewTransaction [1, 2])) (Message_Bytes demo_gob) = Ok b \<and>
     ExtractMessageFromRPC demo_gob ''peer'' b = Ok (''peer'', PTx ([1, 2], [], None))"
proof -
  let ?c = "NewMessageFromTransaction demo_gob (NewTransaction [1, 2])"
  have e: "gob_enc demo_gob (PTx ([1, 2], [], None)) = Some [2, 0, 1, 2]"
    by (simp add: demo_gob_def)
  have w: "tx_wire (NewTransaction [1, 2]) = ([1, 2], [], None)"
    by (simp add: tx_wire_def NewTransaction_def)
  have b: "bind_result ?c (Message_Bytes demo_gob) = Ok [0, 2, 0, 1, 2]"
    unfolding NewMessageFromTransaction_of message_of_def w e option.case bind_result.simps
    by (simp add: Message_Bytes_def demo_gob_def NewMessage_def)
  have p: "plain_payload (PTx (tx_wire (NewTransaction [1, 2])))" unfolding w by (simp add: plain_sig_def)
  have i: "(?c, PTx (tx_wire (NewTransaction [1, 2]))) \<in> insert (?c, PTx (tx_wire (NewTransaction [1, 2]))) X" for X
    by (rule insertI1)
  from message_round_trip [OF demo_gob_round_trips p b i, of "''peer''"] b show ?thesis
    unfolding w by blast
qed

end
