(* ===== verification/Server_Node.thy ===== *)
theory Server_Node
  imports Core_Chain_Props Server_TxPool Protocol_Message
begin

section \<open>The server\<close>

text \<open>
  Models \<^verbatim>\<open>server/server.go\<close>, \<^verbatim>\<open>server/server_internal.go\<close> and
  \<^verbatim>\<open>server/handle_subscribe.go\<close>: the state of a node, the handlers of its messages and the
  block producer. The transport is the interface of \<^verbatim>\<open>network/transport.go\<close>: the pipes
  that \<^verbatim>\<open>Get\<close> finds, and what was handed to \<^verbatim>\<open>Send\<close> and \<^verbatim>\<open>Broadcast\<close>. A handler is one step;
  the goroutine that it starts to broadcast runs at the place where it is started, since
  it only reads. The block producer runs beside the handlers and is two steps: up to the
  insertion of its block, and the clearing of the pool. Errors that go to \<^verbatim>\<open>errChan\<close> are
  collected in the state; the channel is always drained.
\<close>

subsection \<open>State\<close>

record pipe =
  p_local :: string
  p_remote :: string

datatype outgoing = OutBroadcast bytes | OutSend string bytes

record node =
  nd_world :: world
  nd_pool :: pool
  nd_ID :: string
  nd_key :: private_key
  nd_addr :: string
  nd_conns :: "string \<rightharpoonup> pipe"
  nd_sent :: "outgoing list"
  nd_peers :: "string \<rightharpoonup> pipe"
  nd_errs :: "goerror list"

abbreviation nd_heap :: "node \<Rightarrow> heap" where
  "nd_heap n \<equiv> w_heap (nd_world n)"

abbreviation nd_bc :: "node \<Rightarrow> blockchain" where
  "nd_bc n \<equiv> w_bc (nd_world n)"

abbreviation on_world :: "(world, 'a) go \<Rightarrow> (node, 'a) go" where
  "on_world \<equiv> szoom nd_world (\<lambda>w n. n\<lparr>nd_world := w\<rparr>)"

definition pool_view :: "node \<Rightarrow> pool_state" where
  "pool_view n = \<lparr>ps_heap = nd_heap n, ps_pool = nd_pool n\<rparr>"

abbreviation on_pool :: "(pool_state, 'a) go \<Rightarrow> (node, 'a) go" where
  "on_pool \<equiv> szoom pool_view
     (\<lambda>s n. n\<lparr>nd_world := (nd_world n)\<lparr>w_heap := ps_heap s\<rparr>, nd_pool := ps_pool s\<rparr>)"

subsection \<open>Peers\<close>

definition NewPeers :: "string \<rightharpoonup> pipe" where
  "NewPeers = Map.empty"

definition Peers_add :: "string \<Rightarrow> pipe \<Rightarrow> (node, unit) go" where
  "Peers_add sid p = smodify (\<lambda>n. n\<lparr>nd_peers := (nd_peers n)(sid \<mapsto> p)\<rparr>)"

definition Peers_get :: "string \<Rightarrow> node \<Rightarrow> pipe option" where
  "Peers_get sid n = nd_peers n sid"

subsection \<open>The transport\<close>

definition Transport_Get :: "string \<Rightarrow> node \<Rightarrow> pipe option" where
  "Transport_Get sid n = nd_conns n sid"

text \<open>Neither implementation returns an error from a broadcast; failed sends are logged.\<close>

definition Transport_Broadcast :: "bytes \<Rightarrow> (node, unit) go" where
  "Transport_Broadcast data = smodify (\<lambda>n. n\<lparr>nd_sent := nd_sent n @ [OutBroadcast data]\<rparr>)"

definition Transport_Send :: "string \<Rightarrow> bytes \<Rightarrow> (node, unit) go" where
  "Transport_Send addr data = (\<lambda>n.
     if nd_conns n addr = None then (Err (UnknownPeer addr), n)
     else (Ok (), n\<lparr>nd_sent := nd_sent n @ [OutSend addr data]\<rparr>))"

text \<open>A goroutine whose error goes to the channel; a panic of it ends the program.\<close>

definition report :: "(goerror \<Rightarrow> goerror) \<Rightarrow> (node, unit) go \<Rightarrow> (node, unit) go" where
  "report f m = (\<lambda>n. case m n of
     (Err e, n') \<Rightarrow> (Ok (), n'\<lparr>nd_errs := nd_errs n' @ [f e]\<rparr>)
   | out \<Rightarrow> out)"

subsection \<open>Sending\<close>

definition broadcast :: "gob \<Rightarrow> message \<Rightarrow> (node, unit) go" where
  "broadcast G msg = sbind (sread (\<lambda>_. Message_Bytes G msg)) Transport_Broadcast"

definition send :: "gob \<Rightarrow> string \<Rightarrow> message \<Rightarrow> (node, unit) go" where
  "send G addr msg = sbind (sread (\<lambda>_. Message_Bytes G msg)) (\<lambda>data.
     if data = [] then spanic ExplicitPanic else Transport_Send addr data)"

definition broadcastTx :: "lib \<Rightarrow> gob \<Rightarrow> ref \<Rightarrow> (node, unit) go" where
  "broadcastTx L G tr =
     sbind (on_world (on_heap (on_tx tr (Tx_Hash L)))) (\<lambda>_.
     sbind (sread (\<lambda>n. NewMessageFromTransaction G (h_txs (nd_heap n) tr))) (broadcast G))"

definition broadcastBlock :: "lib \<Rightarrow> gob \<Rightarrow> ref \<Rightarrow> (node, unit) go" where
  "broadcastBlock L G br =
     sbind (on_world (on_heap (Block_Hash L br))) (\<lambda>_.
     sbind (sread (\<lambda>n. NewMessageFromBlock G (nd_heap n) br)) (broadcast G))"

definition sendStartupStatusRequests :: "gob \<Rightarrow> (node, unit) go" where
  "sendStartupStatusRequests G =
     sbind (sread (\<lambda>n. NewMessageFromStatusMessageRequest G (nd_ID n))) (\<lambda>msg n.
       case broadcast G msg n of (Panic p, n') \<Rightarrow> (Panic p, n') | (_, n') \<Rightarrow> (Ok (), n'))"

subsection \<open>Transactions\<close>

definition handleTransaction :: "lib \<Rightarrow> gob \<Rightarrow> int \<Rightarrow> ref \<Rightarrow> (node, unit) go" where
  "handleTransaction L G now tr =
     sbind (sread (\<lambda>n. Tx_Verify L (h_txs (nd_heap n) tr))) (\<lambda>_.
     sbind (on_world (on_heap (on_tx tr (Tx_SetCreatedAt now)))) (\<lambda>_.
     sbind (on_pool (Pool_Add L tr)) (\<lambda>isNewTx.
       if isNewTx then report (\<lambda>e. e) (broadcastTx L G tr) else sret ())))"

subsection \<open>Blocks\<close>

text \<open>
  The block producer. It reads the pending transactions, and clears them after the block
  is in the chain: these are two steps, between which the other goroutine can handle a
  message. \<open>now\<close> and \<open>rnd\<close> are the clock and the random input of the signature.
\<close>

definition proposeBlock :: "lib \<Rightarrow> u64 \<Rightarrow> nat \<Rightarrow> (node, ref) go" where
  "proposeBlock L now rnd =
     sbind (sread (\<lambda>n. GetHeader (nd_bc n) (Chain_Height (nd_bc n)))) (\<lambda>currHeader.
     sbind (sget (\<lambda>n. Pool_Pending (nd_pool n))) (\<lambda>txns.
     sbind (sget (\<lambda>n. h_headers (nd_heap n) currHeader)) (\<lambda>prev.
     sbind (on_world (on_heap (NewBlockFromPrevHeader L now prev txns))) (\<lambda>br.
     sbind (sget nd_key) (\<lambda>k.
     sbind (on_world (on_heap (Block_Sign L rnd k br))) (\<lambda>_.
     sbind (on_world (AddBlock L br)) (\<lambda>_. sret br)))))))"

definition announceBlock :: "lib \<Rightarrow> gob \<Rightarrow> u64 \<Rightarrow> nat \<Rightarrow> (node, unit) go" where
  "announceBlock L G now rnd =
     sbind (proposeBlock L now rnd) (\<lambda>br. report (\<lambda>e. e) (broadcastBlock L G br))"

definition clearPending :: "(node, unit) go" where
  "clearPending = smodify (\<lambda>n. n\<lparr>nd_pool := Pool_ClearPending (nd_pool n)\<rparr>)"

definition createNewBlock :: "lib \<Rightarrow> gob \<Rightarrow> u64 \<Rightarrow> nat \<Rightarrow> (node, unit) go" where
  "createNewBlock L G now rnd = sbind (announceBlock L G now rnd) (\<lambda>_. clearPending)"

definition requestBlocks :: "gob \<Rightarrow> (node, unit) go" where
  "requestBlocks G =
     sbind (sread (\<lambda>n. NewMessageFromGetBlocksRequest G
       \<lparr>gq_RequestorID = nd_addr n, gq_StartHeight = Chain_Height (nd_bc n) + 1\<rparr>)) (broadcast G)"

text \<open>\<^verbatim>\<open>errors.As\<close>: whether an out-of-sync error is in the chain of wrapped errors.\<close>

fun as_OutOfSync :: "goerror \<Rightarrow> bool" where
  "as_OutOfSync (OutOfSync lag) \<longleftrightarrow> True"
| "as_OutOfSync (VmRun e) \<longleftrightarrow> as_OutOfSync e"
| "as_OutOfSync (BlockTx i e) \<longleftrightarrow> as_OutOfSync e"
| "as_OutOfSync (InvalidBlock e) \<longleftrightarrow> as_OutOfSync e"
| "as_OutOfSync (AddBlockVm h e) \<longleftrightarrow> as_OutOfSync e"
| "as_OutOfSync _ \<longleftrightarrow> False"

text \<open>The error of the request for the missing blocks is dropped.\<close>

definition handleBlock :: "lib \<Rightarrow> gob \<Rightarrow> ref \<Rightarrow> (node, unit) go" where
  "handleBlock L G br =
     sbind (on_world (on_heap (Block_Hash L br))) (\<lambda>_ n.
       case on_world (AddBlock L br) n of
         (Ok _, n') \<Rightarrow> report (\<lambda>e. e) (broadcastBlock L G br) n'
       | (Panic p, n') \<Rightarrow> (Panic p, n')
       | (Err e, n') \<Rightarrow>
           if as_OutOfSync e then
             (case requestBlocks G n' of (Panic p, n'') \<Rightarrow> (Panic p, n'') | (_, n'') \<Rightarrow> (Ok (), n''))
           else (Err e, n'))"

subsection \<open>Status\<close>

text \<open>A chain whose height has no header would report version 0.\<close>

definition currentStatus :: "node \<Rightarrow> StatusMessageResponse result" where
  "currentStatus n = (let hght = Chain_Height (nd_bc n)
     in case GetHeader (nd_bc n) hght of
          Panic p \<Rightarrow> Panic p
        | Err e \<Rightarrow> Ok \<lparr>sr_ServerID = nd_ID n, sr_CurrentHeight = hght, sr_Version = 0\<rparr>
        | Ok hr \<Rightarrow> Ok \<lparr>sr_ServerID = nd_ID n, sr_CurrentHeight = hght,
                      sr_Version = hd_Version (h_headers (nd_heap n) hr)\<rparr>)"

definition handleStatusMessageResponse :: "StatusMessageResponse \<Rightarrow> (node, unit) go" where
  "handleStatusMessageResponse smsg = sret ()"

definition handleStatusMessageRequest :: "gob \<Rightarrow> string \<Rightarrow> (node, unit) go" where
  "handleStatusMessageRequest G smsg =
     sbind (sread currentStatus) (\<lambda>cur.
     sbind (sread (\<lambda>_. NewMessageFromStatusMessageResponse G cur)) (broadcast G))"

subsection \<open>Synchronisation\<close>

text \<open>
  The loop \<^verbatim>\<open>for i := start; i <= s.chain.Height(); i++\<close>. The variable wraps, so it does not
  return when the height is the largest one.
\<close>

partial_function (option) blocks_loop :: "blockchain \<Rightarrow> u32 \<Rightarrow> ref list \<Rightarrow> ref list result option" where
  "blocks_loop bc i blocks =
     (if i \<le> Chain_Height bc then
        (case GetBlockAt bc i of
           Ok br \<Rightarrow> blocks_loop bc (i + 1) (blocks @ [br])
         | Err e \<Rightarrow> Some (Err e)
         | Panic p \<Rightarrow> Some (Panic p))
      else Some (Ok blocks))"

definition blocks_from :: "blockchain \<Rightarrow> u32 \<Rightarrow> ref list result" where
  "blocks_from bc start = (case blocks_loop bc start [] of Some r \<Rightarrow> r | None \<Rightarrow> Panic NoReturn)"

text \<open>The error of the answer is dropped.\<close>

definition handleGetBlocksRequest :: "gob \<Rightarrow> GetBlocksRequest \<Rightarrow> (node, unit) go" where
  "handleGetBlocksRequest G msg =
     sbind (sread (\<lambda>n. case Peers_get (gq_RequestorID msg) n of
       None \<Rightarrow> Err (UnknownRequestor (gq_RequestorID msg)) | Some pipe \<Rightarrow> Ok pipe)) (\<lambda>pipe.
     sbind (sread (\<lambda>n. blocks_from (nd_bc n) (gq_StartHeight msg))) (\<lambda>blocksToSend.
     sbind (sread (\<lambda>n. NewMessageFromGetBlocksResponse G (nd_heap n) blocksToSend)) (\<lambda>out n.
       case send G (p_remote pipe) out n of (Panic p, n') \<Rightarrow> (Panic p, n') | (_, n') \<Rightarrow> (Ok (), n'))))"

definition handleGetBlocksResponse :: "lib \<Rightarrow> ref list \<Rightarrow> (node, unit) go" where
  "handleGetBlocksResponse L blocks =
     sfor blocks (\<lambda>b. sbind (sread (\<lambda>n. block_header (nd_heap n) b)) (\<lambda>x n.
       if \<not> HasBlockAtHeight (nd_bc n) (hd_Height x) then on_world (AddBlock L b) n else (Ok (), n)))"

subsection \<open>Subscriptions\<close>

definition handleSubscribeMessageRequest :: "gob \<Rightarrow> SubscribeMessageRequest \<Rightarrow> (node, unit) go" where
  "handleSubscribeMessageRequest G smsg =
     sbind (sread (\<lambda>n. case Transport_Get (sq_Handle smsg) n of
       None \<Rightarrow> Err (GhostConnection (sq_Handle smsg)) | Some pipe \<Rightarrow> Ok pipe)) (\<lambda>pipe.
     sbind (Peers_add (sq_RequestorID smsg) pipe) (\<lambda>_.
     sbind (sread (\<lambda>n. NewMessageFromSubscribeMessageResponse G (nd_addr n))) (send G (p_remote pipe))))"

definition handleSubscribeMessageResponse :: "string \<Rightarrow> (node, unit) go" where
  "handleSubscribeMessageResponse providerId =
     sbind (sread (\<lambda>n. case Transport_Get providerId n of
       None \<Rightarrow> Err (GhostConnection providerId) | Some pipe \<Rightarrow> Ok pipe)) (\<lambda>pipe.
     Peers_add providerId pipe)"

text \<open>
  Subscribing to a leader. Without a connection the code logs that and then uses the nil
  pipe.
\<close>

definition Subscribe :: "gob \<Rightarrow> string \<Rightarrow> (node, unit) go" where
  "Subscribe G leader =
     sbind (sread (\<lambda>n. case Transport_Get leader n of
       None \<Rightarrow> Panic NilDereference | Some pipe \<Rightarrow> Ok pipe)) (\<lambda>pipe.
     sbind (sread (\<lambda>n. NewMessageFromSubscribeMessageRequest G
       \<lparr>sq_RequestorID = nd_addr n, sq_Handle = p_local pipe\<rparr>)) (send G leader))"

subsection \<open>Messages\<close>

text \<open>
  A decoded message points to new objects: a transaction without hasher, creation time and
  cached hash, a block without cached hash.
\<close>

datatype decoded =
    DTransaction ref
  | DBlock ref
  | DStatusMessageRequest string
  | DStatusMessageResponse StatusMessageResponse
  | DSubscribeMessageRequest SubscribeMessageRequest
  | DSubscribeMessageResponse string
  | DGetBlocksRequest GetBlocksRequest
  | DGetBlocksResponse "ref list"
  | DOther

fun received_tx :: "tx_wire \<Rightarrow> transaction" where
  "received_tx (d, f, s) = \<lparr>tx_Data = d, tx_From = f, tx_Signature = s, tx_hash = zero_hash,
     tx_createdAt = 0, tx_hasher = None\<rparr>"

primrec alloc_each :: "('b \<Rightarrow> (heap, ref) go) \<Rightarrow> 'b list \<Rightarrow> (heap, ref list) go" where
  "alloc_each f [] = sret []"
| "alloc_each f (x # xs) = sbind (f x) (\<lambda>r. sbind (alloc_each f xs) (\<lambda>rs. sret (r # rs)))"

definition receive_tx :: "tx_wire \<Rightarrow> (heap, ref) go" where
  "receive_tx w = alloc_tx (received_tx w)"

definition receive_header :: "header option \<Rightarrow> (heap, ref option) go" where
  "receive_header x = (case x of None \<Rightarrow> sret None | Some y \<Rightarrow> sbind (alloc_header y) (\<lambda>r. sret (Some r)))"

definition receive_block :: "block_wire \<Rightarrow> (heap, ref) go" where
  "receive_block b =
     sbind (receive_header (bw_Header b)) (\<lambda>hr.
     sbind (alloc_each receive_tx (bw_Transactions b)) (\<lambda>trs.
       alloc_block \<lparr>blk_Header = hr, blk_Transactions = trs, blk_Validator = bw_Validator b,
         blk_Signature = bw_Signature b, blk_hash = zero_hash\<rparr>))"

primrec receive_payload :: "payload \<Rightarrow> (heap, decoded) go" where
  "receive_payload (PTx t) = sbind (receive_tx t) (\<lambda>r. sret (DTransaction r))"
| "receive_payload (PBlock b) = sbind (receive_block b) (\<lambda>r. sret (DBlock r))"
| "receive_payload (PStatusRequest i) = sret (DStatusMessageRequest i)"
| "receive_payload (PStatusResponse s) = sret (DStatusMessageResponse s)"
| "receive_payload (PSubscribeResponse i) = sret (DSubscribeMessageResponse i)"
| "receive_payload (PSubscribeRequest q) = sret (DSubscribeMessageRequest q)"
| "receive_payload (PGetBlocksRequest q) = sret (DGetBlocksRequest q)"
| "receive_payload (PGetBlocksResponse bs) = sbind (alloc_each receive_block bs) (\<lambda>rs. sret (DGetBlocksResponse rs))"

primrec ProcessMessage :: "lib \<Rightarrow> gob \<Rightarrow> int \<Rightarrow> decoded \<Rightarrow> (node, unit) go" where
  "ProcessMessage L G now (DTransaction t) = handleTransaction L G now t"
| "ProcessMessage L G now (DBlock b) = handleBlock L G b"
| "ProcessMessage L G now (DStatusMessageRequest i) = handleStatusMessageRequest G i"
| "ProcessMessage L G now (DStatusMessageResponse s) = handleStatusMessageResponse s"
| "ProcessMessage L G now (DSubscribeMessageRequest q) = handleSubscribeMessageRequest G q"
| "ProcessMessage L G now (DSubscribeMessageResponse i) = handleSubscribeMessageResponse i"
| "ProcessMessage L G now (DGetBlocksRequest q) = handleGetBlocksRequest G q"
| "ProcessMessage L G now (DGetBlocksResponse bs) = handleGetBlocksResponse L bs"
| "ProcessMessage L G now DOther = sfail InvalidDecodedMessage"

text \<open>
  One turn of \<^verbatim>\<open>processChannels\<close> on a message from the transport, and one on a transaction
  from the HTTP server, which is decoded from JSON.
\<close>

definition decode_rpc :: "gob \<Rightarrow> string \<Rightarrow> bytes \<Rightarrow> (node, decoded) go" where
  "decode_rpc G sender content =
     sbind (sread (\<lambda>_. ExtractMessageFromRPC G sender content)) (\<lambda>(_, p).
       on_world (on_heap (receive_payload p)))"

definition process_rpc :: "lib \<Rightarrow> gob \<Rightarrow> int \<Rightarrow> string \<Rightarrow> bytes \<Rightarrow> (node, unit) go" where
  "process_rpc L G now sender content = (\<lambda>n.
     case decode_rpc G sender content n of
       (Err e, n') \<Rightarrow> report DecodeRpc (sfail e) n'
     | (Panic p, n') \<Rightarrow> (Panic p, n')
     | (Ok d, n') \<Rightarrow> report HandleRpc (ProcessMessage L G now d) n')"

definition process_api_tx :: "lib \<Rightarrow> gob \<Rightarrow> int \<Rightarrow> tx_wire \<Rightarrow> (node, unit) go" where
  "process_api_tx L G now t =
     sbind (on_world (on_heap (receive_tx t))) (\<lambda>tr. report HandleApiTx (handleTransaction L G now tr))"

text \<open>One turn of \<^verbatim>\<open>runValidator\<close> on a tick.\<close>

definition validator_tick :: "lib \<Rightarrow> gob \<Rightarrow> u64 \<Rightarrow> nat \<Rightarrow> (node, unit) go" where
  "validator_tick L G now rnd = report (\<lambda>e. e) (createNewBlock L G now rnd)"

subsection \<open>Starting a node\<close>

definition genesis :: header where
  "genesis = \<lparr>hd_Version = 1, hd_DataHash = zero_hash, hd_PreviousBlockHash = zero_hash,
     hd_Timestamp = 1000000, hd_Height = 0\<rparr>"

definition createGenesis :: "(heap, ref) go" where
  "createGenesis = sbind (alloc_header genesis) (\<lambda>hr. alloc_block (NewBlock hr []))"

record server_opts =
  so_ID :: string
  so_PrivateKey :: private_key
  so_TxHasher :: "tx_hasher option"
  so_Blockchain :: "blockchain option"
  so_addr :: string

text \<open>\<open>rand_id\<close> is the random number that replaces an empty identifier.\<close>

definition NewServer :: "lib \<Rightarrow> string \<Rightarrow> server_opts \<Rightarrow> heap \<Rightarrow> node result" where
  "NewServer L rand_id opts h = (let
     hasher = (case so_TxHasher opts of None \<Rightarrow> DefaultTxHasher | Some hs \<Rightarrow> hs);
     sid = (if so_ID opts = [] then rand_id else so_ID opts);
     node = (\<lambda>w. \<lparr>nd_world = w, nd_pool = NewTxPool [WithHasher (Some hasher)], nd_ID = sid,
       nd_key = so_PrivateKey opts, nd_addr = so_addr opts, nd_conns = Map.empty, nd_sent = [],
       nd_peers = NewPeers, nd_errs = []\<rparr>)
   in case so_Blockchain opts of
        Some bc \<Rightarrow> Ok (node \<lparr>w_heap = h, w_bc = bc\<rparr>)
      | None \<Rightarrow> (case createGenesis h of
            (Ok g, h') \<Rightarrow> (case NewBlockchain L g h' of
                (Ok _, w) \<Rightarrow> Ok (node w) | (Err e, w) \<Rightarrow> Err e | (Panic p, w) \<Rightarrow> Panic p)
          | (Err e, h') \<Rightarrow> Err e
          | (Panic p, h') \<Rightarrow> Panic p))"

definition isValidator :: "node \<Rightarrow> bool" where
  "isValidator n \<longleftrightarrow> \<not> PrivateKey_IsZero (nd_key n)"

subsection \<open>The steps of a node\<close>

text \<open>
  What can happen to a node, in any order: a message from anyone with any content, a
  transaction over HTTP, the two halves of the block producer (here the second one may
  come at any time), and connections of the transport that come or go. A run is a sequence
  of such events; a panic ends it.
\<close>

datatype event =
    Received int string bytes
  | ReceivedApi int tx_wire
  | Proposed u64 nat
  | Cleared
  | Connections "string \<rightharpoonup> pipe"

primrec handle :: "lib \<Rightarrow> gob \<Rightarrow> event \<Rightarrow> (node, unit) go" where
  "handle L G (Received now sender content) = process_rpc L G now sender content"
| "handle L G (ReceivedApi now t) = process_api_tx L G now t"
| "handle L G (Proposed now rnd) = report (\<lambda>e. e) (announceBlock L G now rnd)"
| "handle L G Cleared = clearPending"
| "handle L G (Connections c) = smodify (\<lambda>n. n\<lparr>nd_conns := c\<rparr>)"

inductive node_run :: "lib \<Rightarrow> gob \<Rightarrow> node \<Rightarrow> event list \<Rightarrow> unit result \<Rightarrow> node \<Rightarrow> bool" for L G n where
  start: "node_run L G n [] (Ok ()) n"
| step: "node_run L G n es (Ok ()) n1 \<Longrightarrow> handle L G e n1 = (r, n2) \<Longrightarrow> node_run L G n (es @ [e]) r n2"

inductive_cases node_run_snocE: "node_run L G n (es @ [e]) r n'"

end
