(* ===== verification/Server_Node_Inv.thy ===== *)
theory Server_Node_Inv
  imports Server_Node Core_Ledger
begin

section \<open>The invariant of a node\<close>

text \<open>
  The invariant that ties the chain, the pool and the memory of a node together, and its
  preservation by every event with every outcome: chain and pool are well formed, all
  references point to objects that exist, every stored block but the genesis block
  verifies, and so does every pending transaction.
\<close>

subsection \<open>Growing memory\<close>

text \<open>
  Blocks that exist point to headers and transactions that exist; no block is made of a
  reference that has not been given out.
\<close>

definition heap_closed :: "heap \<Rightarrow> bool" where
  "heap_closed h \<longleftrightarrow> (\<forall>br.
     (\<forall>hr. blk_Header (h_blocks h br) = Some hr \<longrightarrow> br < h_next h \<and> hr < h_next h) \<and>
     (\<forall>r \<in> set (blk_Transactions (h_blocks h br)). br < h_next h \<and> r < h_next h))"

definition hashers_kept :: "heap \<Rightarrow> heap \<Rightarrow> bool" where
  "hashers_kept h h' \<longleftrightarrow> (\<forall>r. tx_hasher (h_txs h r) \<noteq> None \<longrightarrow> tx_hasher (h_txs h' r) \<noteq> None)"

text \<open>What every step may do to the memory: new objects, and caches and hashers of the old ones.\<close>

definition grows :: "lib \<Rightarrow> heap \<Rightarrow> heap \<Rightarrow> bool" where
  "grows L h h' \<longleftrightarrow> h_next h \<le> h_next h' \<and>
     (\<forall>r < h_next h. h_headers h' r = h_headers h r \<and> same_content (h_blocks h r) (h_blocks h' r) \<and>
        tx_wire (h_txs h' r) = tx_wire (h_txs h r) \<and>
        (tx_hasher (h_txs h r) \<noteq> None \<longrightarrow> tx_hasher (h_txs h' r) \<noteq> None)) \<and>
     (heap_closed h \<longrightarrow> heap_closed h') \<and> (heap_closed h \<and> heap_ok L h \<longrightarrow> heap_ok L h')"

lemma grows_refl [simp]: "grows L h h"
  by (simp add: grows_def)

lemma grows_trans: "grows L h h1 \<Longrightarrow> grows L h1 h2 \<Longrightarrow> grows L h h2"
  by (auto simp: grows_def same_content_def)

lemma grows_next: "grows L h h' \<Longrightarrow> r < h_next h \<Longrightarrow> r < h_next h'"
  by (auto simp: grows_def)

lemma grows_quiet:
  assumes "quiet L h h'" "hashers_kept h h'"
  shows "grows L h h'"
proof -
  have "heap_closed h' = heap_closed h"
    using assms(1) by (auto simp: heap_closed_def quiet_def same_content_def)
  with assms show ?thesis by (simp add: grows_def quiet_def hashers_kept_def)
qed

lemma hashers_kept_refl [simp]: "hashers_kept h h"
  by (simp add: hashers_kept_def)

lemma hashers_kept_trans: "hashers_kept h h1 \<Longrightarrow> hashers_kept h1 h2 \<Longrightarrow> hashers_kept h h2"
  by (simp add: hashers_kept_def)

lemma heap_closed_header:
  "heap_closed h \<Longrightarrow> blk_Header (h_blocks h br) = Some hr \<Longrightarrow> br < h_next h \<and> hr < h_next h"
  unfolding heap_closed_def by blast

lemma heap_closed_tx:
  "heap_closed h \<Longrightarrow> r \<in> set (blk_Transactions (h_blocks h br)) \<Longrightarrow> br < h_next h \<and> r < h_next h"
  unfolding heap_closed_def by blast

text \<open>New objects.\<close>

lemma heap_closed_same_blocks:
  "heap_closed h \<Longrightarrow> h_blocks h' = h_blocks h \<Longrightarrow> h_next h \<le> h_next h' \<Longrightarrow> heap_closed h'"
  unfolding heap_closed_def by (metis order_less_le_trans)

lemma alloc_tx_grows:
  assumes "tx_cache_ok L t"
  shows "grows L h (snd (alloc_tx t h))"
proof -
  let ?h = "h\<lparr>h_txs := (h_txs h)(h_next h := t), h_next := h_next h + 1\<rparr>"
  have "heap_closed ?h" if "heap_closed h" by (rule heap_closed_same_blocks [OF that]) simp_all
  moreover have "heap_ok L ?h" if "heap_ok L h"
    using that assms by (simp add: heap_ok_def block_cache_ok_def block_header_def cong: option.case_cong)
  ultimately show ?thesis by (simp add: alloc_tx_def grows_def)
qed

lemma alloc_header_block_header:
  assumes "heap_closed h"
  shows "block_header (h\<lparr>h_headers := (h_headers h)(h_next h := x), h_next := m\<rparr>) r = block_header h r"
  using heap_closed_header [OF assms, of r]
  by (auto simp: block_header_def split: option.split)

lemma alloc_header_grows: "grows L h (snd (alloc_header x h))"
proof -
  let ?h = "h\<lparr>h_headers := (h_headers h)(h_next h := x), h_next := h_next h + 1\<rparr>"
  have "heap_ok L ?h" if "heap_closed h" "heap_ok L h"
    using that(2) alloc_header_block_header [OF that(1)] by (simp add: heap_ok_def block_cache_ok_def)
  moreover have "heap_closed ?h" if "heap_closed h" by (rule heap_closed_same_blocks [OF that]) simp_all
  ultimately show ?thesis by (simp add: alloc_header_def grows_def)
qed

lemma alloc_block_grows:
  assumes "\<And>hr. blk_Header b = Some hr \<Longrightarrow> hr < h_next h" "\<And>r. r \<in> set (blk_Transactions b) \<Longrightarrow> r < h_next h"
    and "Hash_IsZero (blk_hash b)"
  shows "grows L h (snd (alloc_block b h))"
proof -
  let ?h = "h\<lparr>h_blocks := (h_blocks h)(h_next h := b), h_next := h_next h + 1\<rparr>"
  have "heap_ok L ?h" if "heap_ok L h"
    using that assms(3) by (simp add: heap_ok_def block_cache_ok_def block_header_def cong: option.case_cong)
  moreover have "heap_closed ?h" if c: "heap_closed h"
    unfolding heap_closed_def using heap_closed_header [OF c] heap_closed_tx [OF c] assms(1,2)
    by (auto simp: less_SucI)
  ultimately show ?thesis by (simp add: alloc_block_def grows_def)
qed

lemma grows_closed: "grows L h h' \<Longrightarrow> heap_closed h \<Longrightarrow> heap_closed h'"
  by (simp add: grows_def)

lemma grows_header: "grows L h h' \<Longrightarrow> r < h_next h \<Longrightarrow> h_headers h' r = h_headers h r"
  by (simp add: grows_def)

lemma grows_content: "grows L h h' \<Longrightarrow> r < h_next h \<Longrightarrow> same_content (h_blocks h r) (h_blocks h' r)"
  by (simp add: grows_def)

lemma grows_tx: "grows L h h' \<Longrightarrow> r < h_next h \<Longrightarrow> tx_wire (h_txs h' r) = tx_wire (h_txs h r)"
  by (simp add: grows_def)

text \<open>What goes out of a block stays the same.\<close>

lemma grows_wire:
  assumes "grows L h h'" "heap_closed h" "r < h_next h"
  shows "block_wire_of h' r = block_wire_of h r"
proof -
  have "same_content (h_blocks h r) (h_blocks h' r)" by (rule grows_content [OF assms(1,3)])
  moreover have "map_option (h_headers h') (blk_Header (h_blocks h r)) = map_option (h_headers h) (blk_Header (h_blocks h r))"
    using heap_closed_header [OF assms(2), of r] grows_header [OF assms(1)]
    by (cases "blk_Header (h_blocks h r)") auto
  moreover have "map (\<lambda>t. tx_wire (h_txs h' t)) (blk_Transactions (h_blocks h r)) =
      map (\<lambda>t. tx_wire (h_txs h t)) (blk_Transactions (h_blocks h r))"
    using heap_closed_tx [OF assms(2)] grows_tx [OF assms(1)] by auto
  ultimately show ?thesis
    by (simp add: block_wire_of_def Let_def the_txs_def same_content_def o_def)
qed

subsection \<open>Received objects\<close>

lemma alloc_each_spec:
  assumes "\<And>x h a h'. heap_closed h \<Longrightarrow> f x h = (a, h') \<Longrightarrow>
      \<exists>r. a = Ok r \<and> grows L h h' \<and> r < h_next h' \<and> Q h' r x"
    and "\<And>x h h' r. Q h r x \<Longrightarrow> r < h_next h \<Longrightarrow> heap_closed h \<Longrightarrow> grows L h h' \<Longrightarrow> Q h' r x"
    and "heap_closed h" "alloc_each f xs h = (a, h')"
  shows "\<exists>rs. a = Ok rs \<and> grows L h h' \<and> list_all2 (\<lambda>r x. r < h_next h' \<and> Q h' r x) rs xs"
  using assms(3,4)
proof (induction xs arbitrary: h a h')
  case Nil
  then show ?case by (simp add: go_simps)
next
  case (Cons x xs)
  obtain a1 h1 where f: "f x h = (a1, h1)" by fastforce
  from assms(1) [OF Cons.prems(1) f] obtain r where r: "a1 = Ok r" "grows L h h1" "r < h_next h1" "Q h1 r x"
    by blast
  have c1: "heap_closed h1" by (rule grows_closed [OF r(2) Cons.prems(1)])
  obtain a2 h2 where e: "alloc_each f xs h1 = (a2, h2)" by fastforce
  from Cons.IH [OF c1 this] Cons.prems(2) f r(1) obtain rs where rs: "a2 = Ok rs" "h2 = h'" "grows L h1 h'"
    "list_all2 (\<lambda>r x. r < h_next h' \<and> Q h' r x) rs xs" "a = Ok (r # rs)"
    by (cases a2) (auto simp: go_simps e)
  have "r < h_next h'" by (rule grows_next [OF rs(3) r(3)])
  moreover have "Q h' r x" by (rule assms(2) [OF r(4,3) c1 rs(3)])
  ultimately show ?case using grows_trans [OF r(2) rs(3)] rs by auto
qed

lemma receive_tx_spec:
  assumes "receive_tx x h = (a, h')"
  shows "\<exists>r. a = Ok r \<and> grows L h h' \<and> r < h_next h' \<and> tx_wire (h_txs h' r) = x"
proof -
  obtain d f sg where x: "x = (d, f, sg)" by (cases x)
  have "tx_cache_ok L (received_tx x)" by (simp add: x tx_cache_ok_def)
  from alloc_tx_grows [OF this, of h] assms show ?thesis
    by (auto simp: receive_tx_def alloc_tx_def x tx_wire_def)
qed

lemma receive_header_spec:
  assumes "receive_header x h = (a, h')"
  shows "\<exists>ho. a = Ok ho \<and> grows L h h' \<and> (\<forall>hr. ho = Some hr \<longrightarrow> hr < h_next h') \<and>
    map_option (h_headers h') ho = x"
  using assms alloc_header_grows [of L h]
  by (cases x) (auto simp: receive_header_def go_simps sbind_def alloc_header_def sret_def)

lemma receive_block_spec:
  assumes "heap_closed h" "receive_block b h = (a, h')"
  shows "\<exists>r. a = Ok r \<and> grows L h h' \<and> r < h_next h' \<and> block_wire_of h' r = b"
proof -
  obtain a1 h1 where 1: "receive_header (bw_Header b) h = (a1, h1)" by fastforce
  from receive_header_spec [OF 1, of L] obtain ho where ho: "a1 = Ok ho" "grows L h h1"
    "\<And>hr. ho = Some hr \<Longrightarrow> hr < h_next h1" "map_option (h_headers h1) ho = bw_Header b" by blast
  have c1: "heap_closed h1" by (rule grows_closed [OF ho(2) assms(1)])
  obtain a2 h2 where 2: "alloc_each receive_tx (bw_Transactions b) h1 = (a2, h2)" by fastforce
  have "\<exists>rs. a2 = Ok rs \<and> grows L h1 h2 \<and>
      list_all2 (\<lambda>r x. r < h_next h2 \<and> tx_wire (h_txs h2 r) = x) rs (bw_Transactions b)"
    by (rule alloc_each_spec [OF _ _ c1 2]) (use receive_tx_spec grows_tx in fastforce)+
  then obtain rs where rs: "a2 = Ok rs" "grows L h1 h2"
    "list_all2 (\<lambda>r x. r < h_next h2 \<and> tx_wire (h_txs h2 r) = x) rs (bw_Transactions b)" by blast
  let ?b = "\<lparr>blk_Header = ho, blk_Transactions = rs, blk_Validator = bw_Validator b,
      blk_Signature = bw_Signature b, blk_hash = zero_hash\<rparr>"
  have out: "a = Ok (h_next h2)" "h' = snd (alloc_block ?b h2)"
    using assms(2) 1 2 ho(1) rs(1) by (simp_all add: receive_block_def go_simps alloc_block_def)
  have hd: "hr < h_next h2" if "ho = Some hr" for hr using grows_next [OF rs(2) ho(3) [OF that]] .
  have tx: "r < h_next h2" if "r \<in> set rs" for r
    using rs(3) that by (auto simp: list_all2_conv_all_nth in_set_conv_nth)
  have g: "grows L h2 h'"
    unfolding out(2) by (rule alloc_block_grows) (use hd tx in simp_all)
  have "map (\<lambda>r. tx_wire (h_txs h2 r)) rs = bw_Transactions b"
    using rs(3) by (auto simp: list_all2_conv_all_nth intro: nth_equalityI)
  moreover have "map_option (h_headers h2) ho = bw_Header b"
    using ho(3,4) grows_header [OF rs(2)] by (cases ho) auto
  ultimately have "block_wire_of h' (h_next h2) = b"
    by (simp add: out(2) alloc_block_def block_wire_of_def Let_def the_txs_def o_def)
  moreover have "grows L h h'" using ho(2) rs(2) g grows_trans by blast
  ultimately show ?thesis using out by (auto simp: alloc_block_def)
qed

subsection \<open>What the chain and the pool do to the memory\<close>

abbreviation keeps_hashers :: "heap \<Rightarrow> world \<Rightarrow> bool" where
  "keeps_hashers h0 w \<equiv> hashers_kept h0 (w_heap w)"

lemma on_tx_hashers:
  assumes "\<And>t t' a. m t = (a, t') \<Longrightarrow> tx_hasher t \<noteq> None \<Longrightarrow> tx_hasher t' \<noteq> None" "on_tx r m h = (a, h')"
  shows "hashers_kept h h'"
  using assms by (auto simp: hashers_kept_def on_tx_def szoom_def split: prod.splits)

lemma Tx_Hash_hasher: "Tx_Hash L t = (a, t') \<Longrightarrow> tx_hasher t' = tx_hasher t"
  by (auto dest: Tx_Hash_frame)

lemma on_tx_Hash_hashers: "on_tx r (Tx_Hash L) h = (a, h') \<Longrightarrow> hashers_kept h h'"
  by (rule on_tx_hashers [of "Tx_Hash L"]) (simp_all add: Tx_Hash_hasher)

lemma SetHasher_hashers: "on_tx r (Tx_SetHasher (Some hs)) h = (a, h') \<Longrightarrow> hashers_kept h h'"
  by (rule on_tx_hashers [of "Tx_SetHasher (Some hs)"]) (auto simp: Tx_SetHasher_def go_simps)

lemma Block_Hash_hashers: "Block_Hash L br h = (a, h') \<Longrightarrow> hashers_kept h h'"
  using Block_Hash_effect [of L br h a h'] by (auto simp: hashers_kept_def)

lemma keeps_hashers_on_heap:
  assumes "\<And>h a h'. m h = (a, h') \<Longrightarrow> hashers_kept h h'"
  shows "keeps (keeps_hashers h0) (on_heap m)"
proof (rule keepsI)
  fix w a w'
  assume "keeps_hashers h0 w" "on_heap m w = (a, w')"
  then show "keeps_hashers h0 w'"
    using assms hashers_kept_trans by (fastforce simp: szoom_def split: prod.splits)
qed

lemma keeps_hashers_on_bc: "keeps (keeps_hashers h0) (on_bc m)"
  by (rule keeps_szoom) simp

lemma ValidateBlock_hashers: "keeps (keeps_hashers h0) (ValidateBlock L br)"
proof (rule keepsI)
  fix w r w'
  assume k: "keeps_hashers h0 w" and v: "ValidateBlock L br w = (r, w')"
  have "hashers_kept (w_heap w) (w_heap w')"
    using v by (auto simp: ValidateBlock_def Let_def sbind_def sread_def sfail_def szoom_def Block_Hash_hashers
        split: result.splits prod.splits if_splits)
  with k show "keeps_hashers h0 w'" by (rule hashers_kept_trans)
qed

lemma run_tx_hashers: "keeps (keeps_hashers h0) (run_tx L tr)"
proof (rule keepsI)
  fix w r w'
  assume k: "keeps_hashers h0 w" and run: "run_tx L tr w = (r, w')"
  have hash: "keeps (keeps_hashers h0) (sbind (on_heap (on_tx tr (Tx_Hash L)))
      (\<lambda>h. sfail (AddBlockVm (Hash_Prefix h) e) :: (world, unit) go))" for e
    by (intro keeps_sbind keeps_sfail keeps_hashers_on_heap on_tx_Hash_hashers)
  have step: "keeps_hashers h0 (w\<lparr>w_bc := (w_bc w)\<lparr>bc_cstate := cs\<rparr>\<rparr>)" for cs using k by simp
  show "keeps_hashers h0 w'"
    using run k keepsD [OF hash step] by (auto simp: run_tx_def Let_def split: result.splits prod.splits)
qed

lemma persist_tx_hashers: "keeps (keeps_hashers h0) (persist_tx L tr)"
  unfolding persist_tx_def
  by (intro keeps_sbind keeps_hashers_on_heap keeps_hashers_on_bc) (fact SetHasher_hashers on_tx_Hash_hashers)+

lemma persistBlock_hashers: "keeps (keeps_hashers h0) (persistBlock L br)"
proof -
  have "keeps (keeps_hashers h0) (\<lambda>w. case on_store (MemStore_Put hr br) w of
         (Err e, w') \<Rightarrow> (Ok (), w')
       | (Panic p, w') \<Rightarrow> (Panic p, w')
       | (Ok _, w') \<Rightarrow> sfor (blk_Transactions (h_blocks (w_heap w') br)) (persist_tx L) w')" for hr
  proof (rule keepsI)
    fix w a w'
    assume k: "keeps_hashers h0 w"
    obtain r1 w1 where s: "on_store (MemStore_Put hr br) w = (r1, w1)" by fastforce
    have k1: "keeps_hashers h0 w1" by (rule keepsD [OF keeps_hashers_on_bc k s])
    assume "(case on_store (MemStore_Put hr br) w of
         (Err e, w') \<Rightarrow> (Ok (), w')
       | (Panic p, w') \<Rightarrow> (Panic p, w')
       | (Ok _, w') \<Rightarrow> sfor (blk_Transactions (h_blocks (w_heap w') br)) (persist_tx L) w') = (a, w')"
    with s k1 show "keeps_hashers h0 w'"
      using keepsD [OF keeps_sfor [of "keeps_hashers h0", OF persist_tx_hashers] k1]
      by (auto split: result.splits)
  qed
  note store = this
  show ?thesis
    unfolding persistBlock_def
    by (intro keeps_sbind keeps_sread keeps_hashers_on_heap [OF Block_Hash_hashers] keeps_hashers_on_bc store)
qed

lemma AddBlock_hashers: "AddBlock L br w = (r, w') \<Longrightarrow> hashers_kept (w_heap w) (w_heap w')"
proof -
  have "keeps (keeps_hashers (w_heap w)) (AddBlock L br)"
    unfolding AddBlock_def
    by (intro keeps_sbind keeps_sget keeps_sfor ValidateBlock_hashers run_tx_hashers persistBlock_hashers)
  then show "AddBlock L br w = (r, w') \<Longrightarrow> hashers_kept (w_heap w) (w_heap w')"
    by (rule keepsD [of _ _ w]) simp_all
qed

text \<open>The pool asks for hashes and sets hashers, nothing else.\<close>

lemma keeps_quiet_pool:
  assumes "\<And>h a h'. m h = (a, h') \<Longrightarrow> quiet L h h'"
  shows "keeps (\<lambda>s. quiet L h0 (ps_heap s)) (szoom ps_heap (\<lambda>h s. s\<lparr>ps_heap := h\<rparr>) m)"
proof (rule keepsI)
  fix s a s'
  assume "quiet L h0 (ps_heap s)" "szoom ps_heap (\<lambda>h s. s\<lparr>ps_heap := h\<rparr>) m s = (a, s')"
  then show "quiet L h0 (ps_heap s')"
    using assms quiet_trans by (fastforce simp: szoom_def split: prod.splits)
qed

lemma on_tx_Hash_quiet: "on_tx r (Tx_Hash L) h = (a, h') \<Longrightarrow> quiet L h h'"
  by (rule on_tx_quiet [OF _ Tx_Hash_quiet])

lemma on_tx_SetHasher_quiet: "on_tx r (Tx_SetHasher hs) h = (a, h') \<Longrightarrow> quiet L h h'"
  by (rule on_tx_quiet [OF _ SetHasher_quiet])

lemma TM_Add_quiet: "TM_Add L tr (h, m) = (a, (h', m')) \<Longrightarrow> quiet L h h'"
  by (auto simp: TM_Add_def sbind_def szoom_def smodify_def on_tx_Hash_quiet split: prod.splits result.splits)

lemma Pool_Add_quiet:
  assumes "Pool_Add L tr s = (r, s')"
  shows "quiet L (ps_heap s) (ps_heap s')"
proof -
  let ?I = "\<lambda>s'. quiet L (ps_heap s) (ps_heap s')"
  have add: "keeps ?I (on_all (TM_Add L tr))" "keeps ?I (on_pending (TM_Add L tr))"
    using TM_Add_quiet quiet_trans
    by (auto simp: keeps_def szoom_def split: prod.split)
  have rem: "keeps ?I (on_all (on_remove x))" "keeps ?I (on_pending (on_remove x))" for x
    by (auto simp: keeps_def szoom_def smodify_def)
  have tx: "keeps ?I (on_pool_tx r (Tx_Hash L))" "keeps ?I (on_pool_tx r (Tx_SetHasher hs))" for r hs
    by (rule keeps_quiet_pool, erule on_tx_Hash_quiet on_tx_SetHasher_quiet)+
  have "keeps ?I (prune L tr)"
  proof (rule keepsI)
    fix t a t'
    assume i: "?I t" and p: "prune L tr t = (a, t')"
    have "keeps ?I (sbind (sread (\<lambda>s. TM_First (tp_all (ps_pool s)))) (\<lambda>first.
       sbind (on_pool_tx first (Tx_Hash L)) (\<lambda>_. sbind (on_pool_tx tr (Tx_Hash L)) (\<lambda>_.
       sbind (on_pool_tx first (Tx_Hash L)) (\<lambda>x. on_all (on_remove x))))))"
      by (intro keeps_sbind keeps_sread tx rem)
    from keepsD [OF this i] i p show "?I t'" by (auto simp: prune_def split: if_splits)
  qed
  note prune = this
  have rollback: "keeps ?I (with_rollback x m)" if m: "keeps ?I m" for x and m :: "(pool_state, bool) go"
  proof (rule keepsI)
    fix t a t'
    assume i: "?I t" and p: "with_rollback x m t = (a, t')"
    obtain a1 t1 where t1: "m t = (a1, t1)" by fastforce
    have i1: "?I t1" by (rule keepsD [OF m i t1])
    have "keeps ?I (sbind (on_all (on_remove x)) (\<lambda>_. sbind (on_pending (on_remove x)) (\<lambda>_. sfail e :: (pool_state, bool) go)))" for e
      by (intro keeps_sbind keeps_sfail rem)
    from keepsD [OF this i1] i1 p t1 show "?I t'" by (auto simp: with_rollback_def split: result.splits)
  qed
  have "keeps ?I (sbind (on_pool_tx tr (Tx_SetHasher hs)) (\<lambda>_.
       sbind (on_pool_tx tr (Tx_Hash L)) (\<lambda>txHash.
       sbind (sget (\<lambda>s. Pool_Contains txHash (ps_pool s))) (\<lambda>known.
         if known then sret False
         else sbind (prune L tr) (\<lambda>_. with_rollback txHash
             (sbind (on_all (TM_Add L tr)) (\<lambda>_. sbind (on_pending (TM_Add L tr)) (\<lambda>_. sret True))))))))" for hs
    by (intro keeps_sbind keeps_sget keeps_if keeps_sret add tx prune rollback)
  from keepsD [OF this, of s] assms show ?thesis
    by (auto simp: Pool_Add_def split: if_splits)
qed

subsection \<open>The invariant\<close>

definition chain_closed :: "heap \<Rightarrow> blockchain \<Rightarrow> bool" where
  "chain_closed h b \<longleftrightarrow> (\<forall>hr \<in> set (chain_refs b). hr < h_next h) \<and>
     (\<forall>hr br. ms_data (bc_store b) hr = Some br \<longrightarrow> br < h_next h) \<and>
     (\<forall>x r. ms_data (bc_txStore b) x = Some r \<longrightarrow> r < h_next h)"

text \<open>The genesis block is not validated when a chain is made.\<close>

definition blocks_verified :: "lib \<Rightarrow> heap \<Rightarrow> blockchain \<Rightarrow> bool" where
  "blocks_verified L h b \<longleftrightarrow> (\<forall>hr \<in> set (tl (chain_refs b)). \<forall>br. ms_data (bc_store b) hr = Some br \<longrightarrow>
     Block_Verify L h br = Ok ())"

definition world_ok :: "lib \<Rightarrow> world \<Rightarrow> bool" where
  "world_ok L w \<longleftrightarrow> chain_ok L w \<and> heap_closed (w_heap w) \<and> chain_closed (w_heap w) (w_bc w) \<and>
     blocks_verified L (w_heap w) (w_bc w)"

definition pool_good :: "lib \<Rightarrow> pool_state \<Rightarrow> bool" where
  "pool_good L s \<longleftrightarrow> pool_ok L s \<and>
     (\<forall>r \<in> set (pool_items s) \<union> set (pool_seen s). r < h_next (ps_heap s)) \<and>
     (\<forall>r \<in> set (pool_items s). Tx_Verify L (h_txs (ps_heap s) r) = Ok ())"

definition node_ok :: "lib \<Rightarrow> node \<Rightarrow> bool" where
  "node_ok L n \<longleftrightarrow> world_ok L (nd_world n) \<and> pool_good L (pool_view n)"

text \<open>
  What a step of a node keeps; for its chain it is a sequence of insertions and of changes
  of the memory that leave the ledger alone.
\<close>

definition advances :: "lib \<Rightarrow> node \<Rightarrow> node \<Rightarrow> bool" where
  "advances L n n' \<longleftrightarrow> node_ok L n' \<and> extends (nd_world n) (nd_world n') \<and> grows L (nd_heap n) (nd_heap n') \<and>
     (ledger_step L)\<^sup>*\<^sup>* (nd_world n) (nd_world n')"

lemma advances_refl: "node_ok L n \<Longrightarrow> advances L n n"
  by (simp add: advances_def extends_refl)

lemma advances_trans: "advances L n n1 \<Longrightarrow> advances L n1 n2 \<Longrightarrow> advances L n n2"
  unfolding advances_def using extends_trans grows_trans rtranclp_trans [of "ledger_step L"] by blast

lemma world_okD: "world_ok L w \<Longrightarrow> chain_ok L w" "world_ok L w \<Longrightarrow> heap_closed (w_heap w)"
  "world_ok L w \<Longrightarrow> chain_closed (w_heap w) (w_bc w)" "world_ok L w \<Longrightarrow> heap_ok L (w_heap w)"
  by (simp_all add: world_ok_def chain_ok_def)

lemma node_okD: "node_ok L n \<Longrightarrow> chain_ok L (nd_world n)" "node_ok L n \<Longrightarrow> heap_closed (nd_heap n)"
  "node_ok L n \<Longrightarrow> pool_ok L (pool_view n)" "node_ok L n \<Longrightarrow> heap_ok L (nd_heap n)"
  unfolding node_ok_def pool_good_def by (blast intro: world_okD)+

subsection \<open>Verification depends on what goes out of a block\<close>

lemma block_header_wire: "block_header h br = (case bw_Header (block_wire_of h br) of
    None \<Rightarrow> Panic NilDereference | Some x \<Rightarrow> Ok x)"
  by (simp add: block_header_def block_wire_of_def Let_def split: option.split)

lemma Block_Verify_wire:
  assumes "block_wire_of h' br' = block_wire_of h br"
  shows "Block_Verify L h' br' = Block_Verify L h br"
proof -
  have w: "map tx_wire (the_txs h' (blk_Transactions (h_blocks h' br'))) =
      map tx_wire (the_txs h (blk_Transactions (h_blocks h br)))"
    and s: "blk_Signature (h_blocks h' br') = blk_Signature (h_blocks h br)"
    "blk_Validator (h_blocks h' br') = blk_Validator (h_blocks h br)"
    using assms by (simp_all add: block_wire_of_def Let_def)
  have x: "block_header h' br' = block_header h br"
    by (simp only: block_header_wire assms)
  show ?thesis
    using verify_txs_wire [OF w, of L 0] calculateDataHash_wire [OF w, of L]
    by (simp add: Block_Verify_def Let_def s x cong: option.case_cong if_cong)
qed

subsection \<open>Preservation by the parts\<close>

lemma grows_keeps_stored:
  assumes "world_ok L w" "grows L (w_heap w) h'"
  shows "keeps_stored w h'"
proof -
  note c = world_okD(3) [OF assms(1)]
  have data: "tx_Data (h_txs h' r) = tx_Data (h_txs (w_heap w) r)" if "r < h_next (w_heap w)" for r
    using grows_tx [OF assms(2) that] by (simp add: tx_wire_def)
  show ?thesis
    unfolding keeps_stored_def
  proof (intro conjI ballI allI impI)
    fix hr
    assume hr: "hr \<in> set (chain_refs (w_bc w))"
    with c show "h_headers h' hr = h_headers (w_heap w) hr"
      by (simp add: chain_closed_def grows_header [OF assms(2)])
    fix br
    assume "ms_data (bc_store (w_bc w)) hr = Some br"
    with c have "br < h_next (w_heap w)" by (simp add: chain_closed_def)
    from grows_content [OF assms(2) this] show "blk_Header (h_blocks h' br) = blk_Header (h_blocks (w_heap w) br)"
      "blk_Transactions (h_blocks h' br) = blk_Transactions (h_blocks (w_heap w) br)"
      by (simp_all add: same_content_def)
    fix r
    assume "r \<in> set (blk_Transactions (h_blocks (w_heap w) br))"
    with heap_closed_tx [OF world_okD(2) [OF assms(1)]] data
    show "tx_Data (h_txs h' r) = tx_Data (h_txs (w_heap w) r)" by blast
  next
    fix x r
    assume "ms_data (bc_txStore (w_bc w)) x = Some r"
    with c data show "tx_Data (h_txs h' r) = tx_Data (h_txs (w_heap w) r)" by (simp add: chain_closed_def)
  qed
qed

lemma grows_keeps_ledger:
  assumes "world_ok L w" "grows L (w_heap w) h'"
  shows "keeps_ledger w h'"
proof -
  have "block_wires h' br = block_wires (w_heap w) br" if "br < h_next (w_heap w)" for br
    using grows_content [OF assms(2) that] heap_closed_tx [OF world_okD(2) [OF assms(1)]] grows_tx [OF assms(2)]
    by (auto simp: block_wires_def same_content_def)
  then show ?thesis
    using grows_keeps_stored [OF assms] world_okD(3) [OF assms(1)] by (auto simp: keeps_ledger_def chain_closed_def)
qed

lemma grows_ledger_step:
  assumes "world_ok L w" "grows L (w_heap w) h'"
  shows "ledger_step L w (w\<lparr>w_heap := h'\<rparr>)"
  by (rule ledger_step.memory [OF _ grows_keeps_ledger [OF assms]])
     (use assms(2) world_okD(2,4) [OF assms(1)] in \<open>simp add: grows_def\<close>)

lemma grows_chain_closed: "grows L h h' \<Longrightarrow> chain_closed h b \<Longrightarrow> chain_closed h' b"
  using grows_next unfolding chain_closed_def by blast

lemma grows_blocks_verified:
  assumes "grows L h h'" "heap_closed h" "chain_closed h b" "blocks_verified L h b"
  shows "blocks_verified L h' b"
  unfolding blocks_verified_def
proof (intro ballI allI impI)
  fix hr br
  assume s: "hr \<in> set (tl (chain_refs b))" "ms_data (bc_store b) hr = Some br"
  with assms(3) have "br < h_next h" by (simp add: chain_closed_def)
  with Block_Verify_wire [OF grows_wire [OF assms(1,2)]] s assms(4)
  show "Block_Verify L h' br = Ok ()" by (simp add: blocks_verified_def)
qed

lemma world_heap:
  assumes "world_ok L w" "grows L (w_heap w) h'"
  shows "world_ok L (w\<lparr>w_heap := h'\<rparr>) \<and> extends w (w\<lparr>w_heap := h'\<rparr>)"
proof -
  note k = grows_keeps_stored [OF assms]
  have h: "heap_closed h'" "heap_ok L h'"
    using assms(2) world_okD(2,4) [OF assms(1)] by (simp_all add: grows_def)
  have "world_ok L (w\<lparr>w_heap := h'\<rparr>)"
    using memory_chain_ok [OF world_okD(1) [OF assms(1)] h(2) k] h(1) assms(1)
      grows_chain_closed [OF assms(2)] grows_blocks_verified [OF assms(2)]
    by (simp add: world_ok_def)
  moreover have "extends w (w\<lparr>w_heap := h'\<rparr>)" using k by (simp add: extends_def keeps_stored_def)
  ultimately show ?thesis by blast
qed

lemma world_AddBlock:
  assumes "world_ok L w" "AddBlock L br w = (r, w')"
  shows "world_ok L w' \<and> extends w w' \<and> grows L (w_heap w) (w_heap w')"
proof -
  note ok = world_okD [OF assms(1)]
  have c': "chain_ok L w'" and e: "extends w w'"
    using AddBlock_chain_ok [OF ok(1) assms(2)] AddBlock_extends [OF ok(1) assms(2)] by blast+
  have "quiet L (w_heap w) (w_heap w')"
    using ok(1) assms(2) by (cases rule: AddBlock_cases) (auto simp: wquiet_def)
  then have g: "grows L (w_heap w) (w_heap w')"
    by (rule grows_quiet) (rule AddBlock_hashers [OF assms(2)])
  note h = grows_closed [OF g ok(2)] and cl = grows_chain_closed [OF g ok(3)]
  have v: "blocks_verified L (w_heap w') (w_bc w)"
    by (rule grows_blocks_verified [OF g ok(2,3)]) (use assms(1) in \<open>simp add: world_ok_def\<close>)
  from ok(1) assms(2) have "chain_closed (w_heap w') (w_bc w') \<and> blocks_verified L (w_heap w') (w_bc w')"
  proof (cases rule: AddBlock_cases)
    case refused
    then have "\<exists>cs. w_bc w' = (w_bc w)\<lparr>bc_cstate := cs\<rparr>" by (simp add: wquiet_def)
    with cl v show ?thesis by (auto simp: chain_closed_def blocks_verified_def)
  next
    case (added hr bh cs)
    have hr: "blk_Header (h_blocks (w_heap w) br) = Some hr" using added(2) by (simp add: storable_def)
    have lt: "br < h_next (w_heap w')" "hr < h_next (w_heap w')"
      using heap_closed_header [OF ok(2) hr] grows_next [OF g] by blast+
    have "r < h_next (w_heap w')" if "r \<in> set (blk_Transactions (h_blocks (w_heap w) br))" for r
      using heap_closed_tx [OF ok(2) that] grows_next [OF g] by blast
    then have "chain_closed (w_heap w') (w_bc w')"
      using cl lt tx_entries_keyed [of L "w_heap w" "blk_Transactions (h_blocks (w_heap w) br)"]
      by (auto simp: chain_closed_def added(8) stored_def)
    moreover have "hr \<notin> set (chain_refs (w_bc w))"
      using chain_ref_fresh [of L "w_heap w" "w_bc w" hr] ok(1) added by (simp add: chain_ok_def)
    then have "hr \<notin> set (tl (chain_refs (w_bc w)))" using list.set_sel(2) by (metis tl_Nil)
    moreover have "Block_Verify L (w_heap w') br = Ok ()" using added(6) quiet_verify [OF added(7)] by simp
    moreover have "chain_refs (w_bc w) \<noteq> []" using ok(1) by (simp add: chain_ok_def)
    ultimately show ?thesis
      using v by (auto simp: blocks_verified_def added(8) stored_def)
  qed
  with c' e g h show ?thesis by (simp add: world_ok_def)
qed

text \<open>The pool.\<close>

lemma pool_good_grows:
  assumes "pool_good L s" "heap_ok L h'" "grows L (ps_heap s) h'"
  shows "pool_good L (s\<lparr>ps_heap := h'\<rparr>)"
proof -
  have lt: "r < h_next (ps_heap s)" if "r \<in> set (pool_items s) \<union> set (pool_seen s)" for r
    using assms(1) that by (simp add: pool_good_def)
  have w: "tx_wire (h_txs h' r) = tx_wire (h_txs (ps_heap s) r)"
    "tx_hasher (h_txs (ps_heap s) r) \<noteq> None \<Longrightarrow> tx_hasher (h_txs h' r) \<noteq> None" "r < h_next h'"
    if "r \<in> set (pool_items s) \<union> set (pool_seen s)" for r
    using assms(3) lt [OF that] by (auto simp: grows_def)
  let ?s = "s\<lparr>ps_heap := h'\<rparr>"
  have same: "pool_items ?s = pool_items s" "pool_seen ?s = pool_seen s" by (simp_all add: pool_items_def pool_seen_def)
  have key: "pool_key L ?s r = pool_key L s r" if "r \<in> set (pool_items s)" for r
    using w(1) [of r] that by (simp add: pool_key_def tx_wire_def)
  have m: "map (pool_key L ?s) (pool_items s) = map (pool_key L s) (pool_items s)" using key by simp
  have "distinct (map (pool_key L ?s) (pool_items s))"
    unfolding m using assms(1) by (simp add: pool_good_def pool_ok_def)
  moreover have "pool_key L ?s ` set (pool_items s) = pool_key L s ` set (pool_items s)"
    using m by (metis list.set_map)
  moreover have "Tx_Verify L (h_txs h' r) = Ok ()" if "r \<in> set (pool_items s)" for r
    using Tx_Verify_wire [OF w(1)] that assms(1) by (simp add: pool_good_def)
  ultimately show ?thesis
    using assms(1,2) w(2,3) by (simp add: pool_good_def pool_ok_def same heap_ok_def)
qed

lemma Pool_Add_seen:
  assumes "pool_ok L s"
  shows "set (pool_seen (snd (Pool_Add L tr s))) \<subseteq> insert tr (set (pool_seen s)) \<and>
    hashers_kept (ps_heap s) (ps_heap (snd (Pool_Add L tr s)))"
proof (cases "int (length (pool_items s)) = tp_max (ps_pool s)")
  case True
  with Pool_Add_full [OF True] show ?thesis by auto
next
  case False
  let ?s' = "snd (Pool_Add L tr s)"
  from Pool_Add_room [OF assms False, of tr] have s': "tx_quiet L (ps_heap s) (ps_heap ?s')"
    "tp_all (ps_pool ?s') = tp_all (ps_pool s) \<or>
       (\<exists>h. tp_all (ps_pool ?s') = appended (pool_key L s tr) tr (pruned L s h))"
    by (auto split: if_splits)
  have "set (pool_seen ?s') \<subseteq> insert tr (set (pool_seen s))"
    using s'(2)
  proof
    assume "\<exists>h. tp_all (ps_pool ?s') = appended (pool_key L s tr) tr (pruned L s h)"
    then obtain h where "tp_all (ps_pool ?s') = appended (pool_key L s tr) tr (pruned L s h)" by blast
    with pruned_subset [of L s h] show ?thesis
      by (auto simp: pool_seen_def [of ?s'] appended_def List_Append_def)
  qed (auto simp: pool_seen_def)
  with s' show ?thesis by (simp add: tx_quiet_def hashers_kept_def)
qed

lemma Pool_Add_good:
  assumes "pool_good L s" "tr < h_next (ps_heap s)" "Tx_Verify L (h_txs (ps_heap s) tr) = Ok ()"
    and "Pool_Add L tr s = (r, s')"
  shows "pool_good L s' \<and> grows L (ps_heap s) (ps_heap s')"
proof -
  have ok: "pool_ok L s" using assms(1) by (simp add: pool_good_def)
  note q = Pool_Add_quiet [OF assms(4)]
  from Pool_Add_ok [OF ok, of tr] Pool_Add_seen [OF ok, of tr] assms(4)
  have a: "pool_ok L s'" "set (pool_items s') \<subseteq> insert tr (set (pool_items s))"
    "set (pool_seen s') \<subseteq> insert tr (set (pool_seen s))" "hashers_kept (ps_heap s) (ps_heap s')"
    by (auto split: if_splits)
  note g = grows_quiet [OF q a(4)]
  have "r < h_next (ps_heap s')" if "r \<in> set (pool_items s') \<union> set (pool_seen s')" for r
  proof -
    have "r < h_next (ps_heap s)" using that a(2,3) assms(1,2) unfolding pool_good_def by blast
    then show ?thesis by (rule grows_next [OF g])
  qed
  moreover have "Tx_Verify L (h_txs (ps_heap s') r) = Ok ()" if "r \<in> set (pool_items s')" for r
  proof -
    have "Tx_Verify L (h_txs (ps_heap s) r) = Ok ()" using that a(2) assms(1,3) unfolding pool_good_def by blast
    moreover have "tx_wire (h_txs (ps_heap s') r) = tx_wire (h_txs (ps_heap s) r)" using q by (simp add: quiet_def)
    ultimately show ?thesis using Tx_Verify_wire by metis
  qed
  ultimately show ?thesis using a(1) g by (simp add: pool_good_def)
qed

lemma Pool_ClearPending_good:
  assumes "pool_good L s"
  shows "pool_good L (s\<lparr>ps_pool := Pool_ClearPending (ps_pool s)\<rparr>)"
  using assms Pool_ClearPending_ok [of L s]
  by (auto simp: pool_good_def) (auto simp: pool_seen_def Pool_ClearPending_def)

subsection \<open>Preservation by the operations of a node\<close>

lemma advances_world:
  assumes "node_ok L n" "world_ok L w'" "extends (nd_world n) w'" "grows L (nd_heap n) (w_heap w')"
    and "ledger_step L (nd_world n) w'"
  shows "advances L n (n\<lparr>nd_world := w'\<rparr>)"
proof -
  have p: "pool_good L (pool_view n)" using assms(1) by (simp add: node_ok_def)
  have "pool_good L ((pool_view n)\<lparr>ps_heap := w_heap w'\<rparr>)"
    by (rule pool_good_grows [OF p world_okD(4) [OF assms(2)]]) (use assms(4) in \<open>simp add: pool_view_def\<close>)
  then have "pool_good L (pool_view (n\<lparr>nd_world := w'\<rparr>))" by (simp add: pool_view_def)
  with assms show ?thesis by (simp add: advances_def node_ok_def)
qed

lemma advances_core:
  assumes "node_ok L n" "nd_world n' = nd_world n" "nd_pool n' = nd_pool n"
  shows "advances L n n'"
  using assms by (simp add: advances_def extends_refl node_ok_def pool_view_def)

lemma keeps_advances:
  assumes "\<And>n a n'. node_ok L n \<Longrightarrow> grows L (nd_heap n0) (nd_heap n) \<Longrightarrow> m n = (a, n') \<Longrightarrow> advances L n n'"
  shows "keeps (advances L n0) m"
proof (rule keepsI)
  fix n a n'
  assume a: "advances L n0 n" "m n = (a, n')"
  then have "advances L n n'" by (intro assms) (simp_all add: advances_def)
  with a(1) show "advances L n0 n'" by (rule advances_trans)
qed

lemma on_heap_advances:
  assumes "node_ok L n" "on_world (on_heap m) n = (a, n')"
    and "\<And>h'. heap_closed (nd_heap n) \<Longrightarrow> m (nd_heap n) = (a, h') \<Longrightarrow> grows L (nd_heap n) h'"
  shows "advances L n n'"
proof -
  obtain h' where h': "m (nd_heap n) = (a, h')" "n' = n\<lparr>nd_world := (nd_world n)\<lparr>w_heap := h'\<rparr>\<rparr>"
    using assms(2) by (auto simp: szoom_def split: prod.splits)
  have g: "grows L (nd_heap n) h'" by (rule assms(3) [OF node_okD(2) [OF assms(1)] h'(1)])
  have "world_ok L (nd_world n)" using assms(1) by (simp add: node_ok_def)
  from world_heap [OF this g] grows_ledger_step [OF this g] show ?thesis
    unfolding h'(2) by (intro advances_world [OF assms(1)]) (use g in simp_all)
qed

lemma AddBlock_advances:
  assumes "node_ok L n" "on_world (AddBlock L br) n = (a, n')"
  shows "advances L n n'"
proof -
  obtain w' where w': "AddBlock L br (nd_world n) = (a, w')" "n' = n\<lparr>nd_world := w'\<rparr>"
    using assms(2) by (auto simp: szoom_def split: prod.splits)
  have "world_ok L (nd_world n)" using assms(1) by (simp add: node_ok_def)
  from world_AddBlock [OF this w'(1)] ledger_step.insert_block [OF w'(1)] show ?thesis
    unfolding w'(2) by (intro advances_world [OF assms(1)]) blast+
qed

lemma Pool_Add_advances:
  assumes "node_ok L n" "tr < h_next (nd_heap n)" "Tx_Verify L (h_txs (nd_heap n) tr) = Ok ()"
    and "on_pool (Pool_Add L tr) n = (a, n')"
  shows "advances L n n'"
proof -
  obtain s' where s': "Pool_Add L tr (pool_view n) = (a, s')"
    "n' = n\<lparr>nd_world := (nd_world n)\<lparr>w_heap := ps_heap s'\<rparr>, nd_pool := ps_pool s'\<rparr>"
    using assms(4) by (auto simp: szoom_def split: prod.splits)
  have w: "world_ok L (nd_world n)" "pool_good L (pool_view n)" using assms(1) by (simp_all add: node_ok_def)
  have "pool_good L s' \<and> grows L (nd_heap n) (ps_heap s')"
    using Pool_Add_good [OF w(2) _ _ s'(1)] assms(2,3) by (simp add: pool_view_def)
  moreover from this have "world_ok L ((nd_world n)\<lparr>w_heap := ps_heap s'\<rparr>) \<and>
      extends (nd_world n) ((nd_world n)\<lparr>w_heap := ps_heap s'\<rparr>)" using world_heap [OF w(1)] by blast
  moreover have "(ledger_step L)\<^sup>*\<^sup>* (nd_world n) ((nd_world n)\<lparr>w_heap := ps_heap s'\<rparr>)"
    using grows_ledger_step [OF w(1)] calculation(1) by blast
  ultimately show ?thesis by (cases s') (simp add: advances_def node_ok_def s'(2) pool_view_def)
qed

text \<open>Errors that are reported and messages that go out leave the chain and the pool alone.\<close>

lemma report_advances:
  assumes "report f m n = (a, n')" "\<And>b n1. m n = (b, n1) \<Longrightarrow> advances L n0 n1"
  shows "advances L n0 n'"
proof -
  obtain b n1 where m: "m n = (b, n1)" by fastforce
  note adv = assms(2) [OF m]
  have "advances L n1 (n1\<lparr>nd_errs := nd_errs n1 @ [e]\<rparr>)" for e
    by (rule advances_core) (use adv in \<open>simp_all add: advances_def\<close>)
  then have "advances L n0 (n1\<lparr>nd_errs := nd_errs n1 @ [e]\<rparr>)" for e by (rule advances_trans [OF adv])
  with assms(1) m adv show ?thesis by (auto simp: report_def split: result.splits)
qed

lemma keeps_report [keeps_intro]:
  assumes "keeps (advances L n0) m"
  shows "keeps (advances L n0) (report f m)"
  by (rule keepsI) (rule report_advances, assumption, rule keepsD [OF assms])

lemma keeps_drop_error:
  assumes "keeps I m"
  shows "keeps I (\<lambda>n. case m n of (Panic p, n') \<Rightarrow> (Panic p, n') | (_, n') \<Rightarrow> (Ok (), n'))"
proof (rule keepsI)
  fix n a n'
  assume a: "I n" "(case m n of (Panic p, n') \<Rightarrow> (Panic p, n') | (_, n') \<Rightarrow> (Ok (), n')) = (a, n')"
  obtain b n1 where m: "m n = (b, n1)" by fastforce
  from keepsD [OF assms a(1) m] a(2) m show "I n'" by (auto split: result.splits)
qed

lemma keeps_core:
  assumes "\<And>n a n'. m n = (a, n') \<Longrightarrow> nd_world n' = nd_world n \<and> nd_pool n' = nd_pool n"
  shows "keeps (advances L n0) m"
  by (rule keeps_advances) (use assms advances_core in blast)

lemma keeps_heap:
  assumes "\<And>h a h'. heap_closed h \<Longrightarrow> m h = (a, h') \<Longrightarrow> grows L h h'"
  shows "keeps (advances L n0) (on_world (on_heap m))"
  by (rule keeps_advances) (use on_heap_advances assms in blast)

lemma keeps_Transport_Broadcast [keeps_intro]: "keeps (advances L n0) (Transport_Broadcast data)"
  by (rule keeps_core) (auto simp: Transport_Broadcast_def smodify_def)

lemma keeps_Transport_Send [keeps_intro]: "keeps (advances L n0) (Transport_Send addr data)"
  by (rule keeps_core) (auto simp: Transport_Send_def split: if_splits)

lemma keeps_Peers_add [keeps_intro]: "keeps (advances L n0) (Peers_add sid p)"
  by (rule keeps_core) (auto simp: Peers_add_def smodify_def)

lemma keeps_broadcast [keeps_intro]: "keeps (advances L n0) (broadcast G msg)"
  unfolding broadcast_def by (intro keeps_intro)

lemma keeps_send [keeps_intro]: "keeps (advances L n0) (send G addr msg)"
  unfolding send_def by (intro keeps_intro)

lemma on_tx_Hash_grows: "on_tx r (Tx_Hash L) h = (a, h') \<Longrightarrow> grows L h h'"
  by (intro grows_quiet on_tx_Hash_quiet on_tx_Hash_hashers)

lemma Block_Hash_grows: "Block_Hash L br h = (a, h') \<Longrightarrow> grows L h h'"
  by (intro grows_quiet Block_Hash_quiet Block_Hash_hashers)

lemma SetCreatedAt_grows: "on_tx r (Tx_SetCreatedAt now) h = (a, h') \<Longrightarrow> grows L h h'"
  by (intro grows_quiet on_tx_quiet [of r "Tx_SetCreatedAt now"] on_tx_hashers [of "Tx_SetCreatedAt now"])
     (auto simp: Tx_SetCreatedAt_def smodify_def tx_wire_def tx_cache_ok_def)

lemma keeps_broadcastTx [keeps_intro]: "keeps (advances L n0) (broadcastTx L G tr)"
  unfolding broadcastTx_def by (intro keeps_intro keeps_heap) (rule on_tx_Hash_grows)

lemma keeps_broadcastBlock [keeps_intro]: "keeps (advances L n0) (broadcastBlock L G br)"
  unfolding broadcastBlock_def by (intro keeps_intro keeps_heap) (rule Block_Hash_grows)

lemma keeps_AddBlock [keeps_intro]: "keeps (advances L n0) (on_world (AddBlock L br))"
  by (rule keeps_advances) (rule AddBlock_advances)

lemma keeps_requestBlocks [keeps_intro]: "keeps (advances L n0) (requestBlocks G)"
  unfolding requestBlocks_def by (intro keeps_intro)

lemma keeps_clearPending [keeps_intro]: "keeps (advances L n0) clearPending"
proof (rule keeps_advances)
  fix n a n'
  assume n: "node_ok L n" "clearPending n = (a, n')"
  from Pool_ClearPending_good [of L "pool_view n"] n
  show "advances L n n'"
    by (auto simp: clearPending_def smodify_def advances_def node_ok_def extends_refl) (simp add: pool_view_def)
qed

text \<open>What is left of the handling of a transaction that verifies.\<close>

lemma handleTransaction_parts:
  assumes "Tx_Verify L (h_txs (nd_heap n) tr) = Ok u" "on_world (on_heap (on_tx tr (Tx_SetCreatedAt now))) n = (b, n1)"
    and "on_pool (Pool_Add L tr) n1 = (c, n2)"
  shows "handleTransaction L G now tr n = (case c of
      Ok isNewTx \<Rightarrow> (if isNewTx then report (\<lambda>e. e) (broadcastTx L G tr) else sret ()) n2
    | Err e \<Rightarrow> (Err e, n2) | Panic p \<Rightarrow> (Panic p, n2))"
proof -
  have b: "b = Ok ()" using assms(2) by (auto simp: szoom_def on_tx_def Tx_SetCreatedAt_def smodify_def)
  show ?thesis by (simp only: handleTransaction_def sbind_def sread_def assms b prod.case result.case)
qed

text \<open>The transaction has to verify when it reaches the pool.\<close>

lemma handleTransaction_advances:
  assumes "node_ok L n" "tr < h_next (nd_heap n)" "handleTransaction L G now tr n = (a, n')"
  shows "advances L n n'"
proof (cases "Tx_Verify L (h_txs (nd_heap n) tr)")
  case (Ok u)
  obtain b n1 where 1: "on_world (on_heap (on_tx tr (Tx_SetCreatedAt now))) n = (b, n1)" by fastforce
  have adv1: "advances L n n1"
    by (rule on_heap_advances [OF assms(1) 1]) (rule SetCreatedAt_grows)
  have n1: "nd_world n1 = (nd_world n)\<lparr>w_heap := (nd_heap n)\<lparr>h_txs := (h_txs (nd_heap n))(tr := (h_txs (nd_heap n) tr)\<lparr>tx_createdAt := now\<rparr>)\<rparr>\<rparr>"
    using 1 by (auto simp: szoom_def on_tx_def Tx_SetCreatedAt_def smodify_def)
  have "tx_wire (h_txs (nd_heap n1) tr) = tx_wire (h_txs (nd_heap n) tr)" by (simp add: n1 tx_wire_def)
  from Tx_Verify_wire [OF this, of L] Ok have v: "Tx_Verify L (h_txs (nd_heap n1) tr) = Ok ()" by simp
  have lt: "tr < h_next (nd_heap n1)" using assms(2) by (simp add: n1)
  obtain c n2 where 2: "on_pool (Pool_Add L tr) n1 = (c, n2)" by fastforce
  have "advances L n1 n2"
    by (rule Pool_Add_advances [OF _ lt v 2]) (use adv1 in \<open>simp add: advances_def\<close>)
  then have adv2: "advances L n n2" by (rule advances_trans [OF adv1])
  have rest: "keeps (advances L n) (if isNewTx then report (\<lambda>e. e) (broadcastTx L G tr) else sret ())" for isNewTx
    by (intro keeps_intro)
  note h = handleTransaction_parts [OF Ok 1 2, of G]
  show ?thesis
  proof (cases c)
    case Ok
    show ?thesis by (rule keepsD [OF rest adv2]) (use assms(3) h Ok in simp)
  qed (use assms(3) h adv2 in simp_all)
qed (use assms(3) advances_refl [OF assms(1)] in \<open>auto simp: handleTransaction_def go_simps\<close>)

subsection \<open>The block producer\<close>

text \<open>Signing writes the signature, the validator and the data hash of the block, nothing else.\<close>

definition signs :: "ref \<Rightarrow> ref \<Rightarrow> heap \<Rightarrow> heap \<Rightarrow> bool" where
  "signs br hr h h' \<longleftrightarrow> h_next h' = h_next h \<and> h_txs h' = h_txs h \<and>
     (\<forall>r. r \<noteq> hr \<longrightarrow> h_headers h' r = h_headers h r) \<and> (\<forall>r. r \<noteq> br \<longrightarrow> h_blocks h' r = h_blocks h r) \<and>
     blk_Header (h_blocks h' br) = Some hr \<and> blk_Transactions (h_blocks h' br) = blk_Transactions (h_blocks h br) \<and>
     blk_hash (h_blocks h' br) = blk_hash (h_blocks h br)"

lemma Block_Sign_signs:
  assumes "blk_Header (h_blocks h br) = Some hr" "Block_Sign L rnd k br h = (a, h')"
  shows "signs br hr h h'"
proof -
  have "keeps (signs br hr h) (on_block br (smodify f))"
    if "\<And>b. blk_Header (f b) = blk_Header b \<and> blk_Transactions (f b) = blk_Transactions b \<and> blk_hash (f b) = blk_hash b" for f
    using that by (auto simp: keeps_def on_block_def szoom_def smodify_def signs_def)
  moreover have "keeps (signs br hr h) (\<lambda>h. case blk_Header (h_blocks h br) of
      None \<Rightarrow> (Panic NilDereference, h)
    | Some hr \<Rightarrow> on_header hr (smodify (\<lambda>x. x\<lparr>hd_DataHash := dh\<rparr>)) h)" for dh
    by (auto simp: keeps_def on_header_def szoom_def smodify_def signs_def)
  ultimately have "keeps (signs br hr h) (Block_Sign L rnd k br)"
    unfolding Block_Sign_def by (intro keeps_sbind keeps_sread) simp_all
  from keepsD [OF this _ assms(2)] assms(1) show ?thesis by (simp add: signs_def)
qed

text \<open>A new block that has not been hashed, signed: only new objects change.\<close>

lemma NewBlockFromPrevHeader_grows:
  assumes "NewBlockFromPrevHeader L now prev txns h = (a, h')" "\<forall>r \<in> set txns. r < h_next h"
  shows "grows L h h'"
proof (cases "bind_result (newHeaderFromPrev L now prev) (setDataHash L (the_txs h txns))")
  case (Ok x)
  have 1: "grows L h (snd (alloc_header x h))" by (rule alloc_header_grows)
  let ?h = "snd (alloc_header x h)"
  have 2: "grows L ?h (snd (alloc_block (NewBlock (h_next h) txns) ?h))"
    by (rule alloc_block_grows) (use assms(2) in \<open>auto simp: NewBlock_def alloc_header_def less_SucI\<close>)
  have "h' = snd (alloc_block (NewBlock (h_next h) txns) ?h)"
    using assms(1) by (simp add: NewBlockFromPrevHeader_def sbind_def sread_def Ok alloc_header_def alloc_block_def)
  with grows_trans [OF 1 2] show ?thesis by simp
qed (use assms(1) in \<open>simp_all add: NewBlockFromPrevHeader_def sbind_def sread_def\<close>)

lemma Block_Sign_grows:
  assumes "grows L h h1" "h_next h \<le> br" "h_next h \<le> hr" "blk_Header (h_blocks h1 br) = Some hr"
    and "Hash_IsZero (blk_hash (h_blocks h1 br))" "Block_Sign L rnd k br h1 = (a, h2)"
    and fresh: "heap_closed h \<Longrightarrow> \<forall>r. blk_Header (h_blocks h1 r) = Some hr \<longrightarrow> r = br"
  shows "grows L h h2"
proof -
  note s = Block_Sign_signs [OF assms(4,6)]
  have same: "blk_Header (h_blocks h2 r) = blk_Header (h_blocks h1 r)"
    "blk_Transactions (h_blocks h2 r) = blk_Transactions (h_blocks h1 r)" for r
    using s assms(4) by (cases "r = br"; simp add: signs_def)+
  have "heap_closed h2" if "heap_closed h1"
    using that s by (simp add: heap_closed_def same) (simp add: signs_def)
  moreover have "heap_ok L h2" if c: "heap_closed h" and o: "heap_ok L h1"
  proof -
    have "block_cache_ok L h2 r" for r
    proof (cases "r = br")
      case True
      with assms(5) s show ?thesis by (simp add: block_cache_ok_def signs_def)
    next
      case False
      have "block_header h2 r = block_header h1 r"
      proof (cases "blk_Header (h_blocks h1 r)")
        case (Some hr')
        with fresh [OF c] False have "hr' \<noteq> hr" by blast
        with s have "h_headers h2 hr' = h_headers h1 hr'" by (simp add: signs_def)
        with Some show ?thesis by (simp add: block_header_def same)
      qed (simp add: block_header_def same)
      moreover have "blk_hash (h_blocks h2 r) = blk_hash (h_blocks h1 r)" using False s by (simp add: signs_def)
      moreover have "block_cache_ok L h1 r" using o by (simp add: heap_ok_def)
      ultimately show ?thesis by (simp add: block_cache_ok_def)
    qed
    moreover have "tx_cache_ok L (h_txs h2 r)" for r using s o by (simp add: signs_def heap_ok_def)
    ultimately show ?thesis by (simp add: heap_ok_def)
  qed
  moreover have "h_headers h2 r = h_headers h1 r \<and> h_blocks h2 r = h_blocks h1 r \<and> h_txs h2 r = h_txs h1 r"
    if "r < h_next h" for r
  proof -
    have "r \<noteq> hr" "r \<noteq> br" using assms(2,3) that by simp_all
    with s show ?thesis by (simp add: signs_def)
  qed
  moreover have "h_next h2 = h_next h1" using s by (simp add: signs_def)
  ultimately show ?thesis
    using assms(1) unfolding grows_def by simp
qed

text \<open>The part of the block producer before the insertion.\<close>

definition buildBlock :: "lib \<Rightarrow> u64 \<Rightarrow> nat \<Rightarrow> private_key \<Rightarrow> header \<Rightarrow> ref list \<Rightarrow> (heap, ref) go" where
  "buildBlock L now rnd k prev txns =
     sbind (NewBlockFromPrevHeader L now prev txns) (\<lambda>br. sbind (Block_Sign L rnd k br) (\<lambda>_. sret br))"

lemma buildBlock_grows:
  assumes "buildBlock L now rnd k prev txns h = (a, h')" "\<forall>r \<in> set txns. r < h_next h"
  shows "grows L h h'"
proof -
  obtain b h1 where 1: "NewBlockFromPrevHeader L now prev txns h = (b, h1)" by fastforce
  note g1 = NewBlockFromPrevHeader_grows [OF 1 assms(2)]
  show ?thesis
  proof (cases b)
    case (Ok br)
    from 1 [unfolded Ok] obtain hr x where n: "hr = h_next h" "br = h_next h + 1"
      "h1 = h\<lparr>h_headers := (h_headers h)(hr := x), h_blocks := (h_blocks h)(br := NewBlock hr txns),
        h_next := h_next h + 2\<rparr>" by (rule NewBlockFromPrevHeader_result) blast
    obtain c h2 where 2: "Block_Sign L rnd k br h1 = (c, h2)" by fastforce
    have bl: "h_blocks h1 br = NewBlock hr txns" by (simp add: n(3))
    have b1: "blk_Header (h_blocks h1 br) = Some hr" "Hash_IsZero (blk_hash (h_blocks h1 br))"
      unfolding bl by (simp_all add: NewBlock_def)
    have ge: "h_next h \<le> br" "h_next h \<le> hr" using n(1,2) by simp_all
    have "grows L h h2"
    proof (rule Block_Sign_grows [OF g1 ge b1 2], intro allI impI)
      fix r
      assume c: "heap_closed h" and r: "blk_Header (h_blocks h1 r) = Some hr"
      show "r = br"
      proof (rule ccontr)
        assume "r \<noteq> br"
        with r have "blk_Header (h_blocks h r) = Some hr" by (simp add: n(3))
        from heap_closed_header [OF c this] n(1) show False by simp
      qed
    qed
    moreover have "h' = h2" using assms(1) 1 2 Ok by (cases c) (simp_all add: buildBlock_def go_simps)
    ultimately show ?thesis by simp
  qed (use assms(1) 1 g1 in \<open>simp_all add: buildBlock_def go_simps\<close>)
qed

lemma proposeBlock_builds:
  "proposeBlock L now rnd n = (case GetHeader (nd_bc n) (Chain_Height (nd_bc n)) of
     Ok tip \<Rightarrow> sbind (on_world (on_heap (buildBlock L now rnd (nd_key n) (h_headers (nd_heap n) tip)
         (Pool_Pending (nd_pool n))))) (\<lambda>br. sbind (on_world (AddBlock L br)) (\<lambda>_. sret br)) n
   | Err e \<Rightarrow> (Err e, n) | Panic p \<Rightarrow> (Panic p, n))"
  by (cases "GetHeader (nd_bc n) (Chain_Height (nd_bc n))")
     (simp_all add: proposeBlock_def buildBlock_def sbind_def sread_def sget_def szoom_def sret_def
        split: prod.split result.split)

lemma keeps_proposeBlock [keeps_intro]: "keeps (advances L n0) (proposeBlock L now rnd)"
proof (rule keeps_advances)
  fix n a n'
  assume n: "node_ok L n" and p: "proposeBlock L now rnd n = (a, n')"
  show "advances L n n'"
  proof (cases "GetHeader (nd_bc n) (Chain_Height (nd_bc n))")
    case (Ok tip)
    have lt: "\<forall>r \<in> set (Pool_Pending (nd_pool n)). r < h_next (nd_heap n)"
      using n by (simp add: node_ok_def pool_good_def) (simp add: pool_view_def pool_items_def)
    let ?m = "on_world (on_heap (buildBlock L now rnd (nd_key n) (h_headers (nd_heap n) tip) (Pool_Pending (nd_pool n))))"
    obtain b n1 where 1: "?m n = (b, n1)" by fastforce
    have adv: "advances L n n1"
      by (rule on_heap_advances [OF n 1]) (rule buildBlock_grows [OF _ lt])
    have rest: "keeps (advances L n) (sbind (on_world (AddBlock L br)) (\<lambda>_. sret br))" for br
      by (intro keeps_intro)
    have "proposeBlock L now rnd n = sbind ?m (\<lambda>br. sbind (on_world (AddBlock L br)) (\<lambda>_. sret br)) n"
      by (simp only: proposeBlock_builds Ok result.case)
    also have "\<dots> = (case b of Ok br \<Rightarrow> sbind (on_world (AddBlock L br)) (\<lambda>_. sret br) n1
        | Err e \<Rightarrow> (Err e, n1) | Panic x \<Rightarrow> (Panic x, n1))"
      by (simp only: sbind_def [of ?m] 1 prod.case)
    finally show ?thesis using p adv keepsD [OF rest adv] by (cases b) (auto dest: sym)
  qed (use p advances_refl [OF n] in \<open>simp_all add: proposeBlock_builds\<close>)
qed

lemma keeps_announceBlock [keeps_intro]: "keeps (advances L n0) (announceBlock L G now rnd)"
  unfolding announceBlock_def by (intro keeps_intro)

lemma keeps_createNewBlock [keeps_intro]: "keeps (advances L n0) (createNewBlock L G now rnd)"
  unfolding createNewBlock_def by (intro keeps_intro)

subsection \<open>The handlers\<close>

lemma keeps_handleBlock [keeps_intro]: "keeps (advances L n0) (handleBlock L G br)"
proof -
  have "keeps (advances L n0) (\<lambda>n. case on_world (AddBlock L br) n of
       (Ok _, n') \<Rightarrow> report (\<lambda>e. e) (broadcastBlock L G br) n'
     | (Panic p, n') \<Rightarrow> (Panic p, n')
     | (Err e, n') \<Rightarrow>
         if as_OutOfSync e then
           (case requestBlocks G n' of (Panic p, n'') \<Rightarrow> (Panic p, n'') | (_, n'') \<Rightarrow> (Ok (), n''))
         else (Err e, n'))" (is "keeps _ ?m")
  proof (rule keepsI)
    fix n a n'
    assume i: "advances L n0 n" and m: "?m n = (a, n')"
    obtain b n1 where 1: "on_world (AddBlock L br) n = (b, n1)" by fastforce
    note i1 = keepsD [OF keeps_AddBlock i 1]
    have r: "keeps (advances L n0) (report (\<lambda>e. e) (broadcastBlock L G br))" by (intro keeps_intro)
    note q = keeps_drop_error [OF keeps_requestBlocks [of L n0 G]]
    show "advances L n0 n'"
      using m 1 i1 keepsD [OF r i1] keepsD [OF q i1] by (cases b) (auto split: if_splits)
  qed
  note m = this
  show ?thesis
    unfolding handleBlock_def by (intro keeps_sbind m keeps_heap) (rule Block_Hash_grows)
qed

lemma keeps_handleStatusMessageRequest [keeps_intro]: "keeps (advances L n0) (handleStatusMessageRequest G i)"
  unfolding handleStatusMessageRequest_def by (intro keeps_intro)

lemma keeps_handleStatusMessageResponse [keeps_intro]: "keeps (advances L n0) (handleStatusMessageResponse s)"
  unfolding handleStatusMessageResponse_def by (intro keeps_intro)

lemma keeps_handleSubscribeMessageRequest [keeps_intro]:
  "keeps (advances L n0) (handleSubscribeMessageRequest G q)"
  unfolding handleSubscribeMessageRequest_def by (intro keeps_intro)

lemma keeps_handleSubscribeMessageResponse [keeps_intro]:
  "keeps (advances L n0) (handleSubscribeMessageResponse i)"
  unfolding handleSubscribeMessageResponse_def by (intro keeps_intro)

lemma keeps_handleGetBlocksRequest [keeps_intro]: "keeps (advances L n0) (handleGetBlocksRequest G q)"
  unfolding handleGetBlocksRequest_def by (intro keeps_sbind keeps_sread keeps_drop_error keeps_send)

lemma keeps_add_missing:
  "keeps (advances L n0) (sbind (sread (\<lambda>n. block_header (nd_heap n) b)) (\<lambda>x n.
     if \<not> HasBlockAtHeight (nd_bc n) (hd_Height x) then on_world (AddBlock L b) n else (Ok (), n)))"
proof -
  have "keeps (advances L n0) (\<lambda>n. if \<not> HasBlockAtHeight (nd_bc n) (hd_Height x)
      then on_world (AddBlock L b) n else (Ok (), n))" for x
    by (rule keepsI) (auto split: if_splits intro: keepsD [OF keeps_AddBlock])
  note m = this
  show ?thesis by (intro keeps_sbind keeps_sread m)
qed

lemma keeps_handleGetBlocksResponse [keeps_intro]: "keeps (advances L n0) (handleGetBlocksResponse L bs)"
  unfolding handleGetBlocksResponse_def by (intro keeps_sfor keeps_add_missing)

lemma receive_payload_grows:
  assumes "heap_closed h" "receive_payload p h = (a, h')"
  shows "grows L h h' \<and> (\<forall>r. a = Ok (DTransaction r) \<longrightarrow> r < h_next h')"
proof (cases p)
  case (PTx t)
  obtain b h1 where "receive_tx t h = (b, h1)" by fastforce
  with receive_tx_spec [OF this, of L] assms(2) PTx show ?thesis by (auto simp: go_simps)
next
  case (PBlock b)
  obtain c h1 where "receive_block b h = (c, h1)" by fastforce
  with receive_block_spec [OF assms(1) this, of L] assms(2) PBlock show ?thesis by (auto simp: go_simps)
next
  case (PGetBlocksResponse bs)
  obtain c h1 where e: "alloc_each receive_block bs h = (c, h1)" by fastforce
  have "\<exists>rs. c = Ok rs \<and> grows L h h1 \<and> list_all2 (\<lambda>r x. r < h_next h1 \<and> block_wire_of h1 r = x) rs bs"
    by (rule alloc_each_spec [OF _ _ assms(1) e]) (use receive_block_spec grows_wire in fastforce)+
  with assms(2) PGetBlocksResponse e show ?thesis by (auto simp: go_simps)
qed (use assms(2) in \<open>auto simp: go_simps\<close>)

lemma ProcessMessage_advances:
  assumes "node_ok L n" "\<And>r. d = DTransaction r \<Longrightarrow> r < h_next (nd_heap n)"
    and "ProcessMessage L G now d n = (a, n')"
  shows "advances L n n'"
proof (cases "\<exists>r. d = DTransaction r")
  case True
  with assms show ?thesis using handleTransaction_advances by auto
next
  case False
  then have "keeps (advances L n) (ProcessMessage L G now d)"
    by (cases d) (auto intro!: keeps_intro simp del: ProcessMessage.simps
        simp: ProcessMessage.simps)
  from keepsD [OF this advances_refl [OF assms(1)] assms(3)] show ?thesis .
qed

lemma decode_rpc_advances:
  assumes "node_ok L n" "decode_rpc G sender content n = (a, n')"
  shows "advances L n n' \<and> (\<forall>r. a = Ok (DTransaction r) \<longrightarrow> r < h_next (nd_heap n'))"
proof (cases "ExtractMessageFromRPC G sender content")
  case (Ok sp)
  obtain s p where sp: "sp = (s, p)" by fastforce
  have m: "on_world (on_heap (receive_payload p)) n = (a, n')"
    using assms(2) Ok sp by (simp add: decode_rpc_def sbind_def sread_def)
  have adv: "advances L n n'"
    by (rule on_heap_advances [OF assms(1) m]) (use receive_payload_grows in blast)
  obtain h' where "receive_payload p (nd_heap n) = (a, h')" "nd_heap n' = h'"
    using m by (auto simp: szoom_def split: prod.splits)
  with receive_payload_grows [OF node_okD(2) [OF assms(1)]] adv show ?thesis by blast
qed (use assms(2) advances_refl [OF assms(1)] in \<open>auto simp: decode_rpc_def sbind_def sread_def\<close>)

lemma process_rpc_advances:
  assumes "node_ok L n" "process_rpc L G now sender content n = (a, n')"
  shows "advances L n n'"
proof -
  obtain b n1 where d: "decode_rpc G sender content n = (b, n1)" by fastforce
  from decode_rpc_advances [OF assms(1) d] have adv: "advances L n n1"
    and lt: "\<And>r. b = Ok (DTransaction r) \<Longrightarrow> r < h_next (nd_heap n1)" by blast+
  have ok1: "node_ok L n1" using adv by (simp add: advances_def)
  show ?thesis
  proof (cases b)
    case (Ok m)
    have r: "report HandleRpc (ProcessMessage L G now m) n1 = (a, n')" using assms(2) d Ok by (simp add: process_rpc_def)
    have "advances L n1 n'"
      by (rule report_advances [OF r], rule ProcessMessage_advances [OF ok1]) (use lt Ok in simp_all)
    then show ?thesis by (rule advances_trans [OF adv])
  next
    case (Err e)
    have r: "report DecodeRpc (sfail e) n1 = (a, n')" using assms(2) d Err by (simp add: process_rpc_def)
    show ?thesis by (rule report_advances [OF r]) (use adv in \<open>simp add: sfail_def\<close>)
  next
    case (Panic x)
    then show ?thesis using assms(2) d adv by (simp add: process_rpc_def)
  qed
qed

lemma process_api_tx_advances:
  assumes "node_ok L n" "process_api_tx L G now t n = (a, n')"
  shows "advances L n n'"
proof -
  obtain b n1 where m: "on_world (on_heap (receive_tx t)) n = (b, n1)" by fastforce
  then obtain h1 where h1: "receive_tx t (nd_heap n) = (b, h1)" "nd_heap n1 = h1"
    by (auto simp: szoom_def split: prod.splits)
  from receive_tx_spec [OF h1(1), of L] obtain r where r: "b = Ok r" "r < h_next h1" by blast
  have adv: "advances L n n1"
    by (rule on_heap_advances [OF assms(1) m]) (use receive_tx_spec in blast)
  have ok1: "node_ok L n1" using adv by (simp add: advances_def)
  have "report HandleApiTx (handleTransaction L G now r) n1 = (a, n')"
    using assms(2) m r(1) by (simp add: process_api_tx_def sbind_def)
  then have "advances L n1 n'"
    by (rule report_advances) (rule handleTransaction_advances [OF ok1], use r(2) h1(2) in simp_all)
  then show ?thesis by (rule advances_trans [OF adv])
qed

lemma handle_advances:
  assumes "node_ok L n" "handle L G e n = (a, n')"
  shows "advances L n n'"
proof (cases e)
  case (Proposed now rnd)
  have "keeps (advances L n) (report (\<lambda>e. e) (announceBlock L G now rnd))" by (intro keeps_intro)
  from keepsD [OF this advances_refl [OF assms(1)]] assms(2) Proposed show ?thesis by simp
next
  case Cleared
  then show ?thesis using keepsD [OF keeps_clearPending advances_refl [OF assms(1)]] assms(2) by simp
next
  case (Connections c)
  then show ?thesis using assms(2) by (auto simp: smodify_def intro: advances_core [OF assms(1)])
qed (use assms process_rpc_advances process_api_tx_advances in auto)

text \<open>Every run of a node keeps the invariant, and the chain of the node only grows.\<close>

lemma node_run_advances:
  "node_run L G n es r n' \<Longrightarrow> node_ok L n \<Longrightarrow> advances L n n'"
proof (induction rule: node_run.induct)
  case start
  then show ?case by (rule advances_refl)
next
  case (step es n1 e r n2)
  then have "advances L n n1" by blast
  moreover from this have "advances L n1 n2"
    using handle_advances [OF _ step.hyps(2)] by (simp add: advances_def)
  ultimately show ?case by (rule advances_trans)
qed

subsection \<open>The start of a node\<close>

text \<open>The memory a program starts with: no object has been made.\<close>

definition empty_heap :: heap where
  "empty_heap = \<lparr>h_txs = (\<lambda>_. NewTransaction []), h_headers = (\<lambda>_. genesis),
     h_blocks = (\<lambda>_. \<lparr>blk_Header = None, blk_Transactions = [], blk_Validator = [],
       blk_Signature = None, blk_hash = zero_hash\<rparr>), h_next = 0\<rparr>"

lemma empty_heap_ok: "heap_closed empty_heap" "heap_ok L empty_heap"
  by (simp_all add: heap_closed_def empty_heap_def heap_ok_def tx_cache_ok_def block_cache_ok_def NewTransaction_def)

lemma createGenesis_result:
  "createGenesis h = (Ok (h_next h + 1), h\<lparr>h_headers := (h_headers h)(h_next h := genesis),
     h_blocks := (h_blocks h)(h_next h + 1 := NewBlock (h_next h) []), h_next := h_next h + 2\<rparr>)"
  by (simp add: createGenesis_def sbind_def alloc_header_def alloc_block_def)

lemma createGenesis_grows: "grows L h (snd (createGenesis h))"
proof -
  let ?h = "snd (alloc_header genesis h)"
  have 1: "grows L h ?h" by (rule alloc_header_grows)
  have 2: "grows L ?h (snd (alloc_block (NewBlock (h_next h) []) ?h))"
    by (rule alloc_block_grows) (auto simp: NewBlock_def alloc_header_def)
  have "snd (createGenesis h) = snd (alloc_block (NewBlock (h_next h) []) ?h)"
    by (simp add: createGenesis_def sbind_def alloc_header_def alloc_block_def)
  with grows_trans [OF 1 2] show ?thesis by simp
qed

lemma pool_good_new:
  assumes "heap_ok L h"
  shows "pool_good L \<lparr>ps_heap = h, ps_pool = NewTxPool [WithHasher (Some hs)]\<rparr>"
  using assms
  by (simp add: pool_good_def pool_ok_def pool_items_def pool_seen_def NewTxPool_def NewTxOrderedMap_def
      WithHasher_def Pool_Pending_def List_Slice_def NewList_def heap_ok_def)

text \<open>The chain a new node starts with is well formed for the invariant of a node.\<close>

lemma new_chain_world_ok:
  assumes "heap_closed h" "heap_ok L h" "blk_Header (h_blocks h g) = Some hr"
    and "header_hash L (h_headers h hr) = Some bh" "hd_Height (h_headers h hr) = 0"
  shows "\<exists>w. NewBlockchain L g h = (Ok (), w) \<and> world_ok L w \<and> quiet L h (w_heap w) \<and>
    w_bc w = stored L h g hr bh empty_chain"
proof -
  from NewBlockchain_chain_ok [OF assms(2-5)] obtain w where w: "NewBlockchain L g h = (Ok (), w)"
    "chain_ok L w" "quiet L h (w_heap w)" "w_bc w = stored L h g hr bh empty_chain" by blast
  have lt: "g < h_next h" "hr < h_next h" using heap_closed_header [OF assms(1,3)] by blast+
  have b: "h_next (w_heap w) = h_next h" "heap_closed (w_heap w)"
    using w(3) assms(1) by (auto simp: heap_closed_def quiet_def same_content_def)
  have "r < h_next h" if "tx_entries L h (blk_Transactions (h_blocks h g)) x = Some r" for x r
    using tx_entries_keyed [OF that] heap_closed_tx [OF assms(1)] by blast
  then have "chain_closed (w_heap w) (w_bc w)"
    using lt by (auto simp: chain_closed_def b w(4) stored_def empty_chain_def newheaderStore_def NewGenericMemStore_def)
  moreover have "blocks_verified L (w_heap w) (w_bc w)"
    by (simp add: blocks_verified_def w(4) stored_def empty_chain_def newheaderStore_def)
  ultimately show ?thesis using w b by (simp add: world_ok_def)
qed

lemma NewServer_ok:
  assumes "gob_total L" "heap_closed h" "heap_ok L h" "so_Blockchain opts = None"
  shows "\<exists>n. NewServer L rand_id opts h = Ok n \<and> node_ok L n \<and> Pool_Pending (nd_pool n) = [] \<and>
    chain_headers (nd_heap n) (nd_bc n) = [genesis] \<and> nd_key n = so_PrivateKey opts \<and> nd_peers n = Map.empty \<and>
    bc_cstate (nd_bc n) = NewState \<and> ms_data (bc_txStore (nd_bc n)) = Map.empty \<and> nd_addr n = so_addr opts \<and>
    tp_max (nd_pool n) = 1000"
proof -
  obtain g h' where c: "createGenesis h = (Ok g, h')" and h': "g = h_next h + 1" "h' = snd (createGenesis h)"
    by (simp add: createGenesis_result)
  have "grows L h h'" unfolding h'(2) by (rule createGenesis_grows)
  then have ok: "heap_closed h'" "heap_ok L h'" using assms(2,3) by (simp_all add: grows_def)
  have hd: "blk_Header (h_blocks h' g) = Some (h_next h)" "h_headers h' (h_next h) = genesis"
    unfolding h' createGenesis_result by (simp_all add: NewBlock_def)
  obtain bh where bh: "header_hash L genesis = Some bh"
    using assms(1) unfolding gob_total_def header_hash_def by (metis option.simps(9) not_None_eq)
  from new_chain_world_ok [OF ok hd(1)] bh hd(2)
  obtain w where w: "NewBlockchain L g h' = (Ok (), w)" "world_ok L w" "quiet L h' (w_heap w)"
    "w_bc w = stored L h' g (h_next h) bh empty_chain" by (auto simp: genesis_def)
  have "chain_headers (w_heap w) (w_bc w) = [genesis]"
    using hd(2) quiet_block(3) [OF w(3)] by (simp add: w(4) stored_def empty_chain_def newheaderStore_def)
  moreover have "bc_cstate (w_bc w) = NewState" by (simp add: w(4) stored_def empty_chain_def)
  moreover obtain sid hs where "NewServer L rand_id opts h = Ok \<lparr>nd_world = w, nd_pool = NewTxPool [WithHasher (Some hs)],
      nd_ID = sid, nd_key = so_PrivateKey opts, nd_addr = so_addr opts, nd_conns = Map.empty, nd_sent = [],
      nd_peers = Map.empty, nd_errs = []\<rparr>"
    by (simp add: NewServer_def Let_def c w(1) assms(4) NewPeers_def)
  moreover have "ms_data (bc_txStore (w_bc w)) = Map.empty"
    using h' by (simp add: w(4) stored_def empty_chain_def NewGenericMemStore_def tx_entries_def createGenesis_result NewBlock_def)
  moreover have "tp_max (NewTxPool [WithHasher (Some hs)]) = 1000" for hs by (simp add: NewTxPool_def WithHasher_def)
  moreover have "Pool_Pending (NewTxPool [WithHasher (Some hs)]) = []" for hs
    by (simp add: NewTxPool_def WithHasher_def NewTxOrderedMap_def Pool_Pending_def List_Slice_def NewList_def)
  ultimately show ?thesis
    using w(2) pool_good_new [OF world_okD(4) [OF w(2)]] by (simp add: node_ok_def pool_view_def)
qed

end
