(* ===== verification/Server_Node_Tx.thy ===== *)
theory Server_Node_Tx
  imports Server_Node_Inv
begin

section \<open>How a node handles a transaction\<close>

text \<open>
  The outcome of \<^verbatim>\<open>handleTransaction\<close> and of the turns of the loop that reach it: what is
  pending afterwards, what goes out, and what is reported.
\<close>

lemma report_Ok: "m n = (Ok (), n') \<Longrightarrow> report f m n = (Ok (), n')"
  by (simp add: report_def)

text \<open>What a broadcast adds to what was sent.\<close>

definition sent_of :: "bytes result \<Rightarrow> outgoing list" where
  "sent_of r = (case r of Ok data \<Rightarrow> [OutBroadcast data] | _ \<Rightarrow> [])"

lemma broadcastTx_sends:
  assumes "tx_cache_ok L (h_txs (nd_heap n) tr)" "tx_hasher (h_txs (nd_heap n) tr) \<noteq> None"
  shows "\<exists>n'. report f (broadcastTx L G tr) n = (Ok (), n') \<and> nd_bc n' = nd_bc n \<and> nd_pool n' = nd_pool n \<and>
    nd_key n' = nd_key n \<and> (\<forall>r. tx_wire (h_txs (nd_heap n') r) = tx_wire (h_txs (nd_heap n) r)) \<and>
    nd_sent n' = nd_sent n @ sent_of (payload_Bytes G (PTx (tx_wire (h_txs (nd_heap n) tr)))) \<and>
    (nd_errs n' = nd_errs n \<or> payload_Bytes G (PTx (tx_wire (h_txs (nd_heap n) tr))) = Err EncodeError)"
proof -
  from Tx_Hash_Ok [OF assms] obtain t' where t': "Tx_Hash L (h_txs (nd_heap n) tr) =
      (Ok (sha256 L (tx_Data (h_txs (nd_heap n) tr))), t')" "tx_wire t' = tx_wire (h_txs (nd_heap n) tr)" by blast
  then show ?thesis
    by (auto simp: report_def broadcastTx_def broadcast_def sbind_def szoom_def sread_def on_tx_def
        NewMessageFromTransaction_of message_of_def Message_Bytes_def Transport_Broadcast_def smodify_def
        sent_of_def payload_Bytes_def split: option.split)
qed

lemma handleTransaction_rejects:
  "Tx_Verify L (h_txs (nd_heap n) tr) = Err e \<Longrightarrow> handleTransaction L G now tr n = (Err e, n)"
  by (simp add: handleTransaction_def sbind_def sread_def)

text \<open>Whether the pool is full, and whether it has a pending transaction with the data.\<close>

definition pool_full :: "node \<Rightarrow> bool" where
  "pool_full n \<longleftrightarrow> int (length (Pool_Pending (nd_pool n))) = tp_max (nd_pool n)"

definition is_pending :: "lib \<Rightarrow> node \<Rightarrow> bytes \<Rightarrow> bool" where
  "is_pending L n d \<longleftrightarrow> (\<exists>r \<in> set (Pool_Pending (nd_pool n)). sha256 L (tx_Data (h_txs (nd_heap n) r)) = sha256 L d)"

text \<open>The addition to the pool, as the handler calls it.\<close>

lemma node_Pool_Add:
  fixes tr :: ref
  assumes "node_ok L n"
  defines "full \<equiv> pool_full n" and "known \<equiv> is_pending L n (tx_Data (h_txs (nd_heap n) tr))"
  obtains s where "on_pool (Pool_Add L tr) n = (if full then Err PoolFull else Ok (\<not> known),
      n\<lparr>nd_world := (nd_world n)\<lparr>w_heap := ps_heap s\<rparr>, nd_pool := ps_pool s\<rparr>)"
    "Pool_Pending (ps_pool s) = (if full \<or> known then Pool_Pending (nd_pool n) else Pool_Pending (nd_pool n) @ [tr])"
    "pool_ok L s" "quiet L (nd_heap n) (ps_heap s)"
proof -
  obtain c s where s: "Pool_Add L tr (pool_view n) = (c, s)" by fastforce
  have items: "pool_items (pool_view n) = Pool_Pending (nd_pool n)" "tp_max (ps_pool (pool_view n)) = tp_max (nd_pool n)"
    by (simp_all add: pool_items_def pool_view_def)
  have "pool_key L (pool_view n) tr \<in> pool_key L (pool_view n) ` set (Pool_Pending (nd_pool n)) \<longleftrightarrow> known"
    unfolding known_def image_iff is_pending_def pool_key_def pool_view_def by (simp add: eq_commute)
  from Pool_Add_ok [OF node_okD(3) [OF assms(1)], of tr, unfolded items this] have p: "pool_ok L s"
    "c = (if full then Err PoolFull else Ok (\<not> known))"
    "Pool_Pending (ps_pool s) = (if full \<or> known then Pool_Pending (nd_pool n) else Pool_Pending (nd_pool n) @ [tr])"
    unfolding full_def pool_full_def s snd_conv fst_conv pool_items_def [of s] by simp_all
  have "quiet L (nd_heap n) (ps_heap s)" using Pool_Add_quiet [OF s] by (simp add: pool_view_def)
  with p that s show thesis by (simp add: szoom_def)
qed

lemma handleTransaction_effect:
  assumes "node_ok L n" "Tx_Verify L (h_txs (nd_heap n) tr) = Ok ()"
  shows "\<exists>r n'. handleTransaction L G now tr n = (r, n') \<and> nd_bc n' = nd_bc n \<and> nd_key n' = nd_key n \<and>
    (\<forall>r. tx_wire (h_txs (nd_heap n') r) = tx_wire (h_txs (nd_heap n) r)) \<and>
    (if pool_full n then r = Err PoolFull \<and> Pool_Pending (nd_pool n') = Pool_Pending (nd_pool n) \<and>
       nd_sent n' = nd_sent n \<and> nd_errs n' = nd_errs n
     else r = Ok () \<and> (if is_pending L n (tx_Data (h_txs (nd_heap n) tr)) then
         Pool_Pending (nd_pool n') = Pool_Pending (nd_pool n) \<and> nd_sent n' = nd_sent n \<and> nd_errs n' = nd_errs n
       else Pool_Pending (nd_pool n') = Pool_Pending (nd_pool n) @ [tr] \<and>
         nd_sent n' = nd_sent n @ sent_of (payload_Bytes G (PTx (tx_wire (h_txs (nd_heap n) tr)))) \<and>
         (nd_errs n' = nd_errs n \<or> payload_Bytes G (PTx (tx_wire (h_txs (nd_heap n) tr))) = Err EncodeError)))"
proof -
  let ?known = "is_pending L n (tx_Data (h_txs (nd_heap n) tr))"
  obtain b n1 where 1: "on_world (on_heap (on_tx tr (Tx_SetCreatedAt now))) n = (b, n1)" by fastforce
  have n1: "n1 = n\<lparr>nd_world := (nd_world n)\<lparr>w_heap := (nd_heap n)\<lparr>h_txs := (h_txs (nd_heap n))(tr := (h_txs (nd_heap n) tr)\<lparr>tx_createdAt := now\<rparr>)\<rparr>\<rparr>\<rparr>"
    using 1 by (auto simp: szoom_def on_tx_def Tx_SetCreatedAt_def smodify_def)
  have w1: "tx_wire (h_txs (nd_heap n1) r) = tx_wire (h_txs (nd_heap n) r)"
    "tx_Data (h_txs (nd_heap n1) r) = tx_Data (h_txs (nd_heap n) r)" for r
    by (simp_all add: n1 tx_wire_def)
  have "advances L n n1" by (rule on_heap_advances [OF assms(1) 1]) (rule SetCreatedAt_grows)
  then have ok1: "node_ok L n1" by (simp add: advances_def)
  have same: "pool_full n1 = pool_full n" "is_pending L n1 d = is_pending L n d" "nd_pool n1 = nd_pool n" for d
    using w1(2) by (simp_all add: pool_full_def is_pending_def n1)
  from ok1 obtain s where 2: "on_pool (Pool_Add L tr) n1 = (if pool_full n then Err PoolFull else Ok (\<not> ?known),
      n1\<lparr>nd_world := (nd_world n1)\<lparr>w_heap := ps_heap s\<rparr>, nd_pool := ps_pool s\<rparr>)"
    and p: "Pool_Pending (ps_pool s) = (if pool_full n \<or> ?known then Pool_Pending (nd_pool n) else Pool_Pending (nd_pool n) @ [tr])"
    "pool_ok L s" "quiet L (nd_heap n1) (ps_heap s)"
    by (rule node_Pool_Add [of L n1 tr, unfolded same w1(2)])
  let ?n2 = "n1\<lparr>nd_world := (nd_world n1)\<lparr>w_heap := ps_heap s\<rparr>, nd_pool := ps_pool s\<rparr>"
  have w2: "tx_wire (h_txs (nd_heap ?n2) r) = tx_wire (h_txs (nd_heap n) r)" for r
    using p(3) w1(1) by (simp add: quiet_def)
  note h = handleTransaction_parts [OF assms(2) 1 2, of G]
  show ?thesis
  proof (cases "pool_full n \<or> ?known")
    case True
    have "handleTransaction L G now tr n = (if pool_full n then Err PoolFull else Ok (), ?n2)"
      using True by (auto simp: h sret_def)
    with True p(1) w2 show ?thesis by (auto simp: n1)
  next
    case False
    then have "tr \<in> set (pool_items s)" using p(1) by (simp add: pool_items_def)
    with p(2) have "tx_hasher (h_txs (nd_heap ?n2) tr) \<noteq> None" "tx_cache_ok L (h_txs (nd_heap ?n2) tr)"
      by (auto simp: pool_ok_def)
    from broadcastTx_sends [OF this(2,1), of "\<lambda>e. e" G] obtain n' where n': "report (\<lambda>e. e) (broadcastTx L G tr) ?n2 = (Ok (), n')"
      "nd_bc n' = nd_bc n" "nd_key n' = nd_key n" "nd_pool n' = ps_pool s" "\<And>r. tx_wire (h_txs (nd_heap n') r) = tx_wire (h_txs (nd_heap n) r)"
      "nd_sent n' = nd_sent n @ sent_of (payload_Bytes G (PTx (tx_wire (h_txs (nd_heap n) tr))))"
      "nd_errs n' = nd_errs n \<or> payload_Bytes G (PTx (tx_wire (h_txs (nd_heap n) tr))) = Err EncodeError"
      unfolding w2 by (auto simp: n1 w2 [simplified])
    have "handleTransaction L G now tr n = (Ok (), n')" using False n'(1) by (simp add: h)
    with False n' p(1) show ?thesis by auto
  qed
qed

subsection \<open>A received transaction\<close>

lemma receive_tx_node:
  assumes "node_ok L n"
  shows "\<exists>tr n1. on_world (on_heap (receive_tx t)) n = (Ok tr, n1) \<and> node_ok L n1 \<and> nd_bc n1 = nd_bc n \<and>
    nd_pool n1 = nd_pool n \<and> nd_sent n1 = nd_sent n \<and> nd_errs n1 = nd_errs n \<and> nd_key n1 = nd_key n \<and>
    tr < h_next (nd_heap n1) \<and> tx_wire (h_txs (nd_heap n1) tr) = t \<and> (\<forall>d. is_pending L n1 d = is_pending L n d)"
proof -
  obtain a h where h: "receive_tx t (nd_heap n) = (a, h)" by fastforce
  from receive_tx_spec [OF h, of L] obtain tr where tr: "a = Ok tr" "grows L (nd_heap n) h" "tx_wire (h_txs h tr) = t"
    "tr < h_next h" by blast
  let ?n1 = "n\<lparr>nd_world := (nd_world n)\<lparr>w_heap := h\<rparr>\<rparr>"
  have m: "on_world (on_heap (receive_tx t)) n = (Ok tr, ?n1)" by (simp add: szoom_def h tr(1))
  have "advances L n ?n1" by (rule on_heap_advances [OF assms m]) (use h tr(2) in simp)
  moreover have "tx_Data (h_txs h r) = tx_Data (h_txs (nd_heap n) r)" if "r \<in> set (Pool_Pending (nd_pool n))" for r
  proof -
    have "pool_good L (pool_view n)" using assms by (simp add: node_ok_def)
    then have "r < h_next (nd_heap n)" using that by (simp add: pool_good_def pool_items_def) (simp add: pool_view_def)
    from grows_tx [OF tr(2) this] show ?thesis by (simp add: tx_wire_def)
  qed
  then have "is_pending L ?n1 d = is_pending L n d" for d by (auto simp: is_pending_def)
  ultimately show ?thesis using m tr(3,4) by (auto simp: advances_def)
qed

end
