(* ===== verification/Server_Node_Example.thy ===== *)
theory Server_Node_Example
  imports Server_Node_Tx
begin

section \<open>Nodes to evaluate the properties on\<close>

text \<open>
  A node that has just started with the key 5 of the demonstration library, the same node
  with one transaction signed by that key, and coders for one or two payloads.
\<close>

definition start_opts :: "string \<Rightarrow> server_opts" where
  "start_opts addr = \<lparr>so_ID = ''node'', so_PrivateKey = \<lparr>pk_key = Some 5\<rparr>, so_TxHasher = None,
     so_Blockchain = None, so_addr = addr\<rparr>"

definition fresh_node :: "string \<Rightarrow> node \<Rightarrow> bool" where
  "fresh_node addr n \<longleftrightarrow> NewServer demo_lib [] (start_opts addr) empty_heap = Ok n"

lemma fresh_node:
  obtains n where "fresh_node addr n" "node_ok demo_lib n" "Pool_Pending (nd_pool n) = []"
    "chain_headers (nd_heap n) (nd_bc n) = [genesis]" "nd_key n = \<lparr>pk_key = Some 5\<rparr>"
    "ms_data (bc_txStore (nd_bc n)) = Map.empty" "nd_addr n = addr" "\<not> pool_full n" "nd_peers n = Map.empty"
proof -
  have "so_Blockchain (start_opts addr) = None" by (simp add: start_opts_def)
  from NewServer_ok [OF demo_lib_contracts(5) empty_heap_ok this, of "[]"] that show ?thesis
    by (auto simp: fresh_node_def start_opts_def pool_full_def)
qed

definition signed_tx :: "bytes \<Rightarrow> tx_wire" where
  "signed_tx d = (d, [5], Some (5 # take 32 d))"

lemma signed_tx_verifies: "tx_wire t = signed_tx d \<Longrightarrow> Tx_Verify demo_lib t = Ok ()"
  by (auto simp: Tx_Verify_def signed_tx_def tx_wire_def Signature_Verify_def demo_lib_def)

lemma pending_node:
  obtains n tr n0 where "fresh_node addr n0" "process_api_tx demo_lib G now (signed_tx d) n0 = (Ok (), n)"
    "node_ok demo_lib n" "Pool_Pending (nd_pool n) = [tr]" "tx_Data (h_txs (nd_heap n) tr) = d"
    "nd_bc n = nd_bc n0" "chain_headers (nd_heap n) (nd_bc n) = [genesis]" "nd_key n = \<lparr>pk_key = Some 5\<rparr>"
proof -
  obtain n0 where n0: "fresh_node addr n0" "node_ok demo_lib n0" "Pool_Pending (nd_pool n0) = []"
    "chain_headers (nd_heap n0) (nd_bc n0) = [genesis]" "nd_key n0 = \<lparr>pk_key = Some 5\<rparr>" "\<not> pool_full n0"
    using fresh_node by metis
  obtain tr n1 where n1: "on_world (on_heap (receive_tx (signed_tx d))) n0 = (Ok tr, n1)" "node_ok demo_lib n1"
    "nd_bc n1 = nd_bc n0" "nd_pool n1 = nd_pool n0" "nd_key n1 = nd_key n0"
    "tx_wire (h_txs (nd_heap n1) tr) = signed_tx d" "\<And>d. is_pending demo_lib n1 d = is_pending demo_lib n0 d"
    using receive_tx_node [OF n0(2), of "signed_tx d"] by blast
  have f: "\<not> pool_full n1" "\<not> is_pending demo_lib n1 d" for d
    using n0(3,6) n1(4) by (simp_all add: n1(7) is_pending_def pool_full_def)
  from handleTransaction_effect [OF n1(2) signed_tx_verifies [OF n1(6)], of G now] f n1(4) n0(3) obtain n where
    n: "handleTransaction demo_lib G now tr n1 = (Ok (), n)" "nd_bc n = nd_bc n1" "nd_key n = nd_key n1" "Pool_Pending (nd_pool n) = [tr]"
    "tx_wire (h_txs (nd_heap n) tr) = tx_wire (h_txs (nd_heap n1) tr)" by auto
  have run: "process_api_tx demo_lib G now (signed_tx d) n0 = (Ok (), n)"
    using n(1) by (simp add: process_api_tx_def sbind_def n1(1) report_def)
  have adv: "advances demo_lib n0 n" by (rule process_api_tx_advances [OF n0(2) run])
  then have "chain_headers (nd_heap n) (nd_bc n) = [genesis]"
    using n0(4) n(2) n1(3) by (auto simp: advances_def extends_def)
  moreover have "tx_Data (h_txs (nd_heap n) tr) = d" using n(5) n1(6) by (simp add: tx_wire_def signed_tx_def)
  moreover have "nd_key n = \<lparr>pk_key = Some 5\<rparr>" using n(3) n1(5) n0(5) by simp
  ultimately show ?thesis using that [OF n0(1) run] adv n(2,4) n1(3) by (simp add: advances_def)
qed

text \<open>The header after the genesis block has another hash.\<close>

lemma genesis_hash_differs:
  "hd_Height x = 1 \<Longrightarrow> no_header_collision demo_lib (insert x {genesis})"
  by (auto simp: no_header_collision_def header_hash_def demo_lib_def genesis_def)

text \<open>Coders.\<close>

definition two_gob :: "payload \<Rightarrow> payload \<Rightarrow> gob" where
  "two_gob P Q = \<lparr>
     gob_enc = (\<lambda>p. if p = P then Some [1] else if p = Q then Some [2] else None),
     gob_dec = (\<lambda>t b. if b = [1] \<and> t = payload_type P then Some P
        else if b = [2] \<and> t = payload_type Q then Some Q else None),
     gob_enc_message = (\<lambda>m. Some (m_Header m # m_Data m)),
     gob_dec_message = (\<lambda>b. case b of [] \<Rightarrow> None | h # d \<Rightarrow> Some \<lparr>m_Header = h, m_Data = d\<rparr>)\<rparr>"

lemma two_gob_round_trips: "gob_round_trips (two_gob P Q)"
  by (simp add: gob_round_trips_def two_gob_def)

lemma two_gob_Bytes:
  "payload_Bytes (two_gob P Q) P = Ok [type_code (payload_type P), 1]"
  "P \<noteq> Q \<Longrightarrow> payload_Bytes (two_gob P Q) Q = Ok [type_code (payload_type Q), 2]"
  by (simp_all add: payload_Bytes_def message_of_def two_gob_def Message_Bytes_def NewMessage_def)

end
