(* ===== verification/Server_Node_Props.thy ===== *)
theory Server_Node_Props
  imports Server_Node_Example
begin

section \<open>What a node guarantees\<close>

text \<open>
  The properties of \<^verbatim>\<open>server/server.go\<close> and \<^verbatim>\<open>server/server_internal.go\<close>: the invariant along
  every run, what a turn of the block producer does and when it succeeds, what stops it,
  what happens to a transaction, and the handlers of blocks.
\<close>

subsection \<open>Every run\<close>



subsection \<open>A turn of the block producer\<close>

lemma buildBlock_Ok:
  assumes "ecdsa_signs L" "gob_total L" "\<forall>r \<in> set txns. Tx_Verify L (h_txs h r) = Ok ()"
    and "buildBlock L now rnd k prev txns h = (Ok br, h')"
  shows "Block_Verify L h' br = Ok () \<and> blk_Transactions (h_blocks h' br) = txns \<and>
    (\<exists>x. block_header h' br = Ok x \<and> hd_Height x = hd_Height prev + 1 \<and> hd_Timestamp x = now \<and>
       header_hash L prev = Some (hd_PreviousBlockHash x)) \<and> h_txs h' = h_txs h"
proof -
  from assms(4) obtain h1 where 1: "NewBlockFromPrevHeader L now prev txns h = (Ok br, h1)"
    and 2: "Block_Sign L rnd k br h1 = (Ok (), h')"
    by (auto simp: buildBlock_def sbind_Ok_iff sret_def)
  have t: "h_txs h1 = h_txs h" using 1 by (rule NewBlockFromPrevHeader_result) simp
  have "h_txs h' = h_txs h1" using 2 by (rule Block_Sign_result) simp
  with built_and_signed [OF assms(1,2) 1 2 assms(3)] t show ?thesis by auto
qed

lemma proposeBlock_Ok:
  assumes "node_ok L n" "proposeBlock L now rnd n = (Ok br, n1)"
  obtains tip h1 w1 where "GetHeader (nd_bc n) (Chain_Height (nd_bc n)) = Ok tip"
    "buildBlock L now rnd (nd_key n) (h_headers (nd_heap n) tip) (Pool_Pending (nd_pool n)) (nd_heap n) = (Ok br, h1)"
    "grows L (nd_heap n) h1" "world_ok L ((nd_world n)\<lparr>w_heap := h1\<rparr>)"
    "AddBlock L br ((nd_world n)\<lparr>w_heap := h1\<rparr>) = (Ok (), w1)" "n1 = n\<lparr>nd_world := w1\<rparr>"
proof -
  from assms(2) obtain tip where tip: "GetHeader (nd_bc n) (Chain_Height (nd_bc n)) = Ok tip"
    unfolding proposeBlock_builds by (auto split: result.splits)
  from assms(2) tip obtain h1 w1 where 1:
    "buildBlock L now rnd (nd_key n) (h_headers (nd_heap n) tip) (Pool_Pending (nd_pool n)) (nd_heap n) = (Ok br, h1)"
    "AddBlock L br ((nd_world n)\<lparr>w_heap := h1\<rparr>) = (Ok (), w1)" "n1 = n\<lparr>nd_world := w1\<rparr>"
    unfolding proposeBlock_builds
    by (auto simp: sbind_Ok_iff sret_def) (auto simp: szoom_def split: prod.splits)
  have lt: "\<forall>r \<in> set (Pool_Pending (nd_pool n)). r < h_next (nd_heap n)"
    using assms(1) by (simp add: node_ok_def pool_good_def) (simp add: pool_view_def pool_items_def)
  have g: "grows L (nd_heap n) h1" by (rule buildBlock_grows [OF 1(1) lt])
  have "world_ok L (nd_world n)" using assms(1) by (simp add: node_ok_def)
  from world_heap [OF this g] have "world_ok L ((nd_world n)\<lparr>w_heap := h1\<rparr>)" by blast
  from that [OF tip 1(1) g this 1(2,3)] show ?thesis .
qed

lemma keeps_bc_heap: "keeps (\<lambda>m. nd_bc m = b) (on_world (on_heap m))"
  by (auto simp: keeps_def szoom_def split: prod.split)

text \<open>A turn that returns: the block is in the chain when it is announced.\<close>

lemma createNewBlock_Ok:
  assumes "node_ok L n" "createNewBlock L G now rnd n = (Ok (), n')"
  obtains br n1 n2 where "proposeBlock L now rnd n = (Ok br, n1)" "advances L n n1"
    "report (\<lambda>e. e) (broadcastBlock L G br) n1 = (Ok (), n2)" "advances L n1 n2" "nd_bc n2 = nd_bc n1"
    "n' = n2\<lparr>nd_pool := Pool_ClearPending (nd_pool n2)\<rparr>" "advances L n n'"
proof -
  from assms(2) obtain br n1 n2 where 1: "proposeBlock L now rnd n = (Ok br, n1)"
    "report (\<lambda>e. e) (broadcastBlock L G br) n1 = (Ok (), n2)"
    "n' = n2\<lparr>nd_pool := Pool_ClearPending (nd_pool n2)\<rparr>"
    by (auto simp: createNewBlock_def announceBlock_def clearPending_def smodify_def sbind_Ok_iff)
  note r = advances_refl [OF assms(1)]
  have a1: "advances L n n1" by (rule keepsD [OF keeps_proposeBlock r 1(1)])
  then have ok1: "node_ok L n1" by (simp add: advances_def)
  have b: "keeps (advances L n1) (report (\<lambda>e. e) (broadcastBlock L G br))" by (intro keeps_intro)
  have a2: "advances L n1 n2" by (rule keepsD [OF b advances_refl [OF ok1] 1(2)])
  have a3: "advances L n n'" by (rule keepsD [OF keeps_createNewBlock r assms(2)])
  have core: "keeps (\<lambda>m. nd_bc m = nd_bc n1) (broadcastBlock L G br)"
    unfolding broadcastBlock_def broadcast_def Transport_Broadcast_def
    by (intro keeps_sbind keeps_sread keeps_smodify keeps_bc_heap) simp
  have "nd_bc n2 = nd_bc n1"
    using 1(2) keepsD [OF core refl] by (auto simp: report_def split: prod.splits result.splits)
  with 1 a1 a2 a3 that show ?thesis by blast
qed

lemma grows_tx_data: "grows L h h' \<Longrightarrow> r < h_next h \<Longrightarrow> tx_Data (h_txs h' r) = tx_Data (h_txs h r)"
  using grows_tx [of L h h' r] by (simp add: tx_wire_def)

lemma pending_known:
  assumes "node_ok L n" "r \<in> set (Pool_Pending (nd_pool n))"
  shows "r < h_next (nd_heap n)" "Tx_Verify L (h_txs (nd_heap n) r) = Ok ()"
  using assms by (auto simp: node_ok_def pool_good_def) (auto simp: pool_view_def pool_items_def)

text \<open>What the turn does to the ledger.\<close>

lemma createNewBlock_ledger:
  assumes "node_ok L n" "world_ok L ((nd_world n)\<lparr>w_heap := h1\<rparr>)"
    and "AddBlock L br ((nd_world n)\<lparr>w_heap := h1\<rparr>) = (Ok (), w1)" "n1 = n\<lparr>nd_world := w1\<rparr>" "grows L (nd_heap n) h1"
    and "blk_Transactions (h_blocks h1 br) = txns" "h_txs h1 = h_txs (nd_heap n)"
    and "advances L n1 n2" "nd_bc n2 = nd_bc n1" "n' = n2\<lparr>nd_pool := p\<rparr>"
  shows "ledger (nd_world n') = ledger (nd_world n) @ [map (\<lambda>r. tx_wire (h_txs (nd_heap n) r)) txns] \<and>
    (intact (nd_world n) \<longrightarrow> intact (nd_world n'))"
proof -
  let ?w = "(nd_world n)\<lparr>w_heap := h1\<rparr>"
  have "world_ok L (nd_world n)" using assms(1) by (simp add: node_ok_def)
  from ledger_memory [OF world_okD(1) [OF this] grows_keeps_ledger [OF this assms(5)]]
  have l: "ledger ?w = ledger (nd_world n)" .
  note c = world_okD(1) [OF assms(2)]
  have "ledger (nd_world n') = ledger w1"
    using ledger_run_same_chain [of L w1 "nd_world n'"] assms(4,8,9,10) AddBlock_chain_ok [OF c assms(3)]
    by (simp add: advances_def)
  moreover have "ledger w1 = ledger (nd_world n) @ [map (\<lambda>r. tx_wire (h_txs (nd_heap n) r)) txns]"
    using AddBlock_ledger [OF c assms(3)] by (simp add: l block_wires_def assms(6,7))
  moreover have "bc_cstate (nd_bc n') = bc_cstate (w_bc w1)" using assms(4,9,10) by simp
  ultimately show ?thesis
    using AddBlock_intact [OF c _ assms(3)] by (auto simp: intact_def l)
qed

lemma createNewBlock_effect:
  assumes "gob_total L" and "ecdsa_signs L" and "node_ok L n"
    and "createNewBlock L G now rnd n = (Ok (), n')"
  shows "node_ok L n' \<and> Pool_Pending (nd_pool n') = [] \<and>
    (\<exists>br x tip. GetBlockAt (nd_bc n') (Chain_Height (nd_bc n')) = Ok br \<and> block_header (nd_heap n') br = Ok x \<and>
       GetHeader (nd_bc n) (Chain_Height (nd_bc n)) = Ok tip \<and>
       header_hash L (h_headers (nd_heap n) tip) = Some (hd_PreviousBlockHash x) \<and> hd_Timestamp x = now \<and>
       uint (Chain_Height (nd_bc n')) = uint (Chain_Height (nd_bc n)) + 1 \<and>
       hd_Height x = Chain_Height (nd_bc n') \<and> Block_Verify L (nd_heap n') br = Ok () \<and>
       blk_Transactions (h_blocks (nd_heap n') br) = Pool_Pending (nd_pool n)) \<and>
    (\<forall>r \<in> set (Pool_Pending (nd_pool n)).
       \<exists>r'. GetTransaction (nd_bc n') (sha256 L (tx_Data (h_txs (nd_heap n) r))) = Ok r') \<and>
    ledger (nd_world n') = ledger (nd_world n) @ [map (\<lambda>r. tx_wire (h_txs (nd_heap n) r)) (Pool_Pending (nd_pool n))] \<and>
    (intact (nd_world n) \<longrightarrow> intact (nd_world n'))"
proof -
  from createNewBlock_Ok [OF assms(3,4)] obtain br n1 n2 where p: "proposeBlock L now rnd n = (Ok br, n1)"
    "advances L n n1" "advances L n1 n2" "nd_bc n2 = nd_bc n1"
    "n' = n2\<lparr>nd_pool := Pool_ClearPending (nd_pool n2)\<rparr>" "advances L n n'" by metis
  let ?txns = "Pool_Pending (nd_pool n)"
  from proposeBlock_Ok [OF assms(3) p(1)] obtain tip h1 w1 where b:
    "buildBlock L now rnd (nd_key n) (h_headers (nd_heap n) tip) ?txns (nd_heap n) = (Ok br, h1)"
    "world_ok L ((nd_world n)\<lparr>w_heap := h1\<rparr>)"
    "AddBlock L br ((nd_world n)\<lparr>w_heap := h1\<rparr>) = (Ok (), w1)" "n1 = n\<lparr>nd_world := w1\<rparr>"
    and tip: "GetHeader (nd_bc n) (Chain_Height (nd_bc n)) = Ok tip" and g0: "grows L (nd_heap n) h1" by metis
  have "\<forall>r \<in> set ?txns. Tx_Verify L (h_txs (nd_heap n) r) = Ok ()" using pending_known(2) [OF assms(3)] by blast
  from buildBlock_Ok [OF assms(2,1) this b(1)] obtain x where x: "Block_Verify L h1 br = Ok ()"
    "blk_Transactions (h_blocks h1 br) = ?txns" "block_header h1 br = Ok x" "h_txs h1 = h_txs (nd_heap n)"
    and link: "header_hash L (h_headers (nd_heap n) tip) = Some (hd_PreviousBlockHash x)" "hd_Timestamp x = now" by blast
  from AddBlock_effect [OF world_okD(1) [OF b(2)] b(3)] x(3) have e:
    "uint (hd_Height x) = uint (Chain_Height (nd_bc n)) + 1" "Chain_Height (w_bc w1) = hd_Height x"
    "GetBlockAt (w_bc w1) (hd_Height x) = Ok br"
    "\<And>r. r \<in> set ?txns \<Longrightarrow> \<exists>r'. GetTransaction (w_bc w1) (sha256 L (tx_Data (h_txs (nd_heap n) r))) = Ok r'"
    by (auto simp: x(2,4))
  have bc: "nd_bc n' = w_bc w1" by (simp add: p(4,5) b(4))
  have g: "grows L h1 (nd_heap n')"
    using world_AddBlock [OF b(2,3)] p(3,5) by (auto simp: b(4) advances_def intro: grows_trans)
  have hc: "heap_closed h1" using world_okD(2) [OF b(2)] by simp
  have lt: "br < h_next h1" using x(3) heap_closed_header [OF hc] by (auto simp: block_header_def split: option.splits)
  note w = grows_wire [OF g hc lt]
  have "block_header (nd_heap n') br = Ok x" "Block_Verify L (nd_heap n') br = Ok ()"
    using x(1,3) Block_Verify_wire [OF w, of L] by (simp_all add: block_header_wire [of _ br] w)
  moreover have "blk_Transactions (h_blocks (nd_heap n') br) = ?txns"
    using grows_content [OF g lt] x(2) by (simp add: same_content_def)
  moreover note createNewBlock_ledger [OF assms(3) b(2,3,4) g0 x(2,4) p(3,4,5)]
  moreover have "Pool_Pending (nd_pool n') = []"
    by (simp add: p(5) Pool_ClearPending_def TM_Clear_def Pool_Pending_def List_Slice_def List_Clear_def)
  ultimately show ?thesis using e bc p(6) tip link by (simp add: advances_def)
qed

text \<open>
  C3: a turn of the block producer that returns without an error moves the pending
  transactions into the chain: the chain has one more block, of the next height, linked to
  the last header by its hash and with the time of the turn, that holds exactly the pending transactions in their order and verifies;
  each of them is found by its hash, and the pool has no pending transaction left. The
  ledger has the pending transactions as one more block, and when the contract state was
  its replay it is again.
\<close>

theorem createNewBlock_commits_pending:
  assumes "gob_total L" and "ecdsa_signs L" and "node_ok L n"
    and "createNewBlock L G now rnd n = (Ok (), n')"
  shows "node_ok L n' \<and> Pool_Pending (nd_pool n') = [] \<and>
    (\<exists>br x tip. GetBlockAt (nd_bc n') (Chain_Height (nd_bc n')) = Ok br \<and> block_header (nd_heap n') br = Ok x \<and>
       GetHeader (nd_bc n) (Chain_Height (nd_bc n)) = Ok tip \<and>
       header_hash L (h_headers (nd_heap n) tip) = Some (hd_PreviousBlockHash x) \<and> hd_Timestamp x = now \<and>
       uint (Chain_Height (nd_bc n')) = uint (Chain_Height (nd_bc n)) + 1 \<and>
       hd_Height x = Chain_Height (nd_bc n') \<and> Block_Verify L (nd_heap n') br = Ok () \<and>
       blk_Transactions (h_blocks (nd_heap n') br) = Pool_Pending (nd_pool n)) \<and>
    (\<forall>r \<in> set (Pool_Pending (nd_pool n)).
       \<exists>r'. GetTransaction (nd_bc n') (sha256 L (tx_Data (h_txs (nd_heap n) r))) = Ok r') \<and>
    ledger (nd_world n') = ledger (nd_world n) @ [map (\<lambda>r. tx_wire (h_txs (nd_heap n) r)) (Pool_Pending (nd_pool n))] \<and>
    (intact (nd_world n) \<longrightarrow> intact (nd_world n'))"
  by (rule createNewBlock_effect [OF assms])

subsection \<open>What every transaction of an inserted block has done\<close>

lemma run_txs_each:
  assumes "sfor txns (run_tx L) w = (Ok (), w')" "tr \<in> set txns"
  shows "\<exists>w1 w2. wquiet L w w1 \<and> run_tx L tr w1 = (Ok (), w2)"
  using assms
proof (induction txns arbitrary: w)
  case (Cons r rs)
  from Cons.prems(1) obtain w1 where 1: "run_tx L r w = (Ok (), w1)" "sfor rs (run_tx L) w1 = (Ok (), w')"
    by (auto simp: sbind_Ok_iff)
  have q: "wquiet L w w1" by (rule keepsD [OF run_tx_wquiet wquiet_refl 1(1)])
  show ?case
  proof (cases "tr = r")
    case True
    with 1(1) show ?thesis by (auto intro: wquiet_refl)
  next
    case False
    with Cons.IH [OF 1(2)] Cons.prems(2) wquiet_trans [OF q] show ?thesis by auto
  qed
qed simp

lemma AddBlock_runs_each:
  assumes "AddBlock L br w = (Ok (), w')" "tr \<in> set (blk_Transactions (h_blocks (w_heap w) br))"
  shows "\<exists>w1 w2. tx_Data (h_txs (w_heap w1) tr) = tx_Data (h_txs (w_heap w) tr) \<and> run_tx L tr w1 = (Ok (), w2)"
proof -
  from assms(1) obtain w1 w2 where 1: "ValidateBlock L br w = (Ok (), w1)"
    "sfor (blk_Transactions (h_blocks (w_heap w1) br)) (run_tx L) w1 = (Ok (), w2)"
    by (auto simp: AddBlock_def sbind_Ok_iff sget_def)
  have q: "quiet L (w_heap w) (w_heap w1)" using ValidateBlock_quiet [OF 1(1)] by blast
  then have "tr \<in> set (blk_Transactions (h_blocks (w_heap w1) br))" using assms(2) by (simp add: quiet_block)
  from run_txs_each [OF 1(2) this] obtain w3 w4 where 2: "wquiet L w1 w3" "run_tx L tr w3 = (Ok (), w4)" by blast
  have "quiet L (w_heap w) (w_heap w3)" using q 2(1) by (auto simp: wquiet_def intro: quiet_trans)
  from quiet_data [OF this] 2(2) show ?thesis by blast
qed

text \<open>So a turn in which a pending transaction cannot run does not return.\<close>

lemma proposeBlock_needs_runs:
  assumes "gob_total L" "ecdsa_signs L" "node_ok L n" "tr \<in> set (Pool_Pending (nd_pool n))"
    and "\<And>w w'. tx_Data (h_txs (w_heap w) tr) = tx_Data (h_txs (nd_heap n) tr) \<Longrightarrow> run_tx L tr w \<noteq> (Ok (), w')"
  shows "fst (proposeBlock L now rnd n) \<noteq> Ok br"
proof
  assume "fst (proposeBlock L now rnd n) = Ok br"
  then obtain n1 where "proposeBlock L now rnd n = (Ok br, n1)" by (metis surjective_pairing)
  from proposeBlock_Ok [OF assms(3) this] obtain tip h1 w1 where b:
    "buildBlock L now rnd (nd_key n) (h_headers (nd_heap n) tip) (Pool_Pending (nd_pool n)) (nd_heap n) = (Ok br, h1)"
    "AddBlock L br ((nd_world n)\<lparr>w_heap := h1\<rparr>) = (Ok (), w1)" by metis
  have "\<forall>r \<in> set (Pool_Pending (nd_pool n)). Tx_Verify L (h_txs (nd_heap n) r) = Ok ()"
    using pending_known(2) [OF assms(3)] by blast
  from buildBlock_Ok [OF assms(2,1) this b(1)] have x: "blk_Transactions (h_blocks h1 br) = Pool_Pending (nd_pool n)"
    "h_txs h1 = h_txs (nd_heap n)" by blast+
  from AddBlock_runs_each [OF b(2), of tr] assms(4) x obtain w2 w3 where
    "tx_Data (h_txs (w_heap w2) tr) = tx_Data (h_txs (nd_heap n) tr)" "run_tx L tr w2 = (Ok (), w3)" by auto
  with assms(5) show False by blast
qed

text \<open>A turn that fails leaves the pool and the headers, and is reported as the failure.\<close>

lemma AddBlock_failed_refs:
  assumes "chain_ok L w" "AddBlock L br w = (r, w')" "r \<noteq> Ok ()"
  shows "chain_refs (w_bc w') = chain_refs (w_bc w)"
  using assms(1,2) by (cases rule: AddBlock_cases) (use assms(3) in \<open>auto simp: wquiet_def\<close>)

lemma proposeBlock_step:
  assumes "GetHeader (nd_bc n) (Chain_Height (nd_bc n)) = Ok tip"
    and "buildBlock L now rnd (nd_key n) (h_headers (nd_heap n) tip) (Pool_Pending (nd_pool n)) (nd_heap n) = (Ok br, h1)"
    and "AddBlock L br ((nd_world n)\<lparr>w_heap := h1\<rparr>) = (r, w1)"
  shows "proposeBlock L now rnd n =
    (case r of Ok _ \<Rightarrow> Ok br | Err e \<Rightarrow> Err e | Panic p \<Rightarrow> Panic p, n\<lparr>nd_world := w1\<rparr>)"
  using assms by (simp add: proposeBlock_builds sbind_def szoom_def sret_def split: result.split)

lemma proposeBlock_failed:
  assumes "node_ok L n" "proposeBlock L now rnd n = (a, n1)" "\<And>br. a \<noteq> Ok br"
  shows "nd_pool n1 = nd_pool n \<and> chain_refs (nd_bc n1) = chain_refs (nd_bc n)"
proof (cases "GetHeader (nd_bc n) (Chain_Height (nd_bc n))")
  case (Ok tip)
  let ?build = "buildBlock L now rnd (nd_key n) (h_headers (nd_heap n) tip) (Pool_Pending (nd_pool n))"
  obtain b h1 where b: "?build (nd_heap n) = (b, h1)" by fastforce
  let ?w = "(nd_world n)\<lparr>w_heap := h1\<rparr>"
  show ?thesis
  proof (cases b)
    case (Ok br)
    have lt: "\<forall>r \<in> set (Pool_Pending (nd_pool n)). r < h_next (nd_heap n)" using pending_known(1) [OF assms(1)] by blast
    have "world_ok L (nd_world n)" using assms(1) by (simp add: node_ok_def)
    from world_heap [OF this buildBlock_grows [OF b lt]] have c: "chain_ok L ?w" by (blast intro: world_okD)
    obtain r w1 where add: "AddBlock L br ?w = (r, w1)" by fastforce
    from proposeBlock_step [OF \<open>GetHeader _ _ = Ok tip\<close> b [unfolded Ok] add] assms(2,3)
      AddBlock_failed_refs [OF c add] show ?thesis by (cases r) auto
  qed (use assms(2) b in \<open>auto simp: proposeBlock_builds \<open>GetHeader _ _ = Ok tip\<close> sbind_def szoom_def\<close>)
qed (use assms(2) in \<open>simp_all add: proposeBlock_builds\<close>)

subsection \<open>A node that produces blocks by itself\<close>

text \<open>
  A validator between two blocks of others: it makes blocks, and receives transactions and
  any messages that do not carry blocks.
\<close>

definition carries_blocks :: "gob \<Rightarrow> bytes \<Rightarrow> bool" where
  "carries_blocks G content \<longleftrightarrow> (case ExtractMessageFromRPC G () content of
     Ok (_, PBlock b) \<Rightarrow> True | Ok (_, PGetBlocksResponse bs) \<Rightarrow> True | _ \<Rightarrow> False)"

inductive production :: "lib \<Rightarrow> gob \<Rightarrow> node \<Rightarrow> node \<Rightarrow> bool" for L G n where
  start: "production L G n n"
| tick: "production L G n n1 \<Longrightarrow> createNewBlock L G now rnd n1 = (r, n2) \<Longrightarrow> production L G n n2"
| message: "production L G n n1 \<Longrightarrow> \<not> carries_blocks G content \<Longrightarrow>
     process_rpc L G t sender content n1 = (r, n2) \<Longrightarrow> production L G n n2"
| api: "production L G n n1 \<Longrightarrow> process_api_tx L G t tx n1 = (r, n2) \<Longrightarrow> production L G n n2"

text \<open>What these steps keep: the chain, and every pending transaction.\<close>

definition holds_pending :: "blockchain \<Rightarrow> ref list \<Rightarrow> node \<Rightarrow> bool" where
  "holds_pending b ps m \<longleftrightarrow> nd_bc m = b \<and> set ps \<subseteq> set (Pool_Pending (nd_pool m))"

lemma keeps_holds_heap [keeps_intro]: "keeps (holds_pending b ps) (on_world (on_heap m))"
  by (auto simp: keeps_def szoom_def holds_pending_def split: prod.split)

lemma keeps_holds_modify:
  "(\<And>m. nd_bc (f m) = nd_bc m \<and> nd_pool (f m) = nd_pool m) \<Longrightarrow> keeps (holds_pending b ps) (smodify f)"
  by (simp add: keeps_def smodify_def holds_pending_def)

lemma keeps_holds_report [keeps_intro]:
  assumes "keeps (holds_pending b ps) m"
  shows "keeps (holds_pending b ps) (report f m)"
proof (rule keepsI)
  fix n a n'
  assume i: "holds_pending b ps n" "report f m n = (a, n')"
  obtain c n1 where m: "m n = (c, n1)" by fastforce
  from keepsD [OF assms i(1) m] i(2) m show "holds_pending b ps n'"
    by (auto simp: report_def holds_pending_def split: result.splits)
qed

lemma keeps_holds_send [keeps_intro]:
  "keeps (holds_pending b ps) (broadcast G msg)" "keeps (holds_pending b ps) (send G addr msg)"
  "keeps (holds_pending b ps) (Peers_add sid p)"
proof -
  have "keeps (holds_pending b ps) (Transport_Send addr data)" for data
    by (rule keepsI) (auto simp: Transport_Send_def holds_pending_def split: if_splits)
  then show "keeps (holds_pending b ps) (send G addr msg)"
    unfolding send_def by (intro keeps_sbind keeps_sread keeps_if keeps_spanic)
qed (unfold broadcast_def Transport_Broadcast_def Peers_add_def,
     (intro keeps_sbind keeps_sread keeps_holds_modify, simp)+)

text \<open>A received transaction only adds to the pending ones.\<close>

lemma Pool_Add_holds:
  assumes "node_ok L n" "holds_pending b ps n" "on_pool (Pool_Add L tr) n = (a, n')"
  shows "holds_pending b ps n'"
proof -
  obtain s' where s': "Pool_Add L tr (pool_view n) = (a, s')"
    "n' = n\<lparr>nd_world := (nd_world n)\<lparr>w_heap := ps_heap s'\<rparr>, nd_pool := ps_pool s'\<rparr>"
    using assms(3) by (auto simp: szoom_def split: prod.splits)
  from Pool_Add_ok [OF node_okD(3) [OF assms(1)], of tr] s'(1)
  have "set (pool_items (pool_view n)) \<subseteq> set (pool_items s')" by (auto split: if_splits)
  with assms(2) show ?thesis by (auto simp: holds_pending_def s'(2) pool_items_def) (auto simp: pool_view_def)
qed

lemma handleTransaction_holds:
  assumes "node_ok L n" "holds_pending b ps n" "handleTransaction L G now tr n = (a, n')"
  shows "holds_pending b ps n'"
proof (cases "Tx_Verify L (h_txs (nd_heap n) tr)")
  case (Ok u)
  obtain c n1 where 1: "on_world (on_heap (on_tx tr (Tx_SetCreatedAt now))) n = (c, n1)" by fastforce
  have h1: "holds_pending b ps n1" by (rule keepsD [OF keeps_holds_heap assms(2) 1])
  have "advances L n n1" by (rule on_heap_advances [OF assms(1) 1]) (rule SetCreatedAt_grows)
  then have ok1: "node_ok L n1" by (simp add: advances_def)
  obtain d n2 where 2: "on_pool (Pool_Add L tr) n1 = (d, n2)" by fastforce
  note h2 = Pool_Add_holds [OF ok1 h1 2]
  have rest: "keeps (holds_pending b ps) (if isNewTx then report (\<lambda>e. e) (broadcastTx L G tr) else sret ())" for isNewTx
    unfolding broadcastTx_def by (intro keeps_intro)
  note h = handleTransaction_parts [OF Ok 1 2, of G]
  show ?thesis
  proof (cases d)
    case Ok
    show ?thesis by (rule keepsD [OF rest h2]) (use assms(3) h Ok in simp)
  qed (use assms(3) h h2 in simp_all)
qed (use assms in \<open>simp_all add: handleTransaction_def sbind_def sread_def\<close>)

lemma receive_payload_kind:
  "receive_payload p h = (Ok d, h') \<Longrightarrow> (\<exists>r. d = DBlock r) = (\<exists>b. p = PBlock b) \<and>
     (\<exists>rs. d = DGetBlocksResponse rs) = (\<exists>bs. p = PGetBlocksResponse bs)"
  by (cases p) (auto simp: sbind_Ok_iff sret_def)

lemma ExtractMessage_sender:
  "ExtractMessageFromRPC G x content = Ok (x', p) \<Longrightarrow> ExtractMessageFromRPC G y content = Ok (y, p)"
  by (auto simp: ExtractMessageFromRPC_def split: if_splits option.splits)

lemma ProcessMessage_holds:
  assumes "node_ok L n" "holds_pending b ps n" "ProcessMessage L G now d n = (a, n')"
    and "\<And>r. d \<noteq> DBlock r" "\<And>rs. d \<noteq> DGetBlocksResponse rs"
  shows "holds_pending b ps n'"
proof -
  have k: "keeps (holds_pending b ps) (handleStatusMessageRequest G i)"
    "keeps (holds_pending b ps) (handleStatusMessageResponse s)"
    "keeps (holds_pending b ps) (handleSubscribeMessageRequest G q)"
    "keeps (holds_pending b ps) (handleSubscribeMessageResponse i)"
    "keeps (holds_pending b ps) (handleGetBlocksRequest G g)" for i s q g
    unfolding handleStatusMessageRequest_def handleStatusMessageResponse_def handleSubscribeMessageRequest_def
      handleSubscribeMessageResponse_def handleGetBlocksRequest_def
    by (intro keeps_sbind keeps_sread keeps_sret keeps_drop_error keeps_holds_send)+
  show ?thesis
    using assms(3,4,5) handleTransaction_holds [OF assms(1,2)] keepsD [OF k(1) assms(2)] keepsD [OF k(2) assms(2)]
      keepsD [OF k(3) assms(2)] keepsD [OF k(4) assms(2)] keepsD [OF k(5) assms(2)] assms(2)
    by (cases d) (auto simp: sfail_def)
qed

lemma process_rpc_holds:
  assumes "node_ok L n" "holds_pending b ps n" "process_rpc L G now sender content n = (a, n')"
    and "\<not> carries_blocks G content"
  shows "holds_pending b ps n'"
proof -
  obtain c n1 where d: "decode_rpc G sender content n = (c, n1)" by fastforce
  have ok1: "node_ok L n1" using decode_rpc_advances [OF assms(1) d] by (simp add: advances_def)
  have "keeps (holds_pending b ps) (decode_rpc G sender content)"
    unfolding decode_rpc_def by (intro keeps_sbind keeps_sread) (auto intro: keeps_holds_heap split: prod.split)
  note h1 = keepsD [OF this assms(2) d]
  show ?thesis
  proof (cases c)
    case (Ok m)
    from d Ok obtain s p where p: "ExtractMessageFromRPC G sender content = Ok (s, p)"
      "\<exists>h'. receive_payload p (nd_heap n) = (Ok m, h')"
      by (auto simp: decode_rpc_def sbind_Ok_iff sread_def) (auto simp: szoom_def split: prod.splits)
    have "\<nexists>b. p = PBlock b" "\<nexists>bs. p = PGetBlocksResponse bs"
      using assms(4) ExtractMessage_sender [OF p(1), of "()"] by (auto simp: carries_blocks_def)
    with p(2) receive_payload_kind have m: "\<And>r. m \<noteq> DBlock r" "\<And>rs. m \<noteq> DGetBlocksResponse rs" by blast+
    obtain e n2 where pm: "ProcessMessage L G now m n1 = (e, n2)" by fastforce
    from ProcessMessage_holds [OF ok1 h1 pm m] pm assms(3) d Ok show ?thesis
      by (auto simp: process_rpc_def report_def holds_pending_def split: result.splits)
  qed (use assms(3) d h1 in \<open>auto simp: process_rpc_def report_def sfail_def holds_pending_def\<close>)
qed

lemma process_api_tx_holds:
  assumes "node_ok L n" "holds_pending b ps n" "process_api_tx L G now t n = (a, n')"
  shows "holds_pending b ps n'"
proof -
  obtain c n1 where m: "on_world (on_heap (receive_tx t)) n = (c, n1)" by fastforce
  note h1 = keepsD [OF keeps_holds_heap assms(2) m]
  have "advances L n n1" by (rule on_heap_advances [OF assms(1) m]) (use receive_tx_spec in blast)
  then have ok1: "node_ok L n1" by (simp add: advances_def)
  have c: "\<exists>r. c = Ok r" using m by (auto simp: szoom_def receive_tx_def alloc_tx_def)
  then obtain r where r: "c = Ok r" by blast
  obtain d n2 where t: "handleTransaction L G now r n1 = (d, n2)" by fastforce
  from handleTransaction_holds [OF ok1 h1 t] t assms(3) m r show ?thesis
    by (auto simp: process_api_tx_def sbind_def report_def holds_pending_def split: result.splits)
qed

text \<open>A failing turn fails before the block is announced.\<close>

lemma createNewBlock_failed:
  assumes "node_ok L n" "createNewBlock L G now rnd n = (r, n')" "\<And>br. fst (proposeBlock L now rnd n) \<noteq> Ok br"
  shows "r \<noteq> Ok () \<and> nd_pool n' = nd_pool n \<and> chain_refs (nd_bc n') = chain_refs (nd_bc n)"
proof -
  obtain a n1 where p: "proposeBlock L now rnd n = (a, n1)" by fastforce
  with assms(3) have a: "\<And>br. a \<noteq> Ok br" by simp
  then have "r \<noteq> Ok () \<and> n' = n1"
    using assms(2) p by (cases a) (auto simp: createNewBlock_def announceBlock_def sbind_def)
  with proposeBlock_failed [OF assms(1) p a] show ?thesis by simp
qed

text \<open>
  C16: one transaction whose program fails stops the chain. A validator checks the signature
  of a received transaction and not its program; as long as it is pending, every turn of
  the block producer fails, and a failing turn does not clear it. However many turns,
  transactions and messages without blocks follow, the transaction stays pending and no
  block is added.
\<close>

theorem failing_transaction_stops_production:
  assumes "gob_total L" and "ecdsa_signs L" and "node_ok L n"
    and "tr \<in> set (Pool_Pending (nd_pool n))" and "tx_Data (h_txs (nd_heap n) tr) \<noteq> []"
    and "\<forall>cs. \<exists>e l. lm_run None (tx_Data (h_txs (nd_heap n) tr)) (fresh cs) = (Err e, l)"
    and "production L G n n'"
  shows "tr \<in> set (Pool_Pending (nd_pool n')) \<and> chain_refs (nd_bc n') = chain_refs (nd_bc n) \<and>
    fst (createNewBlock L G now rnd n') \<noteq> Ok ()"
proof -
  let ?I = "\<lambda>m. advances L n m \<and> tr \<in> set (Pool_Pending (nd_pool m)) \<and> chain_refs (nd_bc m) = chain_refs (nd_bc n)"
  have fails: "r \<noteq> Ok () \<and> ?I m'" if i: "?I m" and c: "createNewBlock L G now rnd m = (r, m')" for m m' r now rnd
  proof -
    have ok: "node_ok L m" and d: "tx_Data (h_txs (nd_heap m) tr) = tx_Data (h_txs (nd_heap n) tr)"
      using i pending_known(1) [OF assms(3,4)] by (auto simp: advances_def grows_tx_data)
    have "run_tx L tr w \<noteq> (Ok (), w')" if "tx_Data (h_txs (w_heap w) tr) = tx_Data (h_txs (nd_heap m) tr)" for w w'
      using run_tx_fails [of w tr _ _ L] assms(5,6) that d by fastforce
    then have "fst (proposeBlock L now rnd m) \<noteq> Ok br" for br
      using i by (intro proposeBlock_needs_runs [OF assms(1,2) ok]) auto
    from createNewBlock_failed [OF ok c this] i have "r \<noteq> Ok ()" "nd_pool m' = nd_pool m"
      "chain_refs (nd_bc m') = chain_refs (nd_bc n)" by auto
    moreover have "advances L m m'" by (rule keepsD [OF keeps_createNewBlock advances_refl [OF ok] c])
    ultimately show ?thesis using i advances_trans by auto
  qed
  have holds: "?I m'" if i: "?I m" and h: "holds_pending (nd_bc m) (Pool_Pending (nd_pool m)) m'" and a: "advances L m m'" for m m'
    using i h advances_trans [OF _ a] by (auto simp: holds_pending_def)
  have self: "holds_pending (nd_bc m) (Pool_Pending (nd_pool m)) m" for m by (simp add: holds_pending_def)
  have "?I n'"
    using assms(7)
  proof (induction rule: production.induct)
    case start
    with assms(3,4) show ?case by (simp add: advances_refl)
  next
    case (tick n1 now rnd r n2)
    with fails show ?case by blast
  next
    case (message n1 content t sender r n2)
    then have ok: "node_ok L n1" by (simp add: advances_def)
    from message holds process_rpc_holds [OF ok self message.hyps(3,2)] process_rpc_advances [OF ok message.hyps(3)]
    show ?case by blast
  next
    case (api n1 t tx r n2)
    then have ok: "node_ok L n1" by (simp add: advances_def)
    from api holds process_api_tx_holds [OF ok self api.hyps(2)] process_api_tx_advances [OF ok api.hyps(2)]
    show ?case by blast
  qed
  moreover from fails [OF this] have "fst (createNewBlock L G now rnd n') \<noteq> Ok ()" by (metis prod.collapse)
  ultimately show ?thesis by blast
qed

subsection \<open>When a turn of the block producer succeeds\<close>

definition runs_always :: "bytes \<Rightarrow> bool" where
  "runs_always d \<longleftrightarrow> d \<noteq> [] \<and> (\<forall>cs. \<exists>l. lm_run None d (fresh cs) = (Ok (), l))"

lemma runs_always_run_tx:
  assumes "runs_always (tx_Data (h_txs (w_heap w) tr))"
  shows "\<exists>cs. run_tx L tr w = (Ok (), w\<lparr>w_bc := (w_bc w)\<lparr>bc_cstate := cs\<rparr>\<rparr>)"
  using assms run_tx_runs unfolding runs_always_def by metis

lemma runs_always_txs:
  "\<forall>r \<in> set txns. runs_always (tx_Data (h_txs (w_heap w) r)) \<Longrightarrow>
   \<exists>cs. sfor txns (run_tx L) w = (Ok (), w\<lparr>w_bc := (w_bc w)\<lparr>bc_cstate := cs\<rparr>\<rparr>)"
proof (induction txns arbitrary: w)
  case Nil
  then show ?case by (auto simp: sret_def intro: exI [of _ "bc_cstate (w_bc w)"])
next
  case (Cons r rs)
  then obtain cs where 1: "run_tx L r w = (Ok (), w\<lparr>w_bc := (w_bc w)\<lparr>bc_cstate := cs\<rparr>\<rparr>)"
    using runs_always_run_tx by force
  from Cons.IH [of "w\<lparr>w_bc := (w_bc w)\<lparr>bc_cstate := cs\<rparr>\<rparr>"] Cons.prems obtain cs' where
    "sfor rs (run_tx L) (w\<lparr>w_bc := (w_bc w)\<lparr>bc_cstate := cs\<rparr>\<rparr>) = (Ok (), w\<lparr>w_bc := (w_bc w)\<lparr>bc_cstate := cs'\<rparr>\<rparr>)"
    by auto
  with 1 show ?case by (auto simp: sbind_def)
qed

lemma run_tx_empty:
  assumes "tx_Data (h_txs (w_heap w) tr) = []"
  shows "\<exists>w'. run_tx L tr w = (Panic IndexOutOfRange, w')"
proof -
  obtain m where m: "NewVM [] [ContractStateOpt (bc_cstate (w_bc w))] = Ok m" using NewVM_Ok by blast
  from run_panics [OF m] assms m show ?thesis by (auto simp: run_tx_def)
qed

text \<open>The header of the block that the node would build now.\<close>

definition next_header :: "lib \<Rightarrow> u64 \<Rightarrow> node \<Rightarrow> header result" where
  "next_header L now n = bind_result (GetHeader (nd_bc n) (Chain_Height (nd_bc n))) (\<lambda>tip.
     bind_result (newHeaderFromPrev L now (h_headers (nd_heap n) tip))
       (setDataHash L (the_txs (nd_heap n) (Pool_Pending (nd_pool n)))))"

lemma tip_header:
  assumes "chain_ok L w"
  obtains tip where "GetHeader (w_bc w) (Chain_Height (w_bc w)) = Ok tip" "tip = last (chain_refs (w_bc w))"
    "hd_Height (h_headers (w_heap w) tip) = Chain_Height (w_bc w)"
proof -
  let ?refs = "chain_refs (w_bc w)"
  have ne: "?refs \<noteq> []" using assms by (simp add: chain_ok_def)
  have u: "uint (Chain_Height (w_bc w)) = int (length ?refs) - 1" by (rule Chain_Height_uint [OF assms])
  then have n: "unat (Chain_Height (w_bc w)) = length ?refs - 1"
    using ne by (cases ?refs) (simp_all add: unat_eq_nat_uint)
  then have g: "GetHeader (w_bc w) (Chain_Height (w_bc w)) = Ok (last ?refs)"
    using ne by (simp add: GetHeader_in [OF assms] last_conv_nth)
  have "hd_Height (chain_headers (w_heap w) (w_bc w) ! (length ?refs - 1)) = of_nat (length ?refs - 1)"
    using assms ne by (simp add: chain_ok_def chain_pre_def heights_ok_def)
  moreover have "of_nat (unat (Chain_Height (w_bc w))) = Chain_Height (w_bc w)" by simp
  then have "of_nat (length ?refs - 1) = Chain_Height (w_bc w)" unfolding n .
  ultimately have "hd_Height (h_headers (w_heap w) (last ?refs)) = Chain_Height (w_bc w)"
    using ne by (simp add: last_conv_nth)
  from that [OF g refl this] show ?thesis .
qed

text \<open>A key that signs, and a chain that is not at its largest height: the block is built.\<close>

definition can_sign :: "lib \<Rightarrow> nat \<Rightarrow> private_key \<Rightarrow> bool" where
  "can_sign L rnd k \<longleftrightarrow> (\<exists>p. pk_key k = Some p \<and> (\<forall>d. ecdsa_sign L rnd p d \<noteq> None))"

lemma buildBlock_builds:
  assumes "gob_total L" "can_sign L rnd k"
    and "bind_result (newHeaderFromPrev L now prev) (setDataHash L (the_txs h txns)) = Ok x"
  shows "\<exists>br h'. buildBlock L now rnd k prev txns h = (Ok br, h') \<and> block_header h' br = Ok x"
proof -
  let ?hr = "h_next h" and ?br = "h_next h + 1"
  let ?h = "h\<lparr>h_headers := (h_headers h)(?hr := x), h_blocks := (h_blocks h)(?br := NewBlock ?hr txns), h_next := h_next h + 2\<rparr>"
  have 1: "NewBlockFromPrevHeader L now prev txns h = (Ok ?br, ?h)"
    by (simp only: NewBlockFromPrevHeader_def sbind_def sread_def alloc_header_def alloc_block_def assms(3)
        prod.case result.case) simp
  obtain p where p: "pk_key k = Some p" "\<And>d. ecdsa_sign L rnd p d \<noteq> None" using assms(2) by (auto simp: can_sign_def)
  obtain data where d: "gob_header L x = Some data" using assms(1) unfolding gob_total_def by (meson not_None_eq)
  obtain sig where sig: "ecdsa_sign L rnd p data = Some sig" using p(2) by blast
  have dh: "calculateDataHash L (the_txs h txns) = Ok (hd_DataHash x)"
    using assms(3) by (auto simp: setDataHash_def)
  let ?h' = "?h\<lparr>h_blocks := (h_blocks h)(?br := (NewBlock ?hr txns)\<lparr>blk_Signature := Some sig, blk_Validator := key_public L p\<rparr>)\<rparr>"
  have "Block_Sign L rnd k ?br ?h = (Ok (), ?h')"
    using dh by (simp add: Block_Sign_def sbind_def sread_def block_header_def NewBlock_def Header_MustToBytes_def d
        PrivateKey_Sign_def PrivateKey_PublicKey_def p(1) sig on_block_def on_header_def szoom_def smodify_def the_txs_def)
  with 1 have "buildBlock L now rnd k prev txns h = (Ok ?br, ?h')"
    by (simp add: buildBlock_def sbind_def sret_def)
  moreover have "block_header ?h' ?br = Ok x" by (simp add: block_header_def NewBlock_def)
  ultimately show ?thesis by blast
qed

lemma proposeBlock_builds_next:
  assumes "gob_total L" "ecdsa_signs L" "node_ok L n" "can_sign L rnd (nd_key n)"
    and "uint (Chain_Height (nd_bc n)) + 1 < 2 ^ 32"
  obtains tip br h1 x where "next_header L now n = Ok x" "GetHeader (nd_bc n) (Chain_Height (nd_bc n)) = Ok tip"
    "buildBlock L now rnd (nd_key n) (h_headers (nd_heap n) tip) (Pool_Pending (nd_pool n)) (nd_heap n) = (Ok br, h1)"
    "next_block L ((nd_world n)\<lparr>w_heap := h1\<rparr>) br x" "world_ok L ((nd_world n)\<lparr>w_heap := h1\<rparr>)"
    "grows L (nd_heap n) h1" "blk_Transactions (h_blocks h1 br) = Pool_Pending (nd_pool n)" "h_txs h1 = h_txs (nd_heap n)"
proof -
  let ?txns = "Pool_Pending (nd_pool n)"
  obtain tip where tip: "GetHeader (nd_bc n) (Chain_Height (nd_bc n)) = Ok tip" "tip = last (chain_refs (nd_bc n))"
    "hd_Height (h_headers (nd_heap n) tip) = Chain_Height (nd_bc n)"
    by (rule tip_header [OF node_okD(1) [OF assms(3)]])
  let ?prev = "h_headers (nd_heap n) tip"
  obtain dh where dh: "calculateDataHash L (the_txs (nd_heap n) ?txns) = Ok dh"
    using calculateDataHash_total [OF assms(1)] by blast
  have "gob_header L ?prev \<noteq> None" using assms(1) unfolding gob_total_def by blast
  then obtain ph where ph: "DefaultBlockHasher_Hash L ?prev = Ok ph"
    by (auto simp: DefaultBlockHasher_Hash_def Header_MustToBytes_def)
  define x where "x = \<lparr>hd_Version = 1, hd_DataHash = dh, hd_PreviousBlockHash = ph, hd_Timestamp = now,
    hd_Height = hd_Height ?prev + 1\<rparr>"
  have x: "bind_result (newHeaderFromPrev L now ?prev) (setDataHash L (the_txs (nd_heap n) ?txns)) = Ok x"
    by (simp add: newHeaderFromPrev_def ph setDataHash_def dh x_def)
  from buildBlock_builds [OF assms(1,4) x] obtain br h1 where b:
    "buildBlock L now rnd (nd_key n) ?prev ?txns (nd_heap n) = (Ok br, h1)" "block_header h1 br = Ok x" by blast
  have v: "\<forall>r \<in> set ?txns. Tx_Verify L (h_txs (nd_heap n) r) = Ok ()" using pending_known(2) [OF assms(3)] by blast
  note bb = buildBlock_Ok [OF assms(2,1) v b(1)]
  have g: "grows L (nd_heap n) h1" by (rule buildBlock_grows [OF b(1)]) (use pending_known(1) [OF assms(3)] in blast)
  have w: "world_ok L (nd_world n)" using assms(3) by (simp add: node_ok_def)
  have "tip < h_next (nd_heap n)"
    using world_okD(3) [OF w] world_okD(1) [OF w] tip(2) by (simp add: chain_closed_def chain_ok_def)
  then have same: "h_headers h1 tip = ?prev" by (rule grows_header [OF g])
  have "uint (hd_Height x) = uint (Chain_Height (nd_bc n)) + 1"
    using assms(5) by (simp add: x_def tip(3) uint_word_ariths)
  then have "next_block L ((nd_world n)\<lparr>w_heap := h1\<rparr>) br x"
    using bb b(2) tip(1) ph by (simp add: next_block_def same x_def)
  moreover have "next_header L now n = Ok x" using x tip(1) by (simp add: next_header_def)
  moreover have "world_ok L ((nd_world n)\<lparr>w_heap := h1\<rparr>)" using world_heap [OF w g] by blast
  ultimately show ?thesis using that tip(1) b(1) g bb by blast
qed

lemma index_fresh:
  assumes "chain_ok L w" "header_hash L x = Some bh" "no_header_collision L (insert x (set (chain_headers (w_heap w) (w_bc w))))"
    and "uint (hd_Height x) = uint (Chain_Height (w_bc w)) + 1"
  shows "hs_idx (bc_headers (w_bc w)) bh = None"
proof (rule ccontr)
  let ?xs = "chain_headers (w_heap w) (w_bc w)"
  assume "hs_idx (bc_headers (w_bc w)) bh \<noteq> None"
  then obtain i where "hs_idx (bc_headers (w_bc w)) bh = Some i" by blast
  with assms(1) obtain k where k: "k < length ?xs" "header_hash L (?xs ! k) = Some bh"
    unfolding chain_ok_def chain_pre_def index_ok_def by blast
  then have "x = ?xs ! k"
    using assms(2,3) by (intro inj_onD [of "header_hash L" "insert x (set ?xs)"]) (auto simp: no_header_collision_def)
  then have "hd_Height x = of_nat k" using assms(1) k(1) by (simp add: chain_ok_def chain_pre_def heights_ok_def)
  moreover have "length ?xs \<le> 2 ^ 32" using assms(1) by (simp add: chain_ok_def chain_pre_def)
  then have "k < 2 ^ LENGTH(32)" using k(1) by simp
  then have "unat (of_nat k :: u32) = k" by (rule of_nat_inverse [OF refl])
  ultimately have "unat (hd_Height x) = k" by simp
  moreover have "uint (hd_Height x) = int (unat (hd_Height x))" by simp
  ultimately have "uint (hd_Height x) = int k" by (simp only:)
  moreover have "uint (Chain_Height (w_bc w)) = int (length ?xs) - 1" using Chain_Height_uint [OF assms(1)] by simp
  ultimately show False using assms(4) k(1) by simp
qed

lemma broadcastBlock_no_panic:
  assumes "gob_total L" "block_header (nd_heap n) br = Ok x" "heap_ok L (nd_heap n)"
  shows "fst (report f (broadcastBlock L G br) n) = Ok ()"
proof -
  from assms(2) obtain hr where hr: "blk_Header (h_blocks (nd_heap n) br) = Some hr" "x = h_headers (nd_heap n) hr"
    by (auto simp: block_header_def split: option.splits)
  have "gob_header L x \<noteq> None" using assms(1) unfolding gob_total_def by blast
  then obtain bh where "header_hash L x = Some bh" by (auto simp: header_hash_def)
  with Block_Hash_defined [OF hr(1)] hr(2) assms(3) obtain h' where "Block_Hash L br (nd_heap n) = (Ok bh, h')"
    unfolding heap_ok_def by blast
  then show ?thesis
    by (simp add: report_def broadcastBlock_def broadcast_def sbind_def szoom_def sread_def
        NewMessageFromBlock_of message_of_def Message_Bytes_def Transport_Broadcast_def smodify_def
        split: option.split)
qed

lemma createNewBlock_returns:
  assumes "gob_total L" and "ecdsa_signs L" and "node_ok L n" and "can_sign L rnd (nd_key n)"
    and "uint (Chain_Height (nd_bc n)) + 1 < 2 ^ 32"
    and "\<forall>r \<in> set (Pool_Pending (nd_pool n)). runs_always (tx_Data (h_txs (nd_heap n) r))"
    and "\<forall>x. next_header L now n = Ok x \<longrightarrow>
      no_header_collision L (insert x (set (chain_headers (nd_heap n) (nd_bc n))))"
  shows "fst (createNewBlock L G now rnd n) = Ok ()"
proof -
  obtain tip br h1 x where b: "next_header L now n = Ok x" "GetHeader (nd_bc n) (Chain_Height (nd_bc n)) = Ok tip"
    "buildBlock L now rnd (nd_key n) (h_headers (nd_heap n) tip) (Pool_Pending (nd_pool n)) (nd_heap n) = (Ok br, h1)"
    "next_block L ((nd_world n)\<lparr>w_heap := h1\<rparr>) br x" "world_ok L ((nd_world n)\<lparr>w_heap := h1\<rparr>)"
    "grows L (nd_heap n) h1" "blk_Transactions (h_blocks h1 br) = Pool_Pending (nd_pool n)" "h_txs h1 = h_txs (nd_heap n)"
    by (rule proposeBlock_builds_next [OF assms(1-5), of now])
  let ?w = "(nd_world n)\<lparr>w_heap := h1\<rparr>"
  note ok = world_okD [OF b(5)]
  obtain cs where run: "sfor (blk_Transactions (h_blocks (w_heap ?w) br)) (run_tx L) ?w =
      (Ok (), ?w\<lparr>w_bc := (w_bc ?w)\<lparr>bc_cstate := cs\<rparr>\<rparr>)"
    using runs_always_txs [of "blk_Transactions (h_blocks (w_heap ?w) br)" ?w L] assms(6) b(7,8) by auto
  have "gob_header L x \<noteq> None" using assms(1) unfolding gob_total_def by blast
  then obtain bh where bh: "header_hash L x = Some bh" by (auto simp: header_hash_def)
  have "world_ok L (nd_world n)" using assms(3) by (simp add: node_ok_def)
  from keeps_stored_headers [OF grows_keeps_stored [OF this b(6)]] have "hs_idx (bc_headers (w_bc ?w)) bh = None"
    using index_fresh [OF ok(1) bh] assms(7) b(1,4) by (simp add: next_block_def)
  from AddBlock_stores [OF ok(4) b(4) run bh this] obtain w1 where add: "AddBlock L br ?w = (Ok (), w1)" by blast
  from proposeBlock_step [OF b(2,3) add] have p: "proposeBlock L now rnd n = (Ok br, n\<lparr>nd_world := w1\<rparr>)" by simp
  have w1: "world_ok L w1" "grows L h1 (w_heap w1)" using world_AddBlock [OF b(5) add] by simp_all
  have x: "block_header h1 br = Ok x" using b(4) by (simp add: next_block_def)
  have hc: "heap_closed h1" using ok(2) by simp
  have "br < h_next h1" using x heap_closed_header [OF hc] by (auto simp: block_header_def split: option.splits)
  from grows_wire [OF w1(2) hc this] x have "block_header (w_heap w1) br = Ok x" by (simp add: block_header_wire)
  then have "fst (report (\<lambda>e. e) (broadcastBlock L G br) (n\<lparr>nd_world := w1\<rparr>)) = Ok ()"
    by (intro broadcastBlock_no_panic [OF assms(1)]) (use world_okD(4) [OF w1(1)] in simp_all)
  then obtain n2 where "report (\<lambda>e. e) (broadcastBlock L G br) (n\<lparr>nd_world := w1\<rparr>) = (Ok (), n2)"
    by (metis prod.collapse)
  then show ?thesis
    by (simp add: createNewBlock_def announceBlock_def sbind_def p clearPending_def smodify_def)
qed

text \<open>
  C8: the block producer works: with a key that signs, on a chain below its largest height,
  when the programs of the pending transactions run and the hash of the new header is not
  that of a stored one, a turn returns without an error.
\<close>

theorem createNewBlock_succeeds:
  assumes "gob_total L" and "ecdsa_signs L" and "node_ok L n" and "can_sign L rnd (nd_key n)"
    and "uint (Chain_Height (nd_bc n)) + 1 < 2 ^ 32"
    and "\<forall>r \<in> set (Pool_Pending (nd_pool n)). runs_always (tx_Data (h_txs (nd_heap n) r))"
    and "\<forall>x. next_header L now n = Ok x \<longrightarrow>
      no_header_collision L (insert x (set (chain_headers (nd_heap n) (nd_bc n))))"
  shows "fst (createNewBlock L G now rnd n) = Ok ()"
  by (rule createNewBlock_returns [OF assms])

text \<open>
  C36: a transaction without data crashes the validator. It is accepted when its signature
  verifies; once the transactions before it have run, the machine reads its first
  instruction outside of the empty program, and the panic ends the program.
\<close>

theorem empty_transaction_crashes_validator:
  assumes "gob_total L" and "ecdsa_signs L" and "node_ok L n" and "can_sign L rnd (nd_key n)"
    and "uint (Chain_Height (nd_bc n)) + 1 < 2 ^ 32"
    and "Pool_Pending (nd_pool n) = earlier @ tr # later" and "tx_Data (h_txs (nd_heap n) tr) = []"
    and "\<forall>r \<in> set earlier. runs_always (tx_Data (h_txs (nd_heap n) r))"
  shows "fst (createNewBlock L G now rnd n) = Panic IndexOutOfRange"
proof -
  obtain tip br h1 x where b: "GetHeader (nd_bc n) (Chain_Height (nd_bc n)) = Ok tip"
    "buildBlock L now rnd (nd_key n) (h_headers (nd_heap n) tip) (Pool_Pending (nd_pool n)) (nd_heap n) = (Ok br, h1)"
    "next_block L ((nd_world n)\<lparr>w_heap := h1\<rparr>) br x"
    "blk_Transactions (h_blocks h1 br) = Pool_Pending (nd_pool n)" "h_txs h1 = h_txs (nd_heap n)"
    by (rule proposeBlock_builds_next [OF assms(1-5), of now])
  let ?w = "(nd_world n)\<lparr>w_heap := h1\<rparr>"
  obtain cs where run: "sfor earlier (run_tx L) ?w = (Ok (), ?w\<lparr>w_bc := (w_bc ?w)\<lparr>bc_cstate := cs\<rparr>\<rparr>)"
    using runs_always_txs [of earlier ?w L] assms(8) b(5) by auto
  obtain w2 where "run_tx L tr (?w\<lparr>w_bc := (w_bc ?w)\<lparr>bc_cstate := cs\<rparr>\<rparr>) = (Panic IndexOutOfRange, w2)"
    using run_tx_empty [of "?w\<lparr>w_bc := (w_bc ?w)\<lparr>bc_cstate := cs\<rparr>\<rparr>" tr L] assms(7) b(5) by auto
  from AddBlock_stops [OF ValidateBlock_accepts [OF b(3)] _ run this] assms(6) b(4)
  have "AddBlock L br ?w = (Panic IndexOutOfRange, w2)" by simp
  from proposeBlock_step [OF b(1,2) this] show ?thesis
    by (simp add: createNewBlock_def announceBlock_def sbind_def)
qed

subsection \<open>A transaction that comes during a turn\<close>

lemma AddBlock_txStore:
  assumes "chain_ok L w" "AddBlock L br w = (r, w')" "GetTransaction (w_bc w') x = Ok t"
  shows "GetTransaction (w_bc w) x = Ok t \<or>
    (\<exists>u \<in> set (blk_Transactions (h_blocks (w_heap w) br)). x = sha256 L (tx_Data (h_txs (w_heap w) u)))"
  using assms(1,2)
proof (cases rule: AddBlock_cases)
  case refused
  then show ?thesis using assms(3) by (auto simp: wquiet_def GetTransaction_def)
next
  case (added hr bh cs)
  let ?e = "tx_entries L (w_heap w) (blk_Transactions (h_blocks (w_heap w) br))"
  have "MemStore_Get x (bc_txStore (w_bc w)\<lparr>ms_data := ms_data (bc_txStore (w_bc w)) ++ ?e\<rparr>) = Ok t"
    using assms(3) by (simp add: GetTransaction_def added(8) stored_def)
  then show ?thesis
    using tx_entries_keyed [of L "w_heap w" _ x]
    by (cases "?e x") (auto simp: MemStore_Get_def map_add_def GetTransaction_def split: option.splits)
qed

lemma handleTransaction_accepts:
  assumes "node_ok L n" "handleTransaction L G t tr n = (Ok (), n')"
  shows "\<exists>r \<in> set (Pool_Pending (nd_pool n')).
      sha256 L (tx_Data (h_txs (nd_heap n') r)) = sha256 L (tx_Data (h_txs (nd_heap n) tr)) \<and> nd_bc n' = nd_bc n"
proof -
  from assms(2) obtain u where v: "Tx_Verify L (h_txs (nd_heap n) tr) = Ok u"
    by (auto simp: handleTransaction_def sbind_Ok_iff sread_def)
  obtain b n1 where 1: "on_world (on_heap (on_tx tr (Tx_SetCreatedAt t))) n = (b, n1)" by fastforce
  obtain c n2 where 2: "on_pool (Pool_Add L tr) n1 = (c, n2)" by fastforce
  have "advances L n n1" by (rule on_heap_advances [OF assms(1) 1]) (rule SetCreatedAt_grows)
  then have ok1: "node_ok L n1" by (simp add: advances_def)
  have d: "tx_Data (h_txs (nd_heap n1) tr) = tx_Data (h_txs (nd_heap n) tr)" "nd_bc n1 = nd_bc n"
    using 1 by (auto simp: szoom_def on_tx_def Tx_SetCreatedAt_def smodify_def)
  obtain s' where s': "Pool_Add L tr (pool_view n1) = (c, s')" "pool_view n2 = s'" "nd_bc n2 = nd_bc n1"
    using 2 by (auto simp: szoom_def pool_view_def split: prod.splits)
  from handleTransaction_parts [OF v 1 2, of G] assms(2) obtain new where new: "c = Ok new"
    "(if new then report (\<lambda>e. e) (broadcastTx L G tr) else sret ()) n2 = (Ok (), n')"
    by (auto split: result.splits)
  from Pool_Add_ok [OF node_okD(3) [OF ok1], of tr] s'(1,2) new(1)
  have "pool_key L (pool_view n2) tr \<in> pool_key L (pool_view n2) ` set (pool_items (pool_view n2))"
    by (auto split: if_splits)
  then obtain r where r: "r \<in> set (Pool_Pending (nd_pool n2))"
    "sha256 L (tx_Data (h_txs (nd_heap n2) r)) = sha256 L (tx_Data (h_txs (nd_heap n2) tr))"
    by (auto simp: pool_key_def pool_items_def pool_view_def)
  let ?I = "\<lambda>m. quiet L (nd_heap n1) (nd_heap m) \<and> nd_bc m = nd_bc n \<and> nd_pool m = nd_pool n2"
  have q2: "quiet L (nd_heap n1) (nd_heap n2)" using Pool_Add_quiet [OF s'(1)] s'(2) by (auto simp: pool_view_def)
  have hash: "keeps ?I (on_world (on_heap (on_tx tr (Tx_Hash L))))"
    using on_tx_Hash_quiet quiet_trans by (fastforce simp: keeps_def szoom_def split: prod.split)
  have out: "keeps ?I (broadcast G msg)" for msg
    unfolding broadcast_def Transport_Broadcast_def by (intro keeps_sbind keeps_sread keeps_smodify) simp
  have "?I n'"
  proof (cases new)
    case True
    obtain e n3 where b: "broadcastTx L G tr n2 = (e, n3)" by fastforce
    have "keeps ?I (broadcastTx L G tr)"
      unfolding broadcastTx_def by (intro keeps_sbind keeps_sread hash out)
    from keepsD [OF this _ b] q2 s'(3) d(2) have "?I n3" by simp
    with new(2) True b show ?thesis by (auto simp: report_def split: result.splits)
  qed (use new(2) q2 s'(3) d(2) in \<open>simp add: sret_def\<close>)
  then have "nd_bc n' = nd_bc n" "nd_pool n' = nd_pool n2" "\<And>r. tx_Data (h_txs (nd_heap n') r) = tx_Data (h_txs (nd_heap n1) r)"
    using quiet_data by auto
  moreover have "tx_Data (h_txs (nd_heap n2) r) = tx_Data (h_txs (nd_heap n1) r)" for r using quiet_data [OF q2] .
  ultimately show ?thesis using r d(1) by auto
qed

text \<open>
  C24: the pending transactions are cleared after the block has been added, not those that
  went into it. A transaction that is accepted between the two steps of a turn is in the
  pool and not in the block, and the clearing drops it: it is in no block and no longer
  pending.
\<close>

theorem transaction_during_turn_is_lost:
  assumes "gob_total L" and "ecdsa_signs L" and "node_ok L n" and "announceBlock L G now rnd n = (Ok (), n1)"
    and "handleTransaction L G t tr n1 = (Ok (), n2)" and "clearPending n2 = (Ok (), n3)"
    and "key = sha256 L (tx_Data (h_txs (nd_heap n1) tr))"
    and "\<forall>r. GetTransaction (nd_bc n) key \<noteq> Ok r"
    and "\<forall>r \<in> set (Pool_Pending (nd_pool n)). sha256 L (tx_Data (h_txs (nd_heap n) r)) \<noteq> key"
  shows "(\<exists>r \<in> set (Pool_Pending (nd_pool n2)). sha256 L (tx_Data (h_txs (nd_heap n2) r)) = key) \<and>
    Pool_Pending (nd_pool n3) = [] \<and> (\<forall>r. GetTransaction (nd_bc n3) key \<noteq> Ok r)"
proof -
  from assms(4) obtain br m where p: "proposeBlock L now rnd n = (Ok br, m)"
    "report (\<lambda>e. e) (broadcastBlock L G br) m = (Ok (), n1)"
    by (auto simp: announceBlock_def sbind_Ok_iff)
  have c: "createNewBlock L G now rnd n = (Ok (), n1\<lparr>nd_pool := Pool_ClearPending (nd_pool n1)\<rparr>)"
    by (simp add: createNewBlock_def sbind_def assms(4) clearPending_def smodify_def)
  have "nd_bc n1 = nd_bc m"
    by (rule createNewBlock_Ok [OF assms(3) c]) (use p in auto)
  have ok1: "node_ok L n1"
    using keepsD [OF keeps_announceBlock advances_refl [OF assms(3)] assms(4)] by (simp add: advances_def)
  from proposeBlock_Ok [OF assms(3) p(1)] obtain tip h1 w1 where b:
    "buildBlock L now rnd (nd_key n) (h_headers (nd_heap n) tip) (Pool_Pending (nd_pool n)) (nd_heap n) = (Ok br, h1)"
    "world_ok L ((nd_world n)\<lparr>w_heap := h1\<rparr>)"
    "AddBlock L br ((nd_world n)\<lparr>w_heap := h1\<rparr>) = (Ok (), w1)" "m = n\<lparr>nd_world := w1\<rparr>" by metis
  have "\<forall>r \<in> set (Pool_Pending (nd_pool n)). Tx_Verify L (h_txs (nd_heap n) r) = Ok ()"
    using pending_known(2) [OF assms(3)] by blast
  from buildBlock_Ok [OF assms(2,1) this b(1)] have x: "blk_Transactions (h_blocks h1 br) = Pool_Pending (nd_pool n)"
    "h_txs h1 = h_txs (nd_heap n)" by blast+
  have "GetTransaction (nd_bc n1) key \<noteq> Ok r" for r
    using AddBlock_txStore [OF world_okD(1) [OF b(2)] b(3), of key r] assms(8,9) x b(4) \<open>nd_bc n1 = nd_bc m\<close> by auto
  moreover from handleTransaction_accepts [OF ok1 assms(5)] assms(7)
  have "\<exists>r \<in> set (Pool_Pending (nd_pool n2)). sha256 L (tx_Data (h_txs (nd_heap n2) r)) = key" "nd_bc n2 = nd_bc n1"
    by auto
  moreover have "n3 = n2\<lparr>nd_pool := Pool_ClearPending (nd_pool n2)\<rparr>" using assms(6) by (simp add: clearPending_def smodify_def)
  ultimately show ?thesis
    by (simp add: Pool_ClearPending_def TM_Clear_def Pool_Pending_def List_Slice_def List_Clear_def)
qed

subsection \<open>The properties at work\<close>

lemma example_turn:
  assumes "node_ok demo_lib n" "chain_headers (nd_heap n) (nd_bc n) = [genesis]" "nd_key n = \<lparr>pk_key = Some 5\<rparr>"
  shows "can_sign demo_lib rnd (nd_key n)" "uint (Chain_Height (nd_bc n)) + 1 < 2 ^ 32" "Chain_Height (nd_bc n) = 0"
    "\<forall>x. next_header demo_lib now n = Ok x \<longrightarrow>
      no_header_collision demo_lib (insert x (set (chain_headers (nd_heap n) (nd_bc n))))"
proof -
  show "can_sign demo_lib rnd (nd_key n)" by (simp add: can_sign_def assms(3) demo_lib_def)
  have "length (chain_refs (nd_bc n)) = 1" using arg_cong [OF assms(2), of length] by simp
  with Chain_Height_uint [OF node_okD(1) [OF assms(1)]] have u: "uint (Chain_Height (nd_bc n)) = 0" by simp
  then show "uint (Chain_Height (nd_bc n)) + 1 < 2 ^ 32" by simp
  have "uint (Chain_Height (nd_bc n)) = uint (0 :: u32)" using u by simp
  then show h: "Chain_Height (nd_bc n) = 0" by (rule word_uint_eqI)
  show "\<forall>x. next_header demo_lib now n = Ok x \<longrightarrow>
      no_header_collision demo_lib (insert x (set (chain_headers (nd_heap n) (nd_bc n))))"
  proof (intro allI impI)
    fix x
    assume x: "next_header demo_lib now n = Ok x"
    obtain tip where tip: "GetHeader (nd_bc n) (Chain_Height (nd_bc n)) = Ok tip"
      "hd_Height (h_headers (nd_heap n) tip) = Chain_Height (nd_bc n)"
      by (rule tip_header [OF node_okD(1) [OF assms(1)]])
    from x tip(1) have "hd_Height x = hd_Height (h_headers (nd_heap n) tip) + 1"
      by (auto simp: next_header_def newHeaderFromPrev_def setDataHash_def)
    then have "hd_Height x = 1" by (simp add: tip(2) h)
    then show "no_header_collision demo_lib (insert x (set (chain_headers (nd_heap n) (nd_bc n))))"
      unfolding assms(2) using genesis_hash_differs by simp
  qed
qed

lemma example_turn_returns:
  assumes "node_ok demo_lib n" "chain_headers (nd_heap n) (nd_bc n) = [genesis]" "nd_key n = \<lparr>pk_key = Some 5\<rparr>"
    and "\<forall>r \<in> set (Pool_Pending (nd_pool n)). runs_always (tx_Data (h_txs (nd_heap n) r))"
  obtains n' where "createNewBlock demo_lib G now rnd n = (Ok (), n')"
proof -
  note t = example_turn [OF assms(1-3)]
  from createNewBlock_returns [OF demo_lib_contracts(5,2) assms(1) t(1,2) assms(4) t(4)] that show ?thesis
    by (metis prod.collapse)
qed

text \<open>The first block of a node without pending transactions.\<close>

lemma example_first_block:
  assumes n: "node_ok demo_lib n" "chain_headers (nd_heap n) (nd_bc n) = [genesis]" "nd_key n = \<lparr>pk_key = Some 5\<rparr>"
    and none: "Pool_Pending (nd_pool n) = []"
  obtains n' br x where "createNewBlock demo_lib G stamp rnd n = (Ok (), n')" "node_ok demo_lib n'" "Chain_Height (nd_bc n') = 1"
    "chain_headers (nd_heap n') (nd_bc n') = [genesis, x]" "hd_Timestamp x = stamp" "hd_Height x = 1"
    "GetBlockAt (nd_bc n') 1 = Ok br" "Block_Verify demo_lib (nd_heap n') br = Ok ()" "blk_Transactions (h_blocks (nd_heap n') br) = []"
proof -
  have "\<forall>r \<in> set (Pool_Pending (nd_pool n)). runs_always (tx_Data (h_txs (nd_heap n) r))" by (simp add: none)
  then obtain n' where turn: "createNewBlock demo_lib G stamp rnd n = (Ok (), n')" by (rule example_turn_returns [OF n])
  from createNewBlock_effect [OF demo_lib_contracts(5,2) n(1) turn] obtain br x where e: "node_ok demo_lib n'"
    "GetBlockAt (nd_bc n') (Chain_Height (nd_bc n')) = Ok br" "block_header (nd_heap n') br = Ok x" "hd_Timestamp x = stamp"
    "uint (Chain_Height (nd_bc n')) = uint (Chain_Height (nd_bc n)) + 1" "hd_Height x = Chain_Height (nd_bc n')"
    "Block_Verify demo_lib (nd_heap n') br = Ok ()" "blk_Transactions (h_blocks (nd_heap n') br) = []" unfolding none by blast
  have "length (chain_refs (nd_bc n)) = 1" using arg_cong [OF n(2), of length] by simp
  then have "uint (Chain_Height (nd_bc n')) = 1" using e(5) Chain_Height_uint [OF node_okD(1) [OF n(1)]] by simp
  then have h: "Chain_Height (nd_bc n') = 1" "length (chain_refs (nd_bc n')) = 2"
    using Chain_Height_uint [OF node_okD(1) [OF e(1)]] by (simp_all add: word_uint_eq_iff)
  have "unat (1 :: u32) < length (chain_refs (nd_bc n'))" by (simp add: h(2))
  from GetBlockAt_in [OF node_okD(1) [OF e(1)] this] obtain b where
    "GetBlockAt (nd_bc n') 1 = Ok b" "blk_Header (h_blocks (nd_heap n') b) = Some (chain_refs (nd_bc n') ! unat (1 :: u32))" by blast
  with e(2,3) h have nth: "chain_headers (nd_heap n') (nd_bc n') ! 1 = x" by (simp add: block_header_def)
  have "advances demo_lib n n'" by (rule keepsD [OF keeps_createNewBlock advances_refl [OF n(1)] turn])
  then obtain ys where ys: "chain_headers (nd_heap n') (nd_bc n') = genesis # ys" using n(2) by (auto simp: advances_def extends_def)
  from this h(2) obtain y where "ys = [y]" by (cases ys) (auto dest: arg_cong [of _ _ length])
  with ys nth have "chain_headers (nd_heap n') (nd_bc n') = [genesis, x]" by simp
  then show ?thesis using that turn e h(1) by simp
qed

lemma store_code_always: "runs_always store_code"
  using store_code_run by (auto simp: runs_always_def) (simp add: store_code_def)

theorem createNewBlock_succeeds_witness:
  "\<exists>n. Pool_Pending (nd_pool n) \<noteq> [] \<and> fst (createNewBlock demo_lib demo_gob 3 0 n) = Ok ()"
proof -
  obtain n tr where n: "node_ok demo_lib n" "Pool_Pending (nd_pool n) = [tr]" "tx_Data (h_txs (nd_heap n) tr) = store_code"
    "chain_headers (nd_heap n) (nd_bc n) = [genesis]" "nd_key n = \<lparr>pk_key = Some 5\<rparr>"
    by (rule pending_node [of "''A''" demo_gob 7 store_code])
  note t = example_turn [OF n(1,4,5)]
  have "\<forall>r \<in> set (Pool_Pending (nd_pool n)). runs_always (tx_Data (h_txs (nd_heap n) r))"
    using store_code_always by (simp add: n(2,3))
  from createNewBlock_succeeds [OF demo_lib_contracts(5,2) n(1) t(1,2) this t(4), of demo_gob] have
    "fst (createNewBlock demo_lib demo_gob 3 0 n) = Ok ()" .
  moreover have "Pool_Pending (nd_pool n) \<noteq> []" using n(2) by simp
  ultimately show ?thesis by blast
qed

theorem createNewBlock_commits_pending_witness:
  "\<exists>n n' r. Pool_Pending (nd_pool n) \<noteq> [] \<and> createNewBlock demo_lib demo_gob 3 0 n = (Ok (), n') \<and>
     Pool_Pending (nd_pool n') = [] \<and> GetTransaction (nd_bc n') (sha256 demo_lib store_code) = Ok r"
proof -
  obtain n tr where n: "node_ok demo_lib n" "Pool_Pending (nd_pool n) = [tr]" "tx_Data (h_txs (nd_heap n) tr) = store_code"
    "chain_headers (nd_heap n) (nd_bc n) = [genesis]" "nd_key n = \<lparr>pk_key = Some 5\<rparr>"
    by (rule pending_node [of "''A''" demo_gob 7 store_code])
  have "\<forall>r \<in> set (Pool_Pending (nd_pool n)). runs_always (tx_Data (h_txs (nd_heap n) r))"
    using store_code_always by (simp add: n(2,3))
  then obtain n' where n': "createNewBlock demo_lib demo_gob 3 0 n = (Ok (), n')"
    by (rule example_turn_returns [OF n(1,4,5)])
  from createNewBlock_commits_pending [OF demo_lib_contracts(5,2) n(1) n'] have
    "Pool_Pending (nd_pool n') = []" "\<exists>r. GetTransaction (nd_bc n') (sha256 demo_lib store_code) = Ok r"
    by (simp_all add: n(2,3))
  moreover have "Pool_Pending (nd_pool n) \<noteq> []" using n(2) by simp
  ultimately show ?thesis using n' by blast
qed

theorem failing_transaction_stops_production_witness:
  "\<exists>n tr r n1. createNewBlock demo_lib demo_gob 3 0 n = (r, n1) \<and> tr \<in> set (Pool_Pending (nd_pool n1)) \<and>
     tx_Data (h_txs (nd_heap n) tr) = [InstructionAddInt] \<and> fst (createNewBlock demo_lib demo_gob 4 0 n1) \<noteq> Ok ()"
proof -
  obtain n tr where n: "node_ok demo_lib n" "Pool_Pending (nd_pool n) = [tr]" "tx_Data (h_txs (nd_heap n) tr) = [InstructionAddInt]"
    by (rule pending_node [of "''A''" demo_gob 7 "[InstructionAddInt]"])
  obtain r n1 where turn: "createNewBlock demo_lib demo_gob 3 0 n = (r, n1)" by fastforce
  have run: "\<exists>e l. lm_run None [InstructionAddInt] (fresh cs) = (Err e, l)" for cs
    by (simp add: fresh_def lm_exec_def go_simps lm_pop_Nil)
  have "tr \<in> set (Pool_Pending (nd_pool n))" using n(2) by simp
  moreover have "tx_Data (h_txs (nd_heap n) tr) \<noteq> []" using n(3) by simp
  moreover have "\<forall>cs. \<exists>e l. lm_run None (tx_Data (h_txs (nd_heap n) tr)) (fresh cs) = (Err e, l)" using run by (simp add: n(3))
  moreover have "production demo_lib demo_gob n n1" using production.tick [OF production.start turn] .
  ultimately have "tr \<in> set (Pool_Pending (nd_pool n1)) \<and> chain_refs (nd_bc n1) = chain_refs (nd_bc n) \<and>
      fst (createNewBlock demo_lib demo_gob 4 0 n1) \<noteq> Ok ()"
    by (rule failing_transaction_stops_production [OF demo_lib_contracts(5,2) n(1)])
  with turn n(3) show ?thesis by blast
qed

theorem empty_transaction_crashes_validator_witness:
  "\<exists>n0 n n'. process_api_tx demo_lib demo_gob 7 ([], [5], Some [5]) n0 = (Ok (), n) \<and>
     createNewBlock demo_lib demo_gob 3 0 n = (Panic IndexOutOfRange, n')"
proof -
  obtain n tr n0 where run: "process_api_tx demo_lib demo_gob 7 (signed_tx []) n0 = (Ok (), n)"
    and n: "node_ok demo_lib n" "Pool_Pending (nd_pool n) = [tr]" "tx_Data (h_txs (nd_heap n) tr) = []"
    "chain_headers (nd_heap n) (nd_bc n) = [genesis]" "nd_key n = \<lparr>pk_key = Some 5\<rparr>"
    by (rule pending_node [of "''A''" demo_gob 7 "[]"])
  note t = example_turn [OF n(1,4,5)]
  have "Pool_Pending (nd_pool n) = [] @ tr # []" using n(2) by simp
  from empty_transaction_crashes_validator [OF demo_lib_contracts(5,2) n(1) t(1,2) this n(3), of demo_gob 3] have
    "fst (createNewBlock demo_lib demo_gob 3 0 n) = Panic IndexOutOfRange" by simp
  then obtain n' where "createNewBlock demo_lib demo_gob 3 0 n = (Panic IndexOutOfRange, n')" by (metis prod.collapse)
  with run show ?thesis unfolding signed_tx_def by auto
qed

lemma keeps_pool_announceBlock: "keeps (\<lambda>m. nd_pool m = p) (announceBlock L G now rnd)"
proof -
  have world: "keeps (\<lambda>m. nd_pool m = p) (on_world m)" for m :: "(world, 'a) go"
    by (auto simp: keeps_def szoom_def split: prod.split)
  have rep: "keeps (\<lambda>m. nd_pool m = p) (report f m)" if "keeps (\<lambda>m. nd_pool m = p) m" for f m
    using that by (fastforce simp: keeps_def report_def split: prod.splits result.splits)
  have block: "keeps (\<lambda>m. nd_pool m = p) (broadcastBlock L G br)" for br
    unfolding broadcastBlock_def broadcast_def Transport_Broadcast_def
    by (intro keeps_sbind keeps_sread keeps_smodify world) simp
  show ?thesis
    unfolding announceBlock_def proposeBlock_def by (intro keeps_intro world rep block)
qed

theorem transaction_during_turn_is_lost_witness:
  "\<exists>n n1 n2 n3 tr. announceBlock demo_lib demo_gob 3 0 n = (Ok (), n1) \<and>
     handleTransaction demo_lib demo_gob 7 tr n1 = (Ok (), n2) \<and> clearPending n2 = (Ok (), n3) \<and>
     Pool_Pending (nd_pool n3) = [] \<and>
     (\<forall>r. GetTransaction (nd_bc n3) (sha256 demo_lib (tx_Data (h_txs (nd_heap n1) tr))) \<noteq> Ok r)"
proof -
  obtain n0 where n0: "node_ok demo_lib n0" "Pool_Pending (nd_pool n0) = []" "chain_headers (nd_heap n0) (nd_bc n0) = [genesis]"
    "nd_key n0 = \<lparr>pk_key = Some 5\<rparr>" "ms_data (bc_txStore (nd_bc n0)) = Map.empty" "\<not> pool_full n0"
    by (rule fresh_node [of "''A''"])
  obtain tr n where n: "on_world (on_heap (receive_tx (signed_tx store_code))) n0 = (Ok tr, n)" "node_ok demo_lib n"
    "nd_bc n = nd_bc n0" "nd_pool n = nd_pool n0" "nd_key n = nd_key n0" "tr < h_next (nd_heap n)"
    "tx_wire (h_txs (nd_heap n) tr) = signed_tx store_code"
    using receive_tx_node [OF n0(1), of "signed_tx store_code"] by blast
  have "advances demo_lib n0 n" by (rule on_heap_advances [OF n0(1) n(1)]) (use receive_tx_spec in blast)
  then have g: "chain_headers (nd_heap n) (nd_bc n) = [genesis]"
    using n0(3) n(3) by (auto simp: advances_def extends_def)
  have k: "nd_key n = \<lparr>pk_key = Some 5\<rparr>" by (simp add: n(5) n0(4))
  have "\<forall>r \<in> set (Pool_Pending (nd_pool n)). runs_always (tx_Data (h_txs (nd_heap n) r))" by (simp add: n(4) n0(2))
  then obtain n' where n': "createNewBlock demo_lib demo_gob 3 0 n = (Ok (), n')"
    by (rule example_turn_returns [OF n(2) g k])
  then obtain n1 where n1: "announceBlock demo_lib demo_gob 3 0 n = (Ok (), n1)"
    by (auto simp: createNewBlock_def sbind_Ok_iff)
  have adv: "advances demo_lib n n1" by (rule keepsD [OF keeps_announceBlock advances_refl [OF n(2)] n1])
  then have ok1: "node_ok demo_lib n1" and gr: "grows demo_lib (nd_heap n) (nd_heap n1)" by (simp_all add: advances_def)
  have w: "tx_wire (h_txs (nd_heap n1) tr) = signed_tx store_code" using grows_tx [OF gr n(6)] n(7) by simp
  have pool: "nd_pool n1 = nd_pool n" by (rule keepsD [OF keeps_pool_announceBlock refl n1])
  have f: "\<not> pool_full n1" "\<not> is_pending demo_lib n1 d" for d
    using n0(2,6) by (simp_all add: pool n(4) is_pending_def pool_full_def)
  from handleTransaction_effect [OF ok1 signed_tx_verifies [OF w], of demo_gob 7] f obtain n2 where
    n2: "handleTransaction demo_lib demo_gob 7 tr n1 = (Ok (), n2)" by auto
  obtain n3 where n3: "clearPending n2 = (Ok (), n3)" by (simp add: clearPending_def smodify_def)
  have "\<forall>r. GetTransaction (nd_bc n) (sha256 demo_lib (tx_Data (h_txs (nd_heap n1) tr))) \<noteq> Ok r"
    by (simp add: n(3) GetTransaction_def MemStore_Get_def n0(5))
  moreover have "\<forall>r \<in> set (Pool_Pending (nd_pool n)). sha256 demo_lib (tx_Data (h_txs (nd_heap n) r)) \<noteq>
      sha256 demo_lib (tx_Data (h_txs (nd_heap n1) tr))" by (simp add: n(4) n0(2))
  ultimately show ?thesis
    using transaction_during_turn_is_lost [OF demo_lib_contracts(5,2) n(2) n1 n2 n3 refl] n1 n2 n3 by blast
qed

end
