(* ===== verification/Server_Node_Handlers.thy ===== *)
theory Server_Node_Handlers
  imports Server_Node_Props
begin

section \<open>What the handlers of a node do\<close>

text \<open>
  The handler of blocks by the height of the block, messages that end the program, and the
  subscription between two nodes.
\<close>

subsection \<open>Transactions\<close>



subsection \<open>Blocks\<close>

lemma broadcastBlock_sends:
  assumes "heap_ok L (nd_heap n)" "block_header (nd_heap n) br = Ok x" "header_hash L x = Some bh"
  shows "\<exists>n'. report f (broadcastBlock L G br) n = (Ok (), n') \<and> nd_bc n' = nd_bc n \<and> nd_pool n' = nd_pool n \<and>
    nd_sent n' = nd_sent n @ sent_of (payload_Bytes G (PBlock (block_wire_of (nd_heap n) br)))"
proof -
  from assms(2) obtain hr where hr: "blk_Header (h_blocks (nd_heap n) br) = Some hr" "x = h_headers (nd_heap n) hr"
    by (auto simp: block_header_def split: option.splits)
  have "block_cache_ok L (nd_heap n) br" using assms(1) by (simp add: heap_ok_def)
  from Block_Hash_defined [OF hr(1) _ this] assms(3) hr(2) obtain h' where h':
    "Block_Hash L br (nd_heap n) = (Ok bh, h')" by blast
  then have "quiet L (nd_heap n) h'" by (rule Block_Hash_quiet)
  then have "block_wire_of h' br = block_wire_of (nd_heap n) br"
    by (simp add: block_wire_of_def Let_def quiet_def same_content_def the_txs_def)
  then show ?thesis
    by (auto simp: report_def broadcastBlock_def broadcast_def sbind_def szoom_def sread_def h'
        NewMessageFromBlock_of message_of_def Message_Bytes_def Transport_Broadcast_def smodify_def
        sent_of_def payload_Bytes_def split: option.split)
qed

lemma requestBlocks_sends:
  "\<exists>r. requestBlocks G n = (r, n\<lparr>nd_sent := nd_sent n @ sent_of (payload_Bytes G (PGetBlocksRequest
     \<lparr>gq_RequestorID = nd_addr n, gq_StartHeight = Chain_Height (nd_bc n) + 1\<rparr>))\<rparr>) \<and> (\<forall>p. r \<noteq> Panic p)"
  by (auto simp: requestBlocks_def broadcast_def sbind_def sread_def NewMessageFromGetBlocksRequest_def
      message_of_def Message_Bytes_def Transport_Broadcast_def smodify_def sent_of_def payload_Bytes_def
      split: option.split)

text \<open>The steps of the handler: the hash for the log, the insertion, and what follows it.\<close>

lemma handleBlock_steps:
  assumes "node_ok L n" "br < h_next (nd_heap n)" "block_header (nd_heap n) br = Ok x" "header_hash L x = Some bh"
  shows "\<exists>h. advances L n (n\<lparr>nd_world := (nd_world n)\<lparr>w_heap := h\<rparr>\<rparr>) \<and> block_header h br = Ok x \<and>
    handleBlock L G br n = (case AddBlock L br ((nd_world n)\<lparr>w_heap := h\<rparr>) of
        (Ok _, w) \<Rightarrow> report (\<lambda>e. e) (broadcastBlock L G br) (n\<lparr>nd_world := w\<rparr>)
      | (Panic p, w) \<Rightarrow> (Panic p, n\<lparr>nd_world := w\<rparr>)
      | (Err e, w) \<Rightarrow> if as_OutOfSync e then
            (case requestBlocks G (n\<lparr>nd_world := w\<rparr>) of (Panic p, n') \<Rightarrow> (Panic p, n') | (_, n') \<Rightarrow> (Ok (), n'))
          else (Err e, n\<lparr>nd_world := w\<rparr>))"
proof -
  from assms(3) obtain hr where hr: "blk_Header (h_blocks (nd_heap n) br) = Some hr" "x = h_headers (nd_heap n) hr"
    by (auto simp: block_header_def split: option.splits)
  have "block_cache_ok L (nd_heap n) br" using node_okD(4) [OF assms(1)] by (simp add: heap_ok_def)
  from Block_Hash_defined [OF hr(1) _ this] assms(4) hr(2) obtain h where h: "Block_Hash L br (nd_heap n) = (Ok bh, h)" by blast
  then have b: "on_world (on_heap (Block_Hash L br)) n = (Ok bh, n\<lparr>nd_world := (nd_world n)\<lparr>w_heap := h\<rparr>\<rparr>)" by (simp add: szoom_def)
  then have adv: "advances L n (n\<lparr>nd_world := (nd_world n)\<lparr>w_heap := h\<rparr>\<rparr>)" by (rule on_heap_advances [OF assms(1)]) (rule Block_Hash_grows)
  then have "grows L (nd_heap n) h" by (simp add: advances_def)
  from grows_wire [OF this node_okD(2) [OF assms(1)] assms(2)] assms(3) have "block_header h br = Ok x"
    by (simp add: block_header_wire)
  with adv show ?thesis unfolding handleBlock_def sbind_def b by (intro exI [of _ h]) (simp add: szoom_def split: prod.split)
qed

text \<open>An added block goes to everyone.\<close>

lemma added_block_passed_on:
  assumes "advances L n n2" "node_ok L n" "br < h_next (nd_heap n)" "block_header (nd_heap n) br = Ok x" "header_hash L x = Some bh"
  shows "\<exists>n3. report (\<lambda>e. e) (broadcastBlock L G br) n2 = (Ok (), n3) \<and> nd_bc n3 = nd_bc n2 \<and> nd_pool n3 = nd_pool n2 \<and>
    nd_sent n3 = nd_sent n2 @ sent_of (payload_Bytes G (PBlock (block_wire_of (nd_heap n) br)))"
proof -
  have "grows L (nd_heap n) (nd_heap n2)" using assms(1) by (simp add: advances_def)
  note w = grows_wire [OF this node_okD(2) [OF assms(2)] assms(3)]
  have "block_header (nd_heap n2) br = Ok x" using assms(4) by (simp only: block_header_wire w)
  from broadcastBlock_sends [OF _ this assms(5), of "\<lambda>e. e" G] assms(1) node_okD(4) [of L n2] show ?thesis
    unfolding w advances_def by auto
qed



subsection \<open>Messages that end the program\<close>

lemma decode_blocks:
  assumes "node_ok L n" "ExtractMessageFromRPC G sender content = Ok (s, PGetBlocksResponse bs)"
  shows "\<exists>rs n1. decode_rpc G sender content n = (Ok (DGetBlocksResponse rs), n1) \<and> advances L n n1 \<and>
    (\<exists>h. n1 = n\<lparr>nd_world := (nd_world n)\<lparr>w_heap := h\<rparr>\<rparr>) \<and>
    list_all2 (\<lambda>r b. r < h_next (nd_heap n1) \<and> block_wire_of (nd_heap n1) r = b) rs bs"
proof -
  note c = node_okD(2) [OF assms(1)]
  obtain a h where m: "alloc_each receive_block bs (nd_heap n) = (a, h)" by fastforce
  have "\<exists>rs. a = Ok rs \<and> grows L (nd_heap n) h \<and> list_all2 (\<lambda>r b. r < h_next h \<and> block_wire_of h r = b) rs bs"
  proof (rule alloc_each_spec [OF _ _ c m])
    show "\<exists>r. a = Ok r \<and> grows L h h' \<and> r < h_next h' \<and> block_wire_of h' r = x"
      if "heap_closed h" "receive_block x h = (a, h')" for x h a h' using receive_block_spec [OF that] .
    show "block_wire_of h' r = x" if "block_wire_of h r = x" "r < h_next h" "heap_closed h" "grows L h h'" for x h h' r
      using grows_wire [OF that(4,3,2)] that(1) by simp
  qed
  then obtain rs where rs: "a = Ok rs" "list_all2 (\<lambda>r b. r < h_next h \<and> block_wire_of h r = b) rs bs" by blast
  let ?n1 = "n\<lparr>nd_world := (nd_world n)\<lparr>w_heap := h\<rparr>\<rparr>"
  have d: "decode_rpc G sender content n = (Ok (DGetBlocksResponse rs), ?n1)"
    using m rs(1) assms(2) by (simp add: decode_rpc_def sbind_def sread_def szoom_def sret_def)
  with decode_rpc_advances [OF assms(1) d] rs(2) show ?thesis by auto
qed

lemma decode_block:
  assumes "node_ok L n" "ExtractMessageFromRPC G sender content = Ok (s, PBlock b)"
  shows "\<exists>r n1. decode_rpc G sender content n = (Ok (DBlock r), n1) \<and> advances L n n1 \<and>
    r < h_next (nd_heap n1) \<and> block_wire_of (nd_heap n1) r = b"
proof -
  obtain a h where m: "receive_block b (nd_heap n) = (a, h)" by fastforce
  from receive_block_spec [OF node_okD(2) [OF assms(1)] m] obtain r where r: "a = Ok r" "r < h_next h"
    "block_wire_of h r = b" by blast
  have d: "decode_rpc G sender content n = (Ok (DBlock r), n\<lparr>nd_world := (nd_world n)\<lparr>w_heap := h\<rparr>\<rparr>)"
    using m r(1) assms(2) by (simp add: decode_rpc_def sbind_def sread_def szoom_def sret_def)
  with decode_rpc_advances [OF assms(1) d] r(2,3) show ?thesis by auto
qed

text \<open>
  C35: a block without a header, which any peer can send, alone or first in an answer to a
  request for blocks, ends the program: the header is read before anything is checked.
\<close>

theorem headerless_block_crashes_node:
  assumes "node_ok L n" and "ExtractMessageFromRPC G sender content = Ok (s, p)"
    and "p = PBlock b \<or> (\<exists>bs. p = PGetBlocksResponse (b # bs))" and "bw_Header b = None"
  shows "fst (process_rpc L G now sender content n) = Panic NilDereference"
  using assms(3)
proof
  assume "p = PBlock b"
  with decode_block [OF assms(1), of G sender content s b] assms(2) obtain r n1 where
    d: "decode_rpc G sender content n = (Ok (DBlock r), n1)" "advances L n n1" "block_wire_of (nd_heap n1) r = b" by blast
  have x: "block_header (nd_heap n1) r = Panic NilDereference" using assms(4) by (simp add: block_header_wire d(3))
  have "block_cache_ok L (nd_heap n1) r" using d(2) node_okD(4) [of L n1] by (simp add: advances_def heap_ok_def)
  with x have "Hash_IsZero (blk_hash (h_blocks (nd_heap n1) r))" by (simp add: block_cache_ok_def)
  with x have "Block_Hash L r (nd_heap n1) = (Panic NilDereference, nd_heap n1)"
    by (simp add: Block_Hash_def sbind_def sread_def)
  then show ?thesis using d(1) by (simp add: process_rpc_def report_def handleBlock_def sbind_def szoom_def)
next
  assume "\<exists>bs. p = PGetBlocksResponse (b # bs)"
  then obtain bs where "p = PGetBlocksResponse (b # bs)" by blast
  with decode_blocks [OF assms(1), of G sender content s "b # bs"] assms(2) obtain rs n1 where
    d: "decode_rpc G sender content n = (Ok (DGetBlocksResponse rs), n1)"
    "list_all2 (\<lambda>r b. r < h_next (nd_heap n1) \<and> block_wire_of (nd_heap n1) r = b) rs (b # bs)" by blast
  from d(2) obtain r rs' where r: "rs = r # rs'" "block_wire_of (nd_heap n1) r = b" by (auto simp: list_all2_Cons2)
  then have x: "block_header (nd_heap n1) r = Panic NilDereference" using assms(4) by (simp add: block_header_wire)
  show ?thesis using d(1) x r(1)
    by (simp add: process_rpc_def report_def handleGetBlocksResponse_def sbind_def sread_def)
qed

theorem headerless_block_crashes_node_witness:
  "\<exists>G n. gob_round_trips G \<and> fst (process_rpc demo_lib G 7 ''peer'' [1, 1] n) = Panic NilDereference"
proof -
  let ?b = "\<lparr>bw_Header = None, bw_Transactions = [], bw_Validator = [], bw_Signature = None\<rparr>"
  let ?G = "two_gob (PBlock ?b) (PBlock ?b)"
  obtain n where n: "node_ok demo_lib n" by (rule fresh_node [of "''A''"])
  have "plain_payload (PBlock ?b)" by (simp add: plain_block_def plain_sig_def)
  from ExtractMessage_encoded [OF two_gob_round_trips this two_gob_Bytes(1)]
  have "ExtractMessageFromRPC ?G ''peer'' [1, 1] = Ok (''peer'', PBlock ?b)" by simp
  from headerless_block_crashes_node [OF n this, of ?b 7] two_gob_round_trips show ?thesis by auto
qed

subsection \<open>Subscriptions\<close>

lemma payload_Bytes_message:
  "payload_Bytes G p = Ok data \<Longrightarrow> \<exists>m. message_of G (payload_type p) p = Ok m \<and> Message_Bytes G m = Ok data"
  by (auto simp: payload_Bytes_def)

lemma payload_Bytes_nonempty: "gob_round_trips G \<Longrightarrow> payload_Bytes G p = Ok data \<Longrightarrow> data \<noteq> []"
  by (auto simp: payload_Bytes_def Message_Bytes_def gob_round_trips_def split: option.splits)

lemma send_message:
  assumes "Message_Bytes G m = Ok data" "data \<noteq> []" "nd_conns n addr \<noteq> None"
  shows "send G addr m n = (Ok (), n\<lparr>nd_sent := nd_sent n @ [OutSend addr data]\<rparr>)"
  using assms by (simp add: send_def sbind_def sread_def Transport_Send_def)

text \<open>A message without objects is decoded to what was sent, and handled.\<close>

lemma process_rpc_plain:
  assumes "gob_round_trips G" "plain_payload p" "payload_Bytes G p = Ok data" "receive_payload p (nd_heap n) = (Ok d, nd_heap n)"
    and "ProcessMessage L G now d n = (Ok (), n')"
  shows "process_rpc L G now sender data n = (Ok (), n')"
  using assms(4,5) ExtractMessage_encoded [OF assms(1-3), of sender]
  by (simp add: process_rpc_def decode_rpc_def sbind_def sread_def szoom_def report_Ok)

text \<open>
  A subscription makes peers of both nodes. When a node is connected to another one
  and the other one finds the connection under the handle it is told, then the request is
  sent, the other one adds the node as a peer and answers, and the answer makes the other
  one a peer of the node; nothing else changes.
\<close>

lemma subscription_messages:
  assumes "gob_round_trips G" and "nd_conns a (nd_addr b) = Some there"
    and "nd_conns b (p_local there) = Some here" and "nd_conns b (p_remote here) \<noteq> None"
    and "payload_Bytes G (PSubscribeRequest \<lparr>sq_RequestorID = nd_addr a, sq_Handle = p_local there\<rparr>) = Ok req"
    and "payload_Bytes G (PSubscribeResponse (nd_addr b)) = Ok resp"
  shows "Subscribe G (nd_addr b) a = (Ok (), a\<lparr>nd_sent := nd_sent a @ [OutSend (nd_addr b) req]\<rparr>) \<and>
    process_rpc L G t1 s1 req b = (Ok (), b\<lparr>nd_peers := (nd_peers b)(nd_addr a \<mapsto> here),
      nd_sent := nd_sent b @ [OutSend (p_remote here) resp]\<rparr>) \<and>
    process_rpc L G t2 s2 resp a = (Ok (), a\<lparr>nd_peers := (nd_peers a)(nd_addr b \<mapsto> there)\<rparr>)"
proof (intro conjI)
  let ?q = "\<lparr>sq_RequestorID = nd_addr a, sq_Handle = p_local there\<rparr>"
  from payload_Bytes_message [OF assms(5)] obtain m where m: "NewMessageFromSubscribeMessageRequest G ?q = Ok m"
    "Message_Bytes G m = Ok req" by (auto simp: NewMessageFromSubscribeMessageRequest_def)
  from send_message [OF m(2) payload_Bytes_nonempty [OF assms(1,5)], of a "nd_addr b"] assms(2) m(1)
  show "Subscribe G (nd_addr b) a = (Ok (), a\<lparr>nd_sent := nd_sent a @ [OutSend (nd_addr b) req]\<rparr>)"
    by (simp add: Subscribe_def sbind_def sread_def Transport_Get_def)
  from payload_Bytes_message [OF assms(6)] obtain r where r: "NewMessageFromSubscribeMessageResponse G (nd_addr b) = Ok r"
    "Message_Bytes G r = Ok resp" by (auto simp: NewMessageFromSubscribeMessageResponse_def)
  let ?b = "b\<lparr>nd_peers := (nd_peers b)(nd_addr a \<mapsto> here)\<rparr>"
  from send_message [OF r(2) payload_Bytes_nonempty [OF assms(1,6)], of ?b "p_remote here"] assms(3,4) r(1)
  have "handleSubscribeMessageRequest G ?q b = (Ok (), ?b\<lparr>nd_sent := nd_sent b @ [OutSend (p_remote here) resp]\<rparr>)"
    by (simp add: handleSubscribeMessageRequest_def sbind_def sread_def Transport_Get_def Peers_add_def smodify_def)
  then show "process_rpc L G t1 s1 req b = (Ok (), b\<lparr>nd_peers := (nd_peers b)(nd_addr a \<mapsto> here),
      nd_sent := nd_sent b @ [OutSend (p_remote here) resp]\<rparr>)"
    by (intro process_rpc_plain [OF assms(1) _ assms(5), of _ "DSubscribeMessageRequest ?q"]) (simp_all add: sret_def)
  have "handleSubscribeMessageResponse (nd_addr b) a = (Ok (), a\<lparr>nd_peers := (nd_peers a)(nd_addr b \<mapsto> there)\<rparr>)"
    using assms(2) by (simp add: handleSubscribeMessageResponse_def sbind_def sread_def Transport_Get_def
        Peers_add_def smodify_def)
  then show "process_rpc L G t2 s2 resp a = (Ok (), a\<lparr>nd_peers := (nd_peers a)(nd_addr b \<mapsto> there)\<rparr>)"
    by (intro process_rpc_plain [OF assms(1) _ assms(6), of _ "DSubscribeMessageResponse (nd_addr b)"]) (simp_all add: sret_def)
qed

end
