(* ===== verification/Server_Node_Sync.thy ===== *)
theory Server_Node_Sync
  imports Server_Node_Handlers Core_Replay
begin

section \<open>How nodes spread and catch up on blocks\<close>

text \<open>
  The properties of the handlers that exchange blocks (\<^verbatim>\<open>handleBlock\<close>,
  \<^verbatim>\<open>handleGetBlocksRequest\<close>, \<^verbatim>\<open>handleGetBlocksResponse\<close>) and peers
  (\<^verbatim>\<open>handleSubscribe...\<close>): what is stored, what is sent and to whom, and that a node that is
  behind ends with the chain of the node that answers it.
\<close>

subsection \<open>The loop over the blocks\<close>

lemma GetBlockAt_nth:
  assumes "chain_ok L w" "k < length (chain_refs (w_bc w))" "length (chain_refs (w_bc w)) < 2 ^ 32"
  shows "GetBlockAt (w_bc w) (of_nat k) = Ok (nth_block (w_bc w) k)"
proof -
  have "k < 2 ^ LENGTH(32)" using assms(2,3) by simp
  then have k: "unat (of_nat k :: u32) = k" by (rule of_nat_inverse [OF refl])
  have "unat (of_nat k :: u32) < length (chain_refs (w_bc w))" using assms(2) k by simp
  from GetBlockAt_in [OF assms(1) this] obtain br where "GetBlockAt (w_bc w) (of_nat k) = Ok br"
    "ms_data (bc_store (w_bc w)) (chain_refs (w_bc w) ! k) = Some br" unfolding k by blast
  then show ?thesis by (simp add: nth_block_def)
qed

lemma blocks_loop_result:
  assumes "chain_ok L w" "length (chain_refs (w_bc w)) < 2 ^ 32" "k \<le> length (chain_refs (w_bc w))"
  shows "blocks_loop (w_bc w) (of_nat k) acc =
    Some (Ok (acc @ map (nth_block (w_bc w)) [k..<length (chain_refs (w_bc w))]))"
  using assms(3)
proof (induction "length (chain_refs (w_bc w)) - k" arbitrary: k acc)
  case 0
  let ?n = "length (chain_refs (w_bc w))"
  have k: "k = ?n" using 0 by simp
  then have "k < 2 ^ LENGTH(32)" using assms(2) by simp
  then have "unat (of_nat k :: u32) = k" by (rule of_nat_inverse [OF refl])
  then have "\<not> (of_nat k :: u32) \<le> Chain_Height (w_bc w)" using k by (simp add: le_height_iff [OF assms(1)])
  then show ?case by (simp add: blocks_loop.simps k)
next
  case (Suc m)
  let ?n = "length (chain_refs (w_bc w))"
  have k: "k < ?n" using Suc.hyps(2) by simp
  then have "k < 2 ^ LENGTH(32)" using assms(2) by simp
  then have "unat (of_nat k :: u32) = k" by (rule of_nat_inverse [OF refl])
  then have "(of_nat k :: u32) \<le> Chain_Height (w_bc w)" using k by (simp add: le_height_iff [OF assms(1)])
  moreover have "of_nat k + 1 = (of_nat (Suc k) :: u32)" by simp
  moreover have "blocks_loop (w_bc w) (of_nat (Suc k)) (acc @ [nth_block (w_bc w) k]) =
      Some (Ok ((acc @ [nth_block (w_bc w) k]) @ map (nth_block (w_bc w)) [Suc k..<?n]))"
    by (rule Suc.hyps(1)) (use Suc.hyps(2) k in simp_all)
  moreover have "[k..<?n] = k # [Suc k..<?n]" using k by (rule upt_conv_Cons)
  ultimately show ?case
    by (subst blocks_loop.simps) (simp add: GetBlockAt_nth [OF assms(1) k assms(2)] add.commute)
qed

lemma blocks_from_result:
  assumes "chain_ok L w" "length (chain_refs (w_bc w)) < 2 ^ 32"
  shows "blocks_from (w_bc w) start = Ok (map (nth_block (w_bc w)) [unat start..<length (chain_refs (w_bc w))])"
proof (cases "unat start \<le> length (chain_refs (w_bc w))")
  case True
  from blocks_loop_result [OF assms True, of "[]"] show ?thesis by (simp add: blocks_from_def)
next
  case False
  then have "\<not> start \<le> Chain_Height (w_bc w)" by (simp add: le_height_iff [OF assms(1)])
  with False show ?thesis by (simp add: blocks_from_def blocks_loop.simps)
qed

text \<open>At the largest height the loop never ends.\<close>

lemma blocks_loop_never:
  assumes "chain_ok L w" "length (chain_refs (w_bc w)) = 2 ^ 32" "blocks_loop (w_bc w) i acc = Some r"
  shows False
proof -
  have bound: "unat j < length (chain_refs (w_bc w))" for j :: u32
    using unsigned_less [of j, where ?'a = nat] assms(2) by simp
  have "b = w_bc w \<longrightarrow> False" if "blocks_loop b i acc = Some r" for b i acc r
    using that
  proof (rule blocks_loop.raw_induct [where P = "\<lambda>b i acc r. b = w_bc w \<longrightarrow> False", rotated])
    fix f b i acc r
    assume IH: "\<And>b i acc r. f b i acc = Some r \<Longrightarrow> b = w_bc w \<longrightarrow> False"
      and eq: "(if i \<le> Chain_Height b then (case GetBlockAt b i of Ok br \<Rightarrow> f b (i + 1) (acc @ [br])
         | Err e \<Rightarrow> Some (Err e) | Panic p \<Rightarrow> Some (Panic p)) else Some (Ok acc)) = Some r"
    show "b = w_bc w \<longrightarrow> False"
    proof
      assume b: "b = w_bc w"
      obtain br where "GetBlockAt (w_bc w) i = Ok br" by (rule GetBlockAt_in [OF assms(1) bound])
      then have "f b (i + 1) (acc @ [br]) = Some r"
        using eq bound [of i] by (simp add: b le_height_iff [OF assms(1)])
      with IH b show False by blast
    qed
  qed
  with assms(3) show False by blast
qed

lemma chain_length_height:
  assumes "chain_ok L w"
  shows "length (chain_refs (w_bc w)) < 2 ^ 32 \<longleftrightarrow> Chain_Height (w_bc w) \<noteq> - 1"
proof -
  have u: "uint (Chain_Height (w_bc w)) = int (length (chain_refs (w_bc w))) - 1" by (rule Chain_Height_uint [OF assms])
  have l: "length (chain_refs (w_bc w)) \<le> 2 ^ 32" using assms by (simp add: chain_ok_def chain_pre_def)
  have m: "uint (- 1 :: u32) = 4294967295" by (simp add: unsigned_minus_1_eq_mask mask_eq_exp_minus_1)
  have e: "Chain_Height (w_bc w) = - 1 \<longleftrightarrow> uint (Chain_Height (w_bc w)) = uint (- 1 :: u32)" by (rule word_uint_eq_iff)
  have p: "(2 :: nat) ^ 32 = 4294967296" by simp
  show ?thesis unfolding e u m p using l [unfolded p] by linarith
qed

text \<open>
  C31: the loop that collects the blocks for an answer returns exactly when the chain is not
  at the largest height, because its variable wraps around; then it has the blocks from the
  asked height to the last one, in order, and none for a height above.
\<close>

theorem blocks_loop_returns:
  assumes "chain_ok L w"
  shows "(if Chain_Height (w_bc w) = - 1 then blocks_loop (w_bc w) start [] = None
    else \<exists>brs. blocks_loop (w_bc w) start [] = Some (Ok brs) \<and>
      int (length brs) = max 0 (uint (Chain_Height (w_bc w)) + 1 - uint start) \<and>
      (\<forall>k < length brs. GetBlockAt (w_bc w) (start + of_nat k) = Ok (brs ! k)))"
proof (cases "Chain_Height (w_bc w) = - 1")
  case True
  with chain_length_height [OF assms] assms have "length (chain_refs (w_bc w)) = 2 ^ 32"
    by (simp add: chain_ok_def chain_pre_def)
  with blocks_loop_never [OF assms] True show ?thesis by (cases "blocks_loop (w_bc w) start []") auto
next
  case False
  let ?n = "length (chain_refs (w_bc w))" and ?brs = "map (nth_block (w_bc w)) [unat start..<length (chain_refs (w_bc w))]"
  have n: "?n < 2 ^ 32" using False chain_length_height [OF assms] by simp
  have "\<exists>r. blocks_loop (w_bc w) start [] = Some r"
  proof (cases "unat start \<le> ?n")
    case True
    from blocks_loop_result [OF assms n True, of "[]"] show ?thesis by simp
  next
    case False
    then have "\<not> start \<le> Chain_Height (w_bc w)" by (simp add: le_height_iff [OF assms])
    then show ?thesis by (simp add: blocks_loop.simps)
  qed
  with blocks_from_result [OF assms n, of start] have "blocks_loop (w_bc w) start [] = Some (Ok ?brs)"
    by (auto simp: blocks_from_def)
  moreover have "int (length ?brs) = max 0 (uint (Chain_Height (w_bc w)) + 1 - uint start)"
  proof -
    have "uint start = int (unat start)" by simp
    then show ?thesis unfolding Chain_Height_uint [OF assms] by (simp only: length_map length_upt)
  qed
  moreover have "GetBlockAt (w_bc w) (start + of_nat k) = Ok (?brs ! k)" if "k < length ?brs" for k
  proof -
    have k: "unat start + k < ?n" using that by simp
    have "start + of_nat k = of_nat (unat start + k)" by simp
    then show ?thesis using GetBlockAt_nth [OF assms k n] that by simp
  qed
  ultimately show ?thesis using False by auto
qed

theorem blocks_loop_returns_witness:
  "\<exists>w. NewBlockchain demo_lib 0 demo_heap = (Ok (), w) \<and> blocks_loop (w_bc w) 1 [] = Some (Ok [])"
proof -
  from demo_chain obtain w bh where w: "NewBlockchain demo_lib 0 demo_heap = (Ok (), w)" "chain_ok demo_lib w"
    "w_bc w = stored demo_lib demo_heap 0 0 bh empty_chain" by blast
  have "chain_refs (w_bc w) = [0]" unfolding w(3) by (simp add: stored_def empty_chain_def newheaderStore_def)
  with Chain_Height_uint [OF w(2)] chain_length_height [OF w(2)] have
    h: "uint (Chain_Height (w_bc w)) = 0" "Chain_Height (w_bc w) \<noteq> - 1" by simp_all
  from blocks_loop_returns [OF w(2), of 1] h(2) obtain brs where b: "blocks_loop (w_bc w) 1 [] = Some (Ok brs)"
    "int (length brs) = max 0 (uint (Chain_Height (w_bc w)) + 1 - uint (1 :: u32))" by auto
  have "brs = []" using b(2) unfolding h(1) by simp
  with w(1) b(1) show ?thesis by blast
qed

subsection \<open>Answering a request\<close>

text \<open>
  A request of a node that is no subscriber is refused; another one is answered with one
  message to that node, unless the connection is gone, and the error of that is dropped.
\<close>

lemma handleGetBlocksRequest_unknown:
  "nd_peers n (gq_RequestorID q) = None \<Longrightarrow>
   handleGetBlocksRequest G q n = (Err (UnknownRequestor (gq_RequestorID q)), n)"
  by (simp add: handleGetBlocksRequest_def Peers_get_def sbind_def sread_def)

lemma handleGetBlocksRequest_known:
  assumes "nd_peers n (gq_RequestorID q) = Some pipe" "blocks_from (nd_bc n) (gq_StartHeight q) = Ok brs"
    and "payload_Bytes G (PGetBlocksResponse (map (block_wire_of (nd_heap n)) brs)) = Ok data" "data \<noteq> []"
  shows "handleGetBlocksRequest G q n = (Ok (), if nd_conns n (p_remote pipe) = None then n
    else n\<lparr>nd_sent := nd_sent n @ [OutSend (p_remote pipe) data]\<rparr>)"
proof -
  from assms(3) obtain m where m: "NewMessageFromGetBlocksResponse G (nd_heap n) brs = Ok m" "Message_Bytes G m = Ok data"
    by (auto simp: payload_Bytes_def NewMessageFromGetBlocksResponse_def)
  show ?thesis
    by (simp add: handleGetBlocksRequest_def Peers_get_def sbind_def sread_def assms(1,2,4) m send_def Transport_Send_def)
qed

subsection \<open>Catching up\<close>

text \<open>The transactions of a block run whatever the contract state is.\<close>

definition wire_runs :: "block_wire \<Rightarrow> bool" where
  "wire_runs b \<longleftrightarrow> (\<forall>(d, f, s) \<in> set (bw_Transactions b). runs_always d)"

lemma wire_runs_txs:
  assumes "wire_runs (block_wire_of h br)" "r \<in> set (blk_Transactions (h_blocks h br))"
  shows "runs_always (tx_Data (h_txs h r))"
proof -
  have "tx_wire (h_txs h r) \<in> set (bw_Transactions (block_wire_of h br))"
    using assms(2) by (simp add: block_wire_of_def Let_def the_txs_def)
  with assms(1) show ?thesis by (auto simp: wire_runs_def tx_wire_def)
qed

lemma header_hash_position:
  assumes "chain_ok L w" "i < length (chain_refs (w_bc w))" "j < length (chain_refs (w_bc w))"
    and "header_hash L (chain_headers (w_heap w) (w_bc w) ! i) = header_hash L (chain_headers (w_heap w) (w_bc w) ! j)"
  shows "i = j"
proof -
  have ix: "index_ok L (chain_headers (w_heap w) (w_bc w)) (hs_idx (bc_headers (w_bc w)))"
    using assms(1) by (simp add: chain_ok_def chain_pre_def)
  have "i < length (chain_headers (w_heap w) (w_bc w))" "j < length (chain_headers (w_heap w) (w_bc w))"
    using assms(2,3) by simp_all
  with ix obtain a b where "header_hash L (chain_headers (w_heap w) (w_bc w) ! i) = Some a"
    "hs_idx (bc_headers (w_bc w)) a = Some (int i)" "header_hash L (chain_headers (w_heap w) (w_bc w) ! j) = Some b"
    "hs_idx (bc_headers (w_bc w)) b = Some (int j)" unfolding index_ok_def by blast
  with assms(4) show ?thesis by simp
qed

text \<open>The data of a block's transactions is in what goes out of it.\<close>

lemma txs_data_wire:
  "txs_data h (blk_Transactions (h_blocks h br)) = map fst (bw_Transactions (block_wire_of h br))"
  by (simp add: txs_data_def block_wire_of_def the_txs_def tx_wire_def Let_def)

text \<open>
  A node whose chain is a part of the chain of another one accepts the next block of that,
  and replays its data.
\<close>

lemma part_of_chain:
  assumes "chain_ok L w" "chain_headers (w_heap w) (w_bc w) = take j (chain_headers (w_heap wa) (w_bc wa))"
    and "j < length (chain_refs (w_bc wa))"
  shows "length (chain_refs (w_bc w)) = j" "0 < j"
    "k < j \<Longrightarrow> chain_headers (w_heap w) (w_bc w) ! k = chain_headers (w_heap wa) (w_bc wa) ! k"
proof -
  show l: "length (chain_refs (w_bc w)) = j" using arg_cong [OF assms(2), of length] assms(3) by simp
  show "0 < j" using assms(1) by (simp add: chain_ok_def flip: l)
  show "chain_headers (w_heap w) (w_bc w) ! k = chain_headers (w_heap wa) (w_bc wa) ! k" if "k < j"
    unfolding assms(2) using that by simp
qed

text \<open>The next block of the other chain meets the conditions of the validator.\<close>

lemma next_of_chain:
  assumes a: "world_ok L wa" and w: "world_ok L w"
    and pre: "chain_headers (w_heap w) (w_bc w) = take j (chain_headers (w_heap wa) (w_bc wa))"
    and j: "j < length (chain_refs (w_bc wa))"
    and wire: "block_wire_of (w_heap w) br = block_wire_of (w_heap wa) (nth_block (w_bc wa) j)"
  shows "next_block L w br (chain_headers (w_heap wa) (w_bc wa) ! j)"
proof -
  let ?xs = "chain_headers (w_heap wa) (w_bc wa)" and ?hr = "chain_refs (w_bc wa) ! j"
  let ?x = "?xs ! j"
  note oka = world_okD [OF a] and okw = world_okD [OF w]
  note b = nth_block_header [OF oka(1) j] and part = part_of_chain [OF okw(1) pre j]
  have header: "block_header (w_heap w) br = Ok ?x" using b(1) unfolding block_header_wire wire .
  have "uint (hd_Height ?x) = int (unat (hd_Height ?x))" by simp
  then have uint: "uint (hd_Height ?x) = uint (Chain_Height (w_bc w)) + 1"
    unfolding Chain_Height_uint [OF okw(1)] part(1) b(2) by simp
  have "tl (chain_refs (w_bc wa)) ! (j - 1) = ?hr" "j - 1 < length (tl (chain_refs (w_bc wa)))"
    using j part(2) by (simp_all add: nth_tl)
  then have "?hr \<in> set (tl (chain_refs (w_bc wa)))" by (metis nth_mem)
  then have verify: "Block_Verify L (w_heap w) br = Ok ()"
    using a b(3) Block_Verify_wire [OF wire, of L] by (simp add: world_ok_def blocks_verified_def)
  obtain tip where tip: "GetHeader (w_bc w) (Chain_Height (w_bc w)) = Ok tip" "tip = last (chain_refs (w_bc w))"
    by (rule tip_header [OF okw(1)])
  have ne: "chain_headers (w_heap w) (w_bc w) \<noteq> []" using part(1,2) by auto
  then have "h_headers (w_heap w) tip = last (chain_headers (w_heap w) (w_bc w))" by (simp add: tip(2) last_map)
  also have "\<dots> = chain_headers (w_heap w) (w_bc w) ! (j - 1)" unfolding last_conv_nth [OF ne] using part(1) by simp
  also have "\<dots> = ?xs ! (j - 1)" by (rule part(3)) (use part(2) in simp)
  finally have last: "h_headers (w_heap w) tip = ?xs ! (j - 1)" .
  have "linked L ?xs" using oka(1) by (simp add: chain_ok_def chain_pre_def)
  then have "header_hash L (?xs ! (j - 1)) = Some (hd_PreviousBlockHash ?x)"
    using j part(2) by (auto simp: linked_def dest: spec [of _ "j - 1"])
  with header uint verify tip(1) show ?thesis
    by (simp add: next_block_def last DefaultBlockHasher_header_hash)
qed

text \<open>And its hash is not known to the node, because no two headers of a chain have one hash.\<close>

lemma next_of_chain_fresh:
  assumes oka: "chain_ok L wa" and okw: "chain_ok L w"
    and pre: "chain_headers (w_heap w) (w_bc w) = take j (chain_headers (w_heap wa) (w_bc wa))"
    and j: "j < length (chain_refs (w_bc wa))"
  obtains bh where "header_hash L (chain_headers (w_heap wa) (w_bc wa) ! j) = Some bh"
    "hs_idx (bc_headers (w_bc w)) bh = None"
proof -
  note part = part_of_chain [OF okw pre j]
  have "index_ok L (chain_headers (w_heap wa) (w_bc wa)) (hs_idx (bc_headers (w_bc wa)))"
    using oka by (simp add: chain_ok_def chain_pre_def)
  then obtain bh where bh: "header_hash L (chain_headers (w_heap wa) (w_bc wa) ! j) = Some bh"
    using j unfolding index_ok_def by fastforce
  have "hs_idx (bc_headers (w_bc w)) bh = None"
  proof (rule ccontr)
    assume "hs_idx (bc_headers (w_bc w)) bh \<noteq> None"
    then obtain i where "hs_idx (bc_headers (w_bc w)) bh = Some i" by blast
    moreover have "index_ok L (chain_headers (w_heap w) (w_bc w)) (hs_idx (bc_headers (w_bc w)))"
      using okw by (simp add: chain_ok_def chain_pre_def)
    ultimately obtain k where k: "k < length (chain_headers (w_heap w) (w_bc w))"
      "header_hash L (chain_headers (w_heap w) (w_bc w) ! k) = Some bh" unfolding index_ok_def by blast
    then have kj: "k < j" using part(1) by simp
    have "k < length (chain_refs (w_bc wa))" using kj j by simp
    from header_hash_position [OF oka this j] k(2) part(3) [OF kj] bh j have "k = j" by simp
    with kj show False by simp
  qed
  with bh that show thesis by blast
qed

lemma AddBlock_next_of_chain:
  assumes a: "world_ok L wa" and w: "world_ok L w"
    and pre: "chain_headers (w_heap w) (w_bc w) = take j (chain_headers (w_heap wa) (w_bc wa))"
    and j: "j < length (chain_refs (w_bc wa))"
    and wire: "block_wire_of (w_heap w) br = block_wire_of (w_heap wa) (nth_block (w_bc wa) j)"
    and runs: "wire_runs (block_wire_of (w_heap wa) (nth_block (w_bc wa) j))"
  shows "\<exists>w'. AddBlock L br w = (Ok (), w') \<and>
    chain_headers (w_heap w') (w_bc w') = take (Suc j) (chain_headers (w_heap wa) (w_bc wa)) \<and>
    contract_replay (bc_cstate (w_bc w)) (blocks_data (w_heap wa) [nth_block (w_bc wa) j]) = Some (bc_cstate (w_bc w'))"
proof -
  let ?xs = "chain_headers (w_heap wa) (w_bc wa)"
  note oka = world_okD [OF a] and okw = world_okD [OF w]
  note next_b = next_of_chain [OF a w pre j wire]
  obtain cs where run: "sfor (blk_Transactions (h_blocks (w_heap w) br)) (run_tx L) w =
      (Ok (), w\<lparr>w_bc := (w_bc w)\<lparr>bc_cstate := cs\<rparr>\<rparr>)"
    using runs_always_txs [of "blk_Transactions (h_blocks (w_heap w) br)" w L]
      wire_runs_txs [of "w_heap w" br] runs wire by auto
  obtain bh where "header_hash L (?xs ! j) = Some bh" "hs_idx (bc_headers (w_bc w)) bh = None"
    by (rule next_of_chain_fresh [OF oka(1) okw(1) pre j])
  from AddBlock_stores [OF okw(4) next_b run this] obtain w' where add: "AddBlock L br w = (Ok (), w')" by blast
  have "chain_headers (w_heap w') (w_bc w') = chain_headers (w_heap w) (w_bc w) @ [?xs ! j]"
    by (rule AddBlock_headers [OF okw(1) add]) (use next_b in \<open>simp add: next_block_def\<close>)
  also have "\<dots> = take (Suc j) ?xs" unfolding pre using j by (simp add: take_Suc_conv_app_nth)
  moreover have "contract_replay (bc_cstate (w_bc w)) (blocks_data (w_heap wa) [nth_block (w_bc wa) j])
      = Some (bc_cstate (w_bc w'))"
    using AddBlock_replay(1) [OF okw(1) add] by (simp add: blocks_data_def txs_data_wire wire)
  ultimately show ?thesis using add by auto
qed

text \<open>So it ends with the chain of the other one.\<close>

lemma handleGetBlocksResponse_catches_up:
  assumes a: "world_ok L wa" and runs: "\<And>k. j0 \<le> k \<Longrightarrow> k < length (chain_refs (w_bc wa)) \<Longrightarrow>
      wire_runs (block_wire_of (w_heap wa) (nth_block (w_bc wa) k))"
    and "j0 \<le> j" "node_ok L m" "chain_headers (nd_heap m) (nd_bc m) = take j (chain_headers (w_heap wa) (w_bc wa))"
    and "j \<le> length (chain_refs (w_bc wa))"
    and "list_all2 (\<lambda>r k. r < h_next (nd_heap m) \<and>
      block_wire_of (nd_heap m) r = block_wire_of (w_heap wa) (nth_block (w_bc wa) k)) rs [j..<length (chain_refs (w_bc wa))]"
  shows "\<exists>w'. handleGetBlocksResponse L rs m = (Ok (), m\<lparr>nd_world := w'\<rparr>) \<and>
    chain_headers (w_heap w') (w_bc w') = chain_headers (w_heap wa) (w_bc wa) \<and>
    contract_replay (bc_cstate (nd_bc m)) (blocks_data (w_heap wa)
      (map (nth_block (w_bc wa)) [j..<length (chain_refs (w_bc wa))])) = Some (bc_cstate (w_bc w'))"
  using assms(3-)
proof (induction rs arbitrary: m j)
  case Nil
  then have "j = length (chain_refs (w_bc wa))" by auto
  with Nil.prems(3) show ?case
    by (auto simp: handleGetBlocksResponse_def sret_def blocks_data_def intro: exI [of _ "nd_world m"])
next
  case (Cons r rs)
  let ?n = "length (chain_refs (w_bc wa))" and ?xs = "chain_headers (w_heap wa) (w_bc wa)"
  let ?same = "\<lambda>h r k. r < h_next h \<and> block_wire_of h r = block_wire_of (w_heap wa) (nth_block (w_bc wa) k)"
  have j: "j < ?n" using Cons.prems(4,5) by (cases "j = ?n") auto
  then have "[j..<?n] = j # [Suc j..<?n]" by (rule upt_conv_Cons)
  then have r: "?same (nd_heap m) r j" and rs: "list_all2 (?same (nd_heap m)) rs [Suc j..<?n]"
    using Cons.prems(5) by auto
  have w: "world_ok L (nd_world m)" using Cons.prems(2) by (simp add: node_ok_def)
  note hd = nth_block_header [OF world_okD(1) [OF a] j]
  have x: "block_header (nd_heap m) r = Ok (?xs ! j)"
    using hd(1) r by (simp add: block_header_wire)
  have "length (chain_refs (nd_bc m)) = j" using arg_cong [OF Cons.prems(3), of length] j by simp
  then have new: "\<not> HasBlockAtHeight (nd_bc m) (hd_Height (?xs ! j))"
    unfolding HasBlockAtHeight_def le_height_iff [OF world_okD(1) [OF w]] hd(2) by simp
  have wire: "block_wire_of (w_heap (nd_world m)) r = block_wire_of (w_heap wa) (nth_block (w_bc wa) j)" using r by simp
  from AddBlock_next_of_chain [OF a w Cons.prems(3) j wire runs [OF Cons.prems(1) j]] obtain w1 where
    1: "AddBlock L r (nd_world m) = (Ok (), w1)" "chain_headers (w_heap w1) (w_bc w1) = take (Suc j) ?xs"
    "contract_replay (bc_cstate (nd_bc m)) (blocks_data (w_heap wa) [nth_block (w_bc wa) j]) = Some (bc_cstate (w_bc w1))"
    by blast
  let ?m = "m\<lparr>nd_world := w1\<rparr>"
  have add: "on_world (AddBlock L r) m = (Ok (), ?m)" by (simp add: szoom_def 1(1))
  have adv: "advances L m ?m" by (rule AddBlock_advances [OF Cons.prems(2) add])
  then have g: "grows L (nd_heap m) (nd_heap ?m)" by (simp add: advances_def)
  have "?same (nd_heap ?m) r k" if "?same (nd_heap m) r k" for r k
    using that grows_next [OF g] grows_wire [OF g node_okD(2) [OF Cons.prems(2)]] by simp
  with rs have "list_all2 (?same (nd_heap ?m)) rs [Suc j..<?n]" by (rule list_all2_mono) blast
  moreover have "node_ok L ?m" using adv by (simp add: advances_def)
  ultimately obtain w' where "handleGetBlocksResponse L rs ?m = (Ok (), ?m\<lparr>nd_world := w'\<rparr>)"
    "chain_headers (w_heap w') (w_bc w') = ?xs"
    "contract_replay (bc_cstate (w_bc w1)) (blocks_data (w_heap wa) (map (nth_block (w_bc wa)) [Suc j..<?n]))
       = Some (bc_cstate (w_bc w'))"
    using Cons.IH [of "Suc j" ?m] Cons.prems(1) 1(2) j by auto
  moreover have "handleGetBlocksResponse L (r # rs) m = handleGetBlocksResponse L rs ?m"
    using new add x by (simp add: handleGetBlocksResponse_def sbind_def sread_def)
  moreover have "blocks_data (w_heap wa) (map (nth_block (w_bc wa)) [j..<?n]) =
      blocks_data (w_heap wa) [nth_block (w_bc wa) j] @ blocks_data (w_heap wa) (map (nth_block (w_bc wa)) [Suc j..<?n])"
    using j by (simp add: upt_conv_Cons blocks_data_def)
  ultimately show ?case using 1(3) by (auto simp: contract_replay_append)
qed

text \<open>The blocks from a height on can be sent: they can be encoded, they run, and gob keeps them.\<close>

definition sendable :: "gob \<Rightarrow> node \<Rightarrow> u32 \<Rightarrow> bool" where
  "sendable G n start \<longleftrightarrow> (\<forall>brs. blocks_from (nd_bc n) start = Ok brs \<longrightarrow>
     (\<exists>data. payload_Bytes G (PGetBlocksResponse (map (block_wire_of (nd_heap n)) brs)) = Ok data) \<and>
     (\<forall>br \<in> set brs. plain_block (block_wire_of (nd_heap n) br) \<and> wire_runs (block_wire_of (nd_heap n) br)))"

text \<open>The blocks above the height of a node whose chain is a part of another chain.\<close>

lemma blocks_above:
  assumes "chain_ok L (nd_world a)" "chain_ok L (nd_world b)" "Chain_Height (nd_bc a) \<noteq> - 1"
    and "chain_headers (nd_heap b) (nd_bc b) = take k (chain_headers (nd_heap a) (nd_bc a))"
  shows "length (chain_refs (nd_bc b)) \<le> length (chain_refs (nd_bc a))"
    and "chain_headers (nd_heap b) (nd_bc b) = take (length (chain_refs (nd_bc b))) (chain_headers (nd_heap a) (nd_bc a))"
    and "blocks_from (nd_bc a) (Chain_Height (nd_bc b) + 1) =
      Ok (map (nth_block (nd_bc a)) [length (chain_refs (nd_bc b))..<length (chain_refs (nd_bc a))])"
proof -
  have n: "length (chain_refs (nd_bc a)) < 2 ^ 32" using chain_length_height [OF assms(1)] assms(3) by simp
  have len: "length (chain_refs (nd_bc b)) = min k (length (chain_refs (nd_bc a)))" using arg_cong [OF assms(4), of length] by simp
  then show le: "length (chain_refs (nd_bc b)) \<le> length (chain_refs (nd_bc a))" by simp
  show "chain_headers (nd_heap b) (nd_bc b) = take (length (chain_refs (nd_bc b))) (chain_headers (nd_heap a) (nd_bc a))"
    using assms(4) len by (simp add: min_def)
  have "unat (Chain_Height (nd_bc b) + 1) = length (chain_refs (nd_bc b))"
    using Chain_Height_uint [OF assms(2)] le n by (simp add: unat_eq_nat_uint uint_word_ariths)
  then show "blocks_from (nd_bc a) (Chain_Height (nd_bc b) + 1) =
      Ok (map (nth_block (nd_bc a)) [length (chain_refs (nd_bc b))..<length (chain_refs (nd_bc a))])"
    using blocks_from_result [OF assms(1) n] by (simp only:)
qed



end
