(* ===== verification/Server_Run.thy ===== *)
theory Server_Run
  imports Server_Node_Handlers
begin

section \<open>The goroutines of a server\<close>

text \<open>
  Models \<^verbatim>\<open>Start\<close> and \<^verbatim>\<open>receive\<close> of \<^verbatim>\<open>server/server.go\<close> and the loops \<^verbatim>\<open>processChannels\<close> and
  \<^verbatim>\<open>runValidator\<close> of \<^verbatim>\<open>server/server_internal.go\<close>: the main goroutine that logs errors until the
  context is cancelled and then waits for the two loops, the goroutine that hands over the
  messages of the transport, the goroutines of broadcasts, and the channel of errors, which
  holds one error. A select takes any of the cases that are ready. Nothing sends to
  \<^verbatim>\<open>quitChan\<close>. The handlers of the loops are those of \<open>Server_Node\<close>; a panic ends the
  program, so only steps without one go on.
\<close>

subsection \<open>The handlers of the loops\<close>

definition handle_rpc :: "lib \<Rightarrow> gob \<Rightarrow> int \<Rightarrow> string \<Rightarrow> bytes \<Rightarrow> (node, unit) go" where
  "handle_rpc L G now sender content = (\<lambda>n. case decode_rpc G sender content n of
     (Err e, n') \<Rightarrow> (Err (DecodeRpc e), n')
   | (Panic p, n') \<Rightarrow> (Panic p, n')
   | (Ok d, n') \<Rightarrow> swrap HandleRpc (ProcessMessage L G now d) n')"

definition handle_api_tx :: "lib \<Rightarrow> gob \<Rightarrow> int \<Rightarrow> tx_wire \<Rightarrow> (node, unit) go" where
  "handle_api_tx L G now t =
     sbind (on_world (on_heap (receive_tx t))) (\<lambda>tr. swrap HandleApiTx (handleTransaction L G now tr))"

text \<open>With their errors reported they are the steps of a node.\<close>

lemma process_rpc_handle: "process_rpc L G now sender content = report (\<lambda>e. e) (handle_rpc L G now sender content)"
  by (rule ext) (simp add: process_rpc_def handle_rpc_def report_def swrap_def sfail_def split: prod.split result.split)

lemma process_api_tx_handle: "process_api_tx L G now t = report (\<lambda>e. e) (handle_api_tx L G now t)"
  by (rule ext) (simp add: process_api_tx_def handle_api_tx_def report_def swrap_def sbind_def szoom_def receive_tx_def alloc_tx_def Let_def split: prod.split result.split)

subsection \<open>The state\<close>

datatype main_loop = MErrors | MWait | MReturned

datatype rpc_loop = RSelect | RSend goerror | RLeft

text \<open>A turn of the validator adds a block and then clears the pool.\<close>

datatype validator_loop = VSelect | VClear | VSend goerror | VLeft

text \<open>
  \<open>nd_errs\<close> of the node has the errors of its broadcasts, whose goroutines wait to send them;
  \<open>sr_rpcChan\<close> is the message that \<^verbatim>\<open>receive\<close> wants to hand over.
\<close>

record server_run =
  sr_node :: node
  sr_errChan :: "goerror list"
  sr_logged :: "goerror list"
  sr_rpcChan :: "(string \<times> bytes) option"
  sr_main :: main_loop
  sr_rpcs :: rpc_loop
  sr_validator :: validator_loop
  sr_cancelled :: bool

definition Server_Start :: "node \<Rightarrow> server_run" where
  "Server_Start n = \<lparr>sr_node = n, sr_errChan = [], sr_logged = [], sr_rpcChan = None, sr_main = MErrors, sr_rpcs = RSelect,
     sr_validator = (if isValidator n then VSelect else VLeft), sr_cancelled = False\<rparr>"

text \<open>What a handler leaves its loop to do.\<close>

fun after_rpc :: "unit result \<Rightarrow> rpc_loop" where
  "after_rpc (Err e) = RSend e"
| "after_rpc r = RSelect"

fun after_announce :: "unit result \<Rightarrow> validator_loop" where
  "after_announce (Err e) = VSend e"
| "after_announce r = VClear"

abbreviation ends :: "'a result \<Rightarrow> bool" where
  "ends r \<equiv> (\<forall>p. r \<noteq> Panic p)"

text \<open>
  The loops: \<^verbatim>\<open>receive\<close>, \<^verbatim>\<open>processChannels\<close>, \<^verbatim>\<open>runValidator\<close>, and \<^verbatim>\<open>Start\<close> after it has started them.
\<close>

inductive receive :: "server_run \<Rightarrow> server_run \<Rightarrow> bool" where
  receive: "sr_rpcChan s = None \<Longrightarrow> receive s (s\<lparr>sr_rpcChan := Some rpc\<rparr>)"

inductive processChannels :: "lib \<Rightarrow> gob \<Rightarrow> server_run \<Rightarrow> server_run \<Rightarrow> bool" for L G where
  rpc: "sr_rpcs s = RSelect \<Longrightarrow> sr_rpcChan s = Some (sender, content) \<Longrightarrow>
    handle_rpc L G now sender content (sr_node s) = (r, n) \<Longrightarrow> ends r \<Longrightarrow>
    processChannels L G s (s\<lparr>sr_rpcChan := None, sr_node := n, sr_rpcs := after_rpc r\<rparr>)"
| api_tx: "sr_rpcs s = RSelect \<Longrightarrow> handle_api_tx L G now t (sr_node s) = (r, n) \<Longrightarrow> ends r \<Longrightarrow>
    processChannels L G s (s\<lparr>sr_node := n, sr_rpcs := after_rpc r\<rparr>)"
| rpc_error: "sr_rpcs s = RSend e \<Longrightarrow> sr_errChan s = [] \<Longrightarrow>
    processChannels L G s (s\<lparr>sr_errChan := [e], sr_rpcs := RSelect\<rparr>)"
| rpc_done: "sr_rpcs s = RSelect \<Longrightarrow> sr_cancelled s \<Longrightarrow> processChannels L G s (s\<lparr>sr_rpcs := RLeft\<rparr>)"

inductive runValidator :: "lib \<Rightarrow> gob \<Rightarrow> server_run \<Rightarrow> server_run \<Rightarrow> bool" for L G where
  tick: "sr_validator s = VSelect \<Longrightarrow> announceBlock L G now rnd (sr_node s) = (r, n) \<Longrightarrow> ends r \<Longrightarrow>
    runValidator L G s (s\<lparr>sr_node := n, sr_validator := after_announce r\<rparr>)"
| clear: "sr_validator s = VClear \<Longrightarrow> clearPending (sr_node s) = (r, n) \<Longrightarrow>
    runValidator L G s (s\<lparr>sr_node := n, sr_validator := VSelect\<rparr>)"
| tick_error: "sr_validator s = VSend e \<Longrightarrow> sr_errChan s = [] \<Longrightarrow>
    runValidator L G s (s\<lparr>sr_errChan := [e], sr_validator := VSelect\<rparr>)"
| tick_done: "sr_validator s = VSelect \<Longrightarrow> sr_cancelled s \<Longrightarrow> runValidator L G s (s\<lparr>sr_validator := VLeft\<rparr>)"

inductive errorLoop :: "server_run \<Rightarrow> server_run \<Rightarrow> bool" where
  log: "sr_main s = MErrors \<Longrightarrow> sr_errChan s = e # es \<Longrightarrow>
    errorLoop s (s\<lparr>sr_errChan := es, sr_logged := sr_logged s @ [e]\<rparr>)"
| main_done: "sr_main s = MErrors \<Longrightarrow> sr_cancelled s \<Longrightarrow> errorLoop s (s\<lparr>sr_main := MWait\<rparr>)"
| main_returns: "sr_main s = MWait \<Longrightarrow> sr_rpcs s = RLeft \<Longrightarrow> sr_validator s = VLeft \<Longrightarrow>
    errorLoop s (s\<lparr>sr_main := MReturned\<rparr>)"

text \<open>All of them together, with the goroutines of the broadcasts and the cancellation.\<close>

inductive server_step :: "lib \<Rightarrow> gob \<Rightarrow> server_run \<Rightarrow> server_run \<Rightarrow> bool" for L G where
  receives: "receive s s' \<Longrightarrow> server_step L G s s'"
| processes: "processChannels L G s s' \<Longrightarrow> server_step L G s s'"
| validates: "runValidator L G s s' \<Longrightarrow> server_step L G s s'"
| main: "errorLoop s s' \<Longrightarrow> server_step L G s s'"
| broadcast_error: "nd_errs (sr_node s) = before @ e # after \<Longrightarrow> sr_errChan s = [] \<Longrightarrow>
    server_step L G s (s\<lparr>sr_errChan := [e], sr_node := (sr_node s)\<lparr>nd_errs := before @ after\<rparr>\<rparr>)"
| cancel: "server_step L G s (s\<lparr>sr_cancelled := True\<rparr>)"

lemmas server_step_elims = server_step.cases receive.cases processChannels.cases runValidator.cases errorLoop.cases

abbreviation server_runs :: "lib \<Rightarrow> gob \<Rightarrow> server_run \<Rightarrow> server_run \<Rightarrow> bool" where
  "server_runs L G \<equiv> (server_step L G)\<^sup>*\<^sup>*"

subsection \<open>The node in a running server\<close>

text \<open>Every step does to the node what a step of \<open>Server_Node\<close> does, but for the errors.\<close>

lemma node_ok_errs [simp]: "node_ok L (n\<lparr>nd_errs := es\<rparr>) \<longleftrightarrow> node_ok L n"
  by (simp add: node_ok_def pool_view_def)

lemma reported_ok:
  assumes "\<And>a n2. report (\<lambda>e. e) m n = (a, n2) \<Longrightarrow> advances L n n2" "m n = (r, n')" "ends r"
  shows "node_ok L n'"
proof (cases r)
  case (Err e)
  with assms(2) have "report (\<lambda>e. e) m n = (Ok (), n'\<lparr>nd_errs := nd_errs n' @ [e]\<rparr>)" by (simp add: report_def)
  from assms(1) [OF this] show ?thesis by (simp add: advances_def)
next
  case (Ok u)
  with assms(2) have "report (\<lambda>e. e) m n = (Ok (), n')" by (simp add: report_def)
  from assms(1) [OF this] show ?thesis by (simp add: advances_def)
qed (use assms(3) in simp)

lemma processChannels_node:
  assumes "processChannels L G s s'" "node_ok L (sr_node s)"
  shows "node_ok L (sr_node s')"
  using assms(1)
proof cases
  case (rpc sender content now r n)
  from reported_ok [of "handle_rpc L G now sender content" "sr_node s", OF _ rpc(4,5)]
    process_rpc_advances [OF assms(2), unfolded process_rpc_handle] show ?thesis by (simp add: rpc(1))
next
  case (api_tx now t r n)
  from reported_ok [of "handle_api_tx L G now t" "sr_node s", OF _ api_tx(3,4)]
    process_api_tx_advances [OF assms(2), unfolded process_api_tx_handle] show ?thesis by (simp add: api_tx(1))
qed (use assms(2) in simp_all)

lemma runValidator_node:
  assumes "runValidator L G s s'" "node_ok L (sr_node s)"
  shows "node_ok L (sr_node s')"
  using assms(1)
proof cases
  case (tick now rnd r n)
  from keepsD [OF keeps_announceBlock advances_refl [OF assms(2)] tick(3)] show ?thesis by (simp add: tick(1) advances_def)
next
  case (clear r n)
  from keepsD [OF keeps_clearPending advances_refl [OF assms(2)] clear(3)] show ?thesis by (simp add: clear(1) advances_def)
qed (use assms(2) in simp_all)

lemma server_step_node: "server_step L G s s' \<Longrightarrow> node_ok L (sr_node s) \<Longrightarrow> node_ok L (sr_node s')"
  by (erule server_step.cases)
     (auto intro: processChannels_node runValidator_node elim!: receive.cases errorLoop.cases)

lemma server_step_end:
  "server_step L G s s' \<Longrightarrow> sr_main s = MReturned \<longrightarrow> sr_rpcs s = RLeft \<and> sr_validator s = VLeft \<Longrightarrow>
   sr_main s' = MReturned \<longrightarrow> sr_rpcs s' = RLeft \<and> sr_validator s' = VLeft"
  by (auto elim!: server_step_elims)

lemma server_runs_inv:
  assumes "server_runs L G (Server_Start n) s" "node_ok L n"
  shows "node_ok L (sr_node s) \<and> (sr_main s = MReturned \<longrightarrow> sr_rpcs s = RLeft \<and> sr_validator s = VLeft)"
  using assms(1)
proof (induction rule: rtranclp_induct)
  case base
  show ?case using assms(2) by (simp add: Server_Start_def)
next
  case (step s1 s2)
  then show ?case using server_step_node [OF step.hyps(2)] server_step_end [OF step.hyps(2)] by blast
qed

subsection \<open>Shutting down\<close>

text \<open>
  After the context is cancelled nobody takes errors any more: a loop that waits to send one
  while the channel is full, or both loops that wait, wait for ever.
\<close>

definition hung :: "server_run \<Rightarrow> bool" where
  "hung s \<longleftrightarrow> sr_main s = MWait \<and>
     (sr_errChan s \<noteq> [] \<and> ((\<exists>e. sr_rpcs s = RSend e) \<or> (\<exists>e. sr_validator s = VSend e)) \<or>
      (\<exists>e. sr_rpcs s = RSend e) \<and> (\<exists>e. sr_validator s = VSend e))"

lemma hung_step: "server_step L G s s' \<Longrightarrow> hung s \<Longrightarrow> hung s'"
  by (auto simp: hung_def elim!: server_step_elims)

lemma hung_for_ever: "server_runs L G s s' \<Longrightarrow> hung s \<Longrightarrow> sr_main s' \<noteq> MReturned"
proof -
  assume "server_runs L G s s'" "hung s"
  then have "hung s'" by (induction rule: rtranclp_induct) (auto intro: hung_step)
  then show ?thesis by (simp add: hung_def)
qed

definition can_return :: "lib \<Rightarrow> gob \<Rightarrow> server_run \<Rightarrow> bool" where
  "can_return L G s \<longleftrightarrow> (\<exists>s'. server_runs L G s s' \<and> sr_main s' = MReturned)"

lemma can_step: "server_step L G s s1 \<Longrightarrow> can_return L G s1 \<Longrightarrow> can_return L G s"
  unfolding can_return_def by (blast intro: converse_rtranclp_into_rtranclp)

lemma can_finish:
  assumes "sr_main s = MWait" "sr_cancelled s" "\<And>e. sr_rpcs s \<noteq> RSend e" "\<And>e. sr_validator s \<noteq> VSend e"
  shows "can_return L G s"
proof -
  have left: "can_return L G s" if "sr_main s = MWait" "sr_rpcs s = RLeft" "sr_validator s = VLeft" for s
    unfolding can_return_def by (rule exI, rule conjI, rule r_into_rtranclp, rule main [OF main_returns [OF that]]) simp
  have rpcs: "can_return L G s" if s: "sr_main s = MWait" "sr_cancelled s" "\<And>e. sr_rpcs s \<noteq> RSend e" "sr_validator s = VLeft" for s
  proof (cases "sr_rpcs s")
    case RSelect
    show ?thesis by (rule can_step [OF processes [OF rpc_done [OF RSelect s(2)]] left]) (use s in simp_all)
  qed (use s left in auto)
  have ticks: "can_return L G s" if s: "sr_main s = MWait" "sr_cancelled s" "\<And>e. sr_rpcs s \<noteq> RSend e" "sr_validator s = VSelect" for s
    by (rule can_step [OF validates [OF tick_done [OF s(4,2)]] rpcs]) (use s in simp_all)
  show ?thesis
  proof (cases "sr_validator s")
    case VSelect
    with assms show ?thesis by (intro ticks)
  next
    case VClear
    obtain r n where "clearPending (sr_node s) = (r, n)" by fastforce
    from can_step [OF validates [OF clear [OF VClear this]] ticks] assms show ?thesis by simp
  qed (use assms rpcs in auto)
qed

lemma can_return_waiting:
  assumes "sr_main s = MWait" "sr_cancelled s" "\<not> hung s"
  shows "can_return L G s"
proof -
  consider e where "sr_rpcs s = RSend e" | e where "sr_validator s = VSend e"
    | "\<forall>e. sr_rpcs s \<noteq> RSend e" "\<forall>e. sr_validator s \<noteq> VSend e" by blast
  then show ?thesis
  proof cases
    case (1 e)
    with assms have "sr_errChan s = []" "\<And>e. sr_validator s \<noteq> VSend e" by (auto simp: hung_def)
    from can_step [OF processes [OF rpc_error [OF 1 this(1)]] can_finish] this(2) assms(1,2) show ?thesis by simp
  next
    case (2 e)
    with assms have "sr_errChan s = []" "\<And>e. sr_rpcs s \<noteq> RSend e" by (auto simp: hung_def)
    from can_step [OF validates [OF tick_error [OF 2 this(1)]] can_finish] this(2) assms(1,2) show ?thesis by simp
  qed (use assms can_finish in auto)
qed

text \<open>Before the main goroutine stops logging there is always a way.\<close>

lemma can_return_logging:
  assumes "sr_main s = MErrors" "sr_cancelled s"
  shows "can_return L G s"
proof -
  have stop: "can_return L G s" if s: "sr_main s = MErrors" "sr_cancelled s" "sr_errChan s = []" "\<And>e. sr_rpcs s \<noteq> RSend e" for s
    by (rule can_step [OF main [OF main_done [OF s(1,2)]] can_return_waiting]) (use s in \<open>auto simp: hung_def\<close>)
  have empty: "can_return L G s" if s: "sr_main s = MErrors" "sr_cancelled s" "sr_errChan s = []" for s
  proof (cases "sr_rpcs s")
    case (RSend e)
    let ?s = "s\<lparr>sr_errChan := [e], sr_rpcs := RSelect\<rparr>"
    have "server_step L G ?s (?s\<lparr>sr_errChan := [], sr_logged := sr_logged ?s @ [e]\<rparr>)" by (rule main, rule log) (use s in simp_all)
    from can_step [OF this stop] s have "can_return L G ?s" by simp
    then show ?thesis by (rule can_step [OF processes [OF rpc_error [OF RSend s(3)]]])
  qed (use s stop in auto)
  show ?thesis using assms
  proof (induction "sr_errChan s" arbitrary: s)
    case Nil
    then show ?case by (intro empty) simp_all
  next
    case (Cons e es)
    from Cons.hyps(2) have "sr_errChan s = e # es" by simp
    from can_step [OF main [OF log [OF Cons.prems(1) this]] Cons.hyps(1)] Cons.prems show ?case by simp
  qed
qed



end
