(* ===== verification/Network_Local.thy ===== *)
theory Network_Local
  imports Server_Node
begin

section \<open>The local transport\<close>

text \<open>
  Models \<^verbatim>\<open>network/local_transport.go\<close> and the pipes of \<^verbatim>\<open>network/transport.go\<close>: transports
  that hold references to each other and put messages into each other's channel. The
  transports are objects, named by numbers; an operation of one changes the others. An
  operation is one step; the locks are in a section of their own.
\<close>

subsection \<open>State\<close>

text \<open>A network address is a \<^verbatim>\<open>LocalAddr\<close> or of another type; both can be printed.\<close>

datatype net_addr = LocalAddr string | OtherAddr string

primrec addr_String :: "net_addr \<Rightarrow> string" where
  "addr_String (LocalAddr s) = s"
| "addr_String (OtherAddr s) = s"

text \<open>The type assertion \<^verbatim>\<open>addr.(LocalAddr)\<close>.\<close>

primrec as_LocalAddr :: "net_addr \<Rightarrow> string result" where
  "as_LocalAddr (LocalAddr s) = Ok s"
| "as_LocalAddr (OtherAddr s) = Panic TypeAssertion"

record local_transport =
  lt_addr :: net_addr
  lt_peers :: "string \<rightharpoonup> nat"
  lt_recvCh :: "(string \<times> bytes) list"

type_synonym network = "nat \<Rightarrow> local_transport"

definition NewLocalTransport :: "net_addr \<Rightarrow> local_transport" where
  "NewLocalTransport addr = \<lparr>lt_addr = addr, lt_peers = Map.empty, lt_recvCh = []\<rparr>"

text \<open>The capacity of the channel.\<close>

definition recv_capacity :: nat where
  "recv_capacity = 1024"

subsection \<open>Operations\<close>

definition Local_Get :: "nat \<Rightarrow> string \<Rightarrow> network \<Rightarrow> pipe option" where
  "Local_Get i sid N = (case lt_peers (N i) sid of
     None \<Rightarrow> None
   | Some j \<Rightarrow> Some \<lparr>p_local = addr_String (lt_addr (N i)), p_remote = addr_String (lt_addr (N j))\<rparr>)"

definition Local_IsConnected :: "nat \<Rightarrow> net_addr \<Rightarrow> network \<Rightarrow> bool result" where
  "Local_IsConnected i addr N =
     bind_result (as_LocalAddr addr) (\<lambda>a. Ok (lt_peers (N i) a \<noteq> None))"

text \<open>
  Connecting writes the other transport into the own map and asks the other one to connect
  back, which asks again, until a transport is found connected.
\<close>

partial_function (option) Local_Connect :: "nat \<Rightarrow> nat \<Rightarrow> network \<Rightarrow> (unit result \<times> network) option" where
  "Local_Connect i j N =
     (case Local_IsConnected i (lt_addr (N j)) N of
        Panic p \<Rightarrow> Some (Panic p, N)
      | Err e \<Rightarrow> Some (Err e, N)
      | Ok connected \<Rightarrow>
          if connected then Some (Ok (), N)
          else Local_Connect j i
            (N(i := (N i)\<lparr>lt_peers := (lt_peers (N i))(addr_String (lt_addr (N j)) \<mapsto> j)\<rparr>)))"

text \<open>A send waits when the channel of the peer is full.\<close>

definition Local_Send :: "nat \<Rightarrow> net_addr \<Rightarrow> bytes \<Rightarrow> (network, unit) go" where
  "Local_Send i addr data = (\<lambda>N.
     case as_LocalAddr addr of
       Panic p \<Rightarrow> (Panic p, N)
     | Err e \<Rightarrow> (Err e, N)
     | Ok a \<Rightarrow> (case lt_peers (N i) a of
           None \<Rightarrow> (Err (UnknownPeer a), N)
         | Some j \<Rightarrow>
             if recv_capacity \<le> length (lt_recvCh (N j)) then (Panic Blocked, N)
             else (Ok (), N(j := (N j)\<lparr>lt_recvCh := lt_recvCh (N j) @ [(addr_String (lt_addr (N i)), data)]\<rparr>))))"

text \<open>
  The loop over the map of peers; \<open>keys\<close> is the order in which the iteration finds its
  keys. An error of a send is logged.
\<close>

primrec Local_Broadcast :: "nat \<Rightarrow> string list \<Rightarrow> bytes \<Rightarrow> (network, unit) go" where
  "Local_Broadcast i [] data = sret ()"
| "Local_Broadcast i (k # keys) data = (\<lambda>N.
     case lt_peers (N i) k of
       None \<Rightarrow> Local_Broadcast i keys data N
     | Some j \<Rightarrow> (case Local_Send i (lt_addr (N j)) data N of
           (Panic p, N') \<Rightarrow> (Panic p, N')
         | (_, N') \<Rightarrow> Local_Broadcast i keys data N'))"

text \<open>Receiving from the channel; without a message the receiver waits.\<close>

definition Local_Recv :: "nat \<Rightarrow> network \<Rightarrow> ((string \<times> bytes) \<times> network) option" where
  "Local_Recv i N = (case lt_recvCh (N i) of
     [] \<Rightarrow> None
   | m # ms \<Rightarrow> Some (m, N(i := (N i)\<lparr>lt_recvCh := ms\<rparr>)))"

subsection \<open>Connecting\<close>

text \<open>
  A well-formed network: transports have local addresses, different ones for different
  transports; a transport is in the map of another one under its address, and has that one
  in its own.
\<close>

definition network_ok :: "network \<Rightarrow> bool" where
  "network_ok N \<longleftrightarrow> (\<forall>i. \<exists>a. lt_addr (N i) = LocalAddr a) \<and> inj (\<lambda>i. lt_addr (N i)) \<and>
     (\<forall>i a j. lt_peers (N i) a = Some j \<longrightarrow>
        lt_addr (N j) = LocalAddr a \<and> lt_peers (N j) (addr_String (lt_addr (N i))) = Some i)"

abbreviation with_peer :: "nat \<Rightarrow> nat \<Rightarrow> network \<Rightarrow> network" where
  "with_peer i j N \<equiv> N(i := (N i)\<lparr>lt_peers := (lt_peers (N i))(addr_String (lt_addr (N j)) \<mapsto> j)\<rparr>)"

lemma IsConnected_local:
  "lt_addr (N j) = LocalAddr a \<Longrightarrow> Local_IsConnected i (lt_addr (N j)) N = Ok (lt_peers (N i) a \<noteq> None)"
  by (simp add: Local_IsConnected_def)

text \<open>Connecting always returns: the third call finds the first one's entry.\<close>

lemma Local_Connect_result:
  assumes "lt_addr (N i) = LocalAddr a" "lt_addr (N j) = LocalAddr b"
  shows "Local_Connect i j N = Some (Ok (),
    if lt_peers (N i) b \<noteq> None then N
    else if i = j \<or> lt_peers (N j) a \<noteq> None then with_peer i j N
    else with_peer j i (with_peer i j N))"
proof (cases "lt_peers (N i) b = None")
  case True
  have third: "Local_Connect i j (with_peer j i (with_peer i j N)) = Some (Ok (), with_peer j i (with_peer i j N))" if "i \<noteq> j"
    using assms that by (subst Local_Connect.simps) (simp add: Local_IsConnected_def)
  have second: "Local_Connect j i (with_peer i j N) = (if i = j \<or> lt_peers (N j) a \<noteq> None
      then Some (Ok (), with_peer i j N) else Local_Connect i j (with_peer j i (with_peer i j N)))"
    using assms by (subst Local_Connect.simps) (auto simp: Local_IsConnected_def)
  have "Local_Connect i j N = Local_Connect j i (with_peer i j N)"
    using assms True by (subst Local_Connect.simps) (simp add: Local_IsConnected_def)
  with second third True show ?thesis by auto
qed (use assms in \<open>subst Local_Connect.simps, simp add: Local_IsConnected_def\<close>)

lemma network_okD:
  assumes "network_ok N"
  shows "lt_addr (N i) = LocalAddr (addr_String (lt_addr (N i)))"
    and "addr_String (lt_addr (N i)) = addr_String (lt_addr (N j)) \<longleftrightarrow> i = j"
    and "lt_peers (N i) a = Some j \<Longrightarrow> a = addr_String (lt_addr (N j)) \<and> lt_peers (N j) (addr_String (lt_addr (N i))) = Some i"
proof -
  have local: "\<exists>a. lt_addr (N k) = LocalAddr a" for k using assms by (simp add: network_ok_def)
  then show own: "lt_addr (N i) = LocalAddr (addr_String (lt_addr (N i)))" for i by (metis addr_String.simps(1))
  show "addr_String (lt_addr (N i)) = addr_String (lt_addr (N j)) \<longleftrightarrow> i = j"
    using assms own [of i] own [of j] by (metis network_ok_def injD)
  show "a = addr_String (lt_addr (N j)) \<and> lt_peers (N j) (addr_String (lt_addr (N i))) = Some i" if "lt_peers (N i) a = Some j"
    using assms that by (simp add: network_ok_def)
qed

lemma with_peers_lookup: "lt_peers (with_peer j i (with_peer i j N) k) a = Some m \<longleftrightarrow>
    (if k = i \<and> a = addr_String (lt_addr (N j)) then m = j
     else if k = j \<and> a = addr_String (lt_addr (N i)) then m = i else lt_peers (N k) a = Some m)"
proof -
  have 1: "lt_peers (with_peer i j N k) = (if k = i then (lt_peers (N i))(addr_String (lt_addr (N j)) \<mapsto> j) else lt_peers (N k))" for k
    by simp
  have 2: "lt_peers (with_peer j i M k) = (if k = j then (lt_peers (M j))(addr_String (lt_addr (M i)) \<mapsto> i) else lt_peers (M k))" for k M
    by simp
  have 3: "lt_addr (with_peer i j N i) = lt_addr (N i)" by simp
  show ?thesis
    unfolding 2 1 3 by (cases "k = j"; cases "k = i"; cases "a = addr_String (lt_addr (N j))"; cases "a = addr_String (lt_addr (N i))") auto
qed

lemma with_peers_ok:
  assumes "network_ok N"
  shows "network_ok (with_peer j i (with_peer i j N))"
proof -
  note d = network_okD [OF assms]
  have addr: "lt_addr (with_peer j i (with_peer i j N) k) = lt_addr (N k)" for k by simp
  show ?thesis
    unfolding network_ok_def addr
  proof (intro conjI allI impI)
    show "\<exists>a. lt_addr (N k) = LocalAddr a" for k using d(1) by blast
    show "inj (\<lambda>i. lt_addr (N i))" using assms by (simp add: network_ok_def)
    fix k a m
    assume m: "lt_peers (with_peer j i (with_peer i j N) k) a = Some m"
    then have c: "k = i \<and> a = addr_String (lt_addr (N j)) \<and> m = j \<or> k = j \<and> a = addr_String (lt_addr (N i)) \<and> m = i \<or>
        lt_peers (N k) a = Some m" unfolding with_peers_lookup by (simp split: if_splits)
    then have "a = addr_String (lt_addr (N m))" using d(3) [of k a m] by blast
    then show "lt_addr (N m) = LocalAddr a" using d(1) [of m] by simp
    from c d(3) [of k a m] have "k = i \<and> m = j \<or> k = j \<and> m = i \<or>
        lt_peers (N m) (addr_String (lt_addr (N k))) = Some k" by blast
    then show "lt_peers (with_peer j i (with_peer i j N) m) (addr_String (lt_addr (N k))) = Some k"
      unfolding with_peers_lookup using d(2) [of k i] d(2) [of k j] by auto
  qed
qed

text \<open>What the code leaves of a network after connecting two of its transports.\<close>

lemma Local_Connect_ok:
  assumes "network_ok N"
  shows "Local_Connect i j N = Some (Ok (), if lt_peers (N i) (addr_String (lt_addr (N j))) \<noteq> None then N
    else with_peer j i (with_peer i j N))"
proof -
  note d = network_okD [OF assms]
  have "lt_peers (N j) (addr_String (lt_addr (N i))) = None" if "lt_peers (N i) (addr_String (lt_addr (N j))) = None"
  proof (rule ccontr)
    assume "lt_peers (N j) (addr_String (lt_addr (N i))) \<noteq> None"
    then obtain k where k: "lt_peers (N j) (addr_String (lt_addr (N i))) = Some k" by blast
    from d(3) [OF k] d(2) [of i k] that show False by auto
  qed
  then show ?thesis
    using Local_Connect_result [OF d(1) d(1), of i j] by (cases "i = j") auto
qed

text \<open>
  C32: connecting two local transports returns, and connects them both ways: each finds the
  other one under its address, as the remote end of a pipe that starts at itself. The
  network stays well formed, no other transport changes, no message is lost, and connecting
  again, from either side, does nothing.
\<close>

theorem local_connect_mutual:
  assumes "network_ok N"
  shows "\<exists>N'. Local_Connect i j N = Some (Ok (), N') \<and> network_ok N' \<and>
    Local_Get i (addr_String (lt_addr (N j))) N' =
      Some \<lparr>p_local = addr_String (lt_addr (N i)), p_remote = addr_String (lt_addr (N j))\<rparr> \<and>
    Local_Get j (addr_String (lt_addr (N i))) N' =
      Some \<lparr>p_local = addr_String (lt_addr (N j)), p_remote = addr_String (lt_addr (N i))\<rparr> \<and>
    (\<forall>k. lt_recvCh (N' k) = lt_recvCh (N k) \<and> lt_addr (N' k) = lt_addr (N k)) \<and>
    (\<forall>k. k \<noteq> i \<longrightarrow> k \<noteq> j \<longrightarrow> N' k = N k) \<and>
    Local_Connect i j N' = Some (Ok (), N') \<and> Local_Connect j i N' = Some (Ok (), N')"
proof -
  note d = network_okD [OF assms]
  let ?a = "\<lambda>k. addr_String (lt_addr (N k))"
  define N' where "N' = (if lt_peers (N i) (?a j) \<noteq> None then N else with_peer j i (with_peer i j N))"
  have ok: "network_ok N'" using assms with_peers_ok [OF assms] by (simp add: N'_def)
  have same: "lt_recvCh (N' k) = lt_recvCh (N k) \<and> lt_addr (N' k) = lt_addr (N k)" for k by (simp add: N'_def)
  have there: "lt_peers (N' i) (?a j) = Some j"
  proof (cases "lt_peers (N i) (?a j)")
    case (Some k)
    from d(3) [OF Some] d(2) [of j k] have "k = j" by simp
    with Some show ?thesis by (simp add: N'_def)
  qed (simp add: N'_def)
  then have here: "lt_peers (N' j) (?a i) = Some i" using conjunct2 [OF network_okD(3) [OF ok there]] same by simp
  have "Local_Connect i j N' = Some (Ok (), N')" "Local_Connect j i N' = Some (Ok (), N')"
    unfolding Local_Connect_ok [OF ok] using there here same by simp_all
  moreover have "Local_Connect i j N = Some (Ok (), N')" unfolding Local_Connect_ok [OF assms] N'_def by (rule refl)
  moreover have "N' k = N k" if "k \<noteq> i" "k \<noteq> j" for k using that by (simp add: N'_def)
  ultimately show ?thesis using ok same there here by (auto simp: Local_Get_def)
qed

text \<open>A network of transports that have just been made.\<close>

definition new_network :: network where
  "new_network = (\<lambda>i. NewLocalTransport (LocalAddr (replicate i CHR ''x'')))"

lemma new_network_ok: "network_ok new_network"
  by (auto simp: network_ok_def new_network_def NewLocalTransport_def inj_def)

theorem local_connect_mutual_witness:
  "\<exists>N'. Local_Connect 0 2 new_network = Some (Ok (), N') \<and>
     Local_Get 2 [] N' = Some \<lparr>p_local = ''xx'', p_remote = []\<rparr>"
proof -
  have a: "addr_String (lt_addr (new_network 0)) = []" "addr_String (lt_addr (new_network 2)) = ''xx''"
    by (simp_all add: new_network_def NewLocalTransport_def numeral_2_eq_2)
  from local_connect_mutual [OF new_network_ok, of 0 2] show ?thesis unfolding a by blast
qed

subsection \<open>Sending\<close>

text \<open>
  What a message that a server hands to its transport does to the network: it becomes the
  last one in the channel of the peer it is for, or of every peer, with the address of the
  sender.
\<close>

primrec receives :: "network \<Rightarrow> nat \<Rightarrow> outgoing \<Rightarrow> nat \<Rightarrow> (string \<times> bytes) list" where
  "receives N i (OutSend a data) k = (if lt_peers (N i) a = Some k then [(addr_String (lt_addr (N i)), data)] else [])"
| "receives N i (OutBroadcast data) k =
     (if k \<in> ran (lt_peers (N i)) then [(addr_String (lt_addr (N i)), data)] else [])"

definition arrived :: "nat \<Rightarrow> outgoing \<Rightarrow> network \<Rightarrow> network" where
  "arrived i out N = (\<lambda>k. (N k)\<lparr>lt_recvCh := lt_recvCh (N k) @ receives N i out k\<rparr>)"

definition has_room :: "network \<Rightarrow> nat \<Rightarrow> bool" where
  "has_room N k \<longleftrightarrow> length (lt_recvCh (N k)) < recv_capacity"

lemma Local_Send_arrives:
  assumes "lt_peers (N i) a = Some j" "has_room N j"
  shows "Local_Send i (LocalAddr a) data N = (Ok (), arrived i (OutSend a data) N)"
  using assms by (auto simp: Local_Send_def arrived_def has_room_def fun_eq_iff)

lemma Local_Broadcast_keys:
  assumes "network_ok N" "distinct keys" "\<And>k j. k \<in> set keys \<Longrightarrow> lt_peers (N i) k = Some j \<Longrightarrow> has_room N j"
  shows "Local_Broadcast i keys data N = (Ok (), \<lambda>j. (N j)\<lparr>lt_recvCh := lt_recvCh (N j) @
    (if \<exists>k \<in> set keys. lt_peers (N i) k = Some j then [(addr_String (lt_addr (N i)), data)] else [])\<rparr>)"
  using assms
proof (induction keys arbitrary: N)
  case (Cons k keys)
  let ?m = "(addr_String (lt_addr (N i)), data)"
  show ?case
  proof (cases "lt_peers (N i) k")
    case None
    have "Local_Broadcast i keys data N = (Ok (), \<lambda>j. (N j)\<lparr>lt_recvCh := lt_recvCh (N j) @
      (if \<exists>k \<in> set keys. lt_peers (N i) k = Some j then [?m] else [])\<rparr>)"
      by (rule Cons.IH [OF Cons.prems(1)]) (use Cons.prems(2,3) in auto)
    with None show ?thesis by simp
  next
    case (Some j)
    note d = network_okD [OF Cons.prems(1)]
    have k: "k = addr_String (lt_addr (N j))" using d(3) [OF Some] by blast
    have addr: "lt_addr (N j) = LocalAddr k" unfolding k by (rule d(1))
    let ?N = "N(j := (N j)\<lparr>lt_recvCh := lt_recvCh (N j) @ [?m]\<rparr>)"
    have "has_room N j" by (rule Cons.prems(3) [OF _ Some]) simp
    then have send: "Local_Send i (lt_addr (N j)) data N = (Ok (), ?N)"
      using Some by (simp add: Local_Send_def has_room_def addr)
    have same: "lt_addr (?N m) = lt_addr (N m)" "lt_peers (?N m) = lt_peers (N m)" for m by simp_all
    have ok: "network_ok ?N" using Cons.prems(1) unfolding network_ok_def same .
    have other: "j' \<noteq> j" if "k' \<in> set keys" "lt_peers (N i) k' = Some j'" for k' j'
      using d(3) [OF that(2)] that(1) k Cons.prems(2) by auto
    have "Local_Broadcast i (k # keys) data N = Local_Broadcast i keys data ?N" using Some send by simp
    also have "\<dots> = (Ok (), \<lambda>m. (?N m)\<lparr>lt_recvCh := lt_recvCh (?N m) @
      (if \<exists>k \<in> set keys. lt_peers (?N i) k = Some m then [(addr_String (lt_addr (?N i)), data)] else [])\<rparr>)"
    proof (rule Cons.IH [OF ok])
      show "distinct keys" using Cons.prems(2) by simp
      show "has_room ?N j'" if "k' \<in> set keys" "lt_peers (?N i) k' = Some j'" for k' j'
      proof -
        have p: "lt_peers (N i) k' = Some j'" using that(2) unfolding same .
        have "has_room N j'" by (rule Cons.prems(3) [OF _ p]) (use that(1) in simp)
        with other [OF that(1) p] show ?thesis by (simp add: has_room_def)
      qed
    qed
    also have "(\<lambda>m. (?N m)\<lparr>lt_recvCh := lt_recvCh (?N m) @
        (if \<exists>k \<in> set keys. lt_peers (?N i) k = Some m then [(addr_String (lt_addr (?N i)), data)] else [])\<rparr>) =
      (\<lambda>m. (N m)\<lparr>lt_recvCh := lt_recvCh (N m) @
        (if \<exists>k' \<in> set (k # keys). lt_peers (N i) k' = Some m then [?m] else [])\<rparr>)"
      unfolding same using other Some by (auto simp: fun_eq_iff)
    finally show ?thesis .
  qed
qed (simp add: sret_def)

lemma Local_Broadcast_arrives:
  assumes "network_ok N" "distinct keys" "set keys = dom (lt_peers (N i))" "\<And>k. k \<in> ran (lt_peers (N i)) \<Longrightarrow> has_room N k"
  shows "Local_Broadcast i keys data N = (Ok (), arrived i (OutBroadcast data) N)"
proof -
  have "has_room N j" if "lt_peers (N i) k = Some j" for k j using assms(4) that by (blast intro: ranI)
  moreover have "(\<exists>k \<in> set keys. lt_peers (N i) k = Some j) \<longleftrightarrow> j \<in> ran (lt_peers (N i))" for j
    unfolding assms(3) by (auto simp: ran_def dom_def)
  ultimately show ?thesis
    using Local_Broadcast_keys [OF assms(1,2), of i data] by (simp add: arrived_def)
qed

text \<open>
  C21: the local transport does what the server relies on. For a node whose connections are
  those of its local transport, and with room in the channels of the peers, sending and
  broadcasting have the outcome of the interface, and what the interface records as sent is
  what arrives: one message at the addressed peer, or one at each peer in whatever order
  the map is walked, and nothing anywhere else.
\<close>

theorem local_transport_refines_interface:
  assumes "network_ok N" and "nd_conns n = (\<lambda>a. Local_Get i a N)"
    and "distinct keys" and "set keys = dom (lt_peers (N i))"
    and "\<forall>k \<in> ran (lt_peers (N i)). has_room N k"
  shows "(case Transport_Send a data n of
      (r, n') \<Rightarrow> \<exists>outs. nd_sent n' = nd_sent n @ outs \<and>
        Local_Send i (LocalAddr a) data N = (r, fold (arrived i) outs N)) \<and>
    (case Transport_Broadcast data n of
      (r, n') \<Rightarrow> \<exists>outs. nd_sent n' = nd_sent n @ outs \<and>
        Local_Broadcast i keys data N = (r, fold (arrived i) outs N))"
proof
  show "case Transport_Send a data n of (r, n') \<Rightarrow> \<exists>outs. nd_sent n' = nd_sent n @ outs \<and>
      Local_Send i (LocalAddr a) data N = (r, fold (arrived i) outs N)"
  proof (cases "lt_peers (N i) a")
    case None
    then show ?thesis
      by (auto simp: Transport_Send_def assms(2) Local_Get_def Local_Send_def intro!: exI [of _ "[]"])
  next
    case (Some j)
    then have "has_room N j" using assms(5) by (blast intro: ranI)
    from Local_Send_arrives [OF Some this] Some show ?thesis
      by (auto simp: Transport_Send_def assms(2) Local_Get_def intro!: exI [of _ "[OutSend a data]"])
  qed
  have "Local_Broadcast i keys data N = (Ok (), fold (arrived i) [OutBroadcast data] N)"
    using Local_Broadcast_arrives [OF assms(1,3,4)] assms(5) by simp
  then show "case Transport_Broadcast data n of (r, n') \<Rightarrow> \<exists>outs. nd_sent n' = nd_sent n @ outs \<and>
      Local_Broadcast i keys data N = (r, fold (arrived i) outs N)"
    by (auto simp: Transport_Broadcast_def smodify_def intro!: exI [of _ "[OutBroadcast data]"])
qed

theorem local_transport_refines_interface_witness:
  "\<exists>N n n' N'. Transport_Broadcast [1] n = (Ok (), n') \<and> nd_conns n = (\<lambda>a. Local_Get 0 a N) \<and>
     Local_Broadcast 0 [''xx''] [1] N = (Ok (), N') \<and> N' = fold (arrived 0) [OutBroadcast [1]] N \<and>
     lt_recvCh (N' 2) = [([], [1])]"
proof -
  define N where "N = with_peer 2 0 (with_peer 0 2 new_network)"
  define n where "n = \<lparr>nd_world = \<lparr>w_heap = demo_heap, w_bc = empty_chain\<rparr>, nd_pool = NewTxPool [], nd_ID = [],
    nd_key = \<lparr>pk_key = None\<rparr>, nd_addr = [], nd_conns = (\<lambda>a. Local_Get 0 a N), nd_sent = [],
    nd_peers = NewPeers, nd_errs = []\<rparr>"
  have ok: "network_ok N" unfolding N_def by (rule with_peers_ok [OF new_network_ok])
  have new: "lt_peers (new_network k) = Map.empty" "lt_recvCh (new_network k) = []" "lt_addr (new_network 2) = LocalAddr ''xx''"
    "lt_addr (new_network 0) = LocalAddr []" for k by (simp_all add: new_network_def NewLocalTransport_def numeral_2_eq_2)
  have peers: "lt_peers (N 0) = [''xx'' \<mapsto> 2]" "addr_String (lt_addr (N 0)) = []" by (simp_all add: N_def new)
  have conns: "nd_conns n = (\<lambda>a. Local_Get 0 a N)" "nd_sent n = []" by (simp_all add: n_def)
  have keys: "distinct [''xx'']" "set [''xx''] = dom (lt_peers (N 0))" unfolding peers by simp_all
  have empty: "lt_recvCh (N k) = []" for k by (simp add: N_def new)
  then have room: "\<forall>k \<in> ran (lt_peers (N 0)). has_room N k" by (simp add: has_room_def recv_capacity_def)
  obtain n' where n': "Transport_Broadcast [1] n = (Ok (), n')" "nd_sent n' = [OutBroadcast [1]]"
    by (simp add: Transport_Broadcast_def smodify_def conns(2))
  from conjunct2 [OF local_transport_refines_interface [OF ok conns(1) keys room, of "''xx''" "[1]"]]
  have b: "Local_Broadcast 0 [''xx''] [1] N = (Ok (), fold (arrived 0) [OutBroadcast [1]] N)"
    by (simp only: n'(1) prod.case) (use n'(2) conns(2) in auto)
  have "lt_recvCh (fold (arrived 0) [OutBroadcast [1]] N 2) = [([], [1])]"
    by (simp add: arrived_def empty peers)
  with b n'(1) conns(1) show ?thesis by blast
qed

subsection \<open>The transport as an interface\<close>

text \<open>
  What a client that connects two parties and exchanges messages relies on: connecting
  works both ways under the printed addresses, and a message to an address that is found
  arrives last at that party, while there is room, and changes nothing else.
\<close>

locale message_transport =
  fixes get :: "'n \<Rightarrow> string \<Rightarrow> 's \<Rightarrow> pipe option"
    and name_of :: "'n \<Rightarrow> 's \<Rightarrow> string"
    and connected :: "'n \<Rightarrow> 'n \<Rightarrow> 's \<Rightarrow> 's"
    and post :: "'n \<Rightarrow> string \<Rightarrow> bytes \<Rightarrow> ('s, unit) go"
    and inbox :: "'n \<Rightarrow> 's \<Rightarrow> (string \<times> bytes) list"
    and capacity :: nat
    and ok :: "'s \<Rightarrow> bool"
  assumes connected_ok: "ok s \<Longrightarrow> ok (connected i j s)"
    and connected_keeps: "ok s \<Longrightarrow> name_of k (connected i j s) = name_of k s \<and> inbox k (connected i j s) = inbox k s"
    and connected_get: "ok s \<Longrightarrow> get i (name_of j s) (connected i j s) \<noteq> None \<and> get j (name_of i s) (connected i j s) \<noteq> None"
    and post_arrives: "ok s \<Longrightarrow> get i (name_of j s) s \<noteq> None \<Longrightarrow> length (inbox j s) < capacity \<Longrightarrow>
      \<exists>s'. post i (name_of j s) d s = (Ok (), s') \<and> ok s' \<and> inbox j s' = inbox j s @ [(name_of i s, d)] \<and>
        (\<forall>k. k \<noteq> j \<longrightarrow> inbox k s' = inbox k s) \<and> (\<forall>k. name_of k s' = name_of k s) \<and> (\<forall>k a. get k a s' = get k a s)"
begin

text \<open>A message can be answered to the sender that comes with it.\<close>

lemma request_and_answer:
  assumes "ok s" "i \<noteq> j" "length (inbox i s) < capacity" "length (inbox j s) < capacity"
  shows "\<exists>s1 s2 sender. post i (name_of j s) d (connected i j s) = (Ok (), s1) \<and> last (inbox j s1) = (sender, d) \<and>
    post j sender e s1 = (Ok (), s2) \<and> last (inbox i s2) = (name_of j s, e)"
proof -
  let ?s = "connected i j s"
  note keeps = connected_keeps [OF assms(1), of _ i j]
  have "get i (name_of j ?s) ?s \<noteq> None" "length (inbox j ?s) < capacity"
    using connected_get [OF assms(1)] assms(4) by (simp_all add: keeps)
  from post_arrives [OF connected_ok [OF assms(1)] this, of d] obtain s1 where s1:
    "post i (name_of j s) d ?s = (Ok (), s1)" "ok s1" "inbox j s1 = inbox j s @ [(name_of i s, d)]"
    "inbox i s1 = inbox i s" "\<And>k. name_of k s1 = name_of k s" "\<And>k a. get k a s1 = get k a ?s"
    using assms(2) by (auto simp: keeps)
  have "get j (name_of i s1) s1 \<noteq> None" "length (inbox i s1) < capacity"
    using connected_get [OF assms(1)] assms(3) s1(4-6) by simp_all
  from post_arrives [OF s1(2) this, of e] obtain s2 where
    "post j (name_of i s) e s1 = (Ok (), s2)" "inbox i s2 = inbox i s @ [(name_of j s, e)]" using s1(4,5) by auto
  with s1(1,3) show ?thesis by (intro exI [of _ s1] exI [of _ s2] exI [of _ "name_of i s"]) simp
qed

end

definition Local_connected :: "nat \<Rightarrow> nat \<Rightarrow> network \<Rightarrow> network" where
  "Local_connected i j N = (case Local_Connect i j N of Some (_, N') \<Rightarrow> N' | None \<Rightarrow> N)"

lemma Local_connected_ok:
  assumes "network_ok N"
  shows "network_ok (Local_connected i j N) \<and> lt_addr (Local_connected i j N k) = lt_addr (N k) \<and>
    lt_recvCh (Local_connected i j N k) = lt_recvCh (N k) \<and>
    Local_Get i (addr_String (lt_addr (N j))) (Local_connected i j N) \<noteq> None \<and>
    Local_Get j (addr_String (lt_addr (N i))) (Local_connected i j N) \<noteq> None"
proof -
  note d = network_okD [OF assms]
  have c: "Local_connected i j N = (if lt_peers (N i) (addr_String (lt_addr (N j))) \<noteq> None then N
      else with_peer j i (with_peer i j N))" by (simp add: Local_connected_def Local_Connect_ok [OF assms])
  have "lt_peers (N j) (addr_String (lt_addr (N i))) \<noteq> None" if "lt_peers (N i) (addr_String (lt_addr (N j))) = Some m" for m
    using d(3) [OF that] d(2) [of j m] by auto
  then show ?thesis
    unfolding c using assms with_peers_ok [OF assms] by (auto simp: Local_Get_def)
qed

interpretation local: message_transport Local_Get "\<lambda>i N. addr_String (lt_addr (N i))" Local_connected
  "\<lambda>i a. Local_Send i (LocalAddr a)" "\<lambda>i N. lt_recvCh (N i)" recv_capacity network_ok
proof unfold_locales
  fix N i j d
  assume N: "network_ok N" and g: "Local_Get i (addr_String (lt_addr (N j))) N \<noteq> None"
    and room: "length (lt_recvCh (N j)) < recv_capacity"
  let ?a = "addr_String (lt_addr (N j))"
  from g obtain m where m: "lt_peers (N i) ?a = Some m" by (auto simp: Local_Get_def split: option.splits)
  then have j: "lt_peers (N i) ?a = Some j" using network_okD(3) [OF N m] network_okD(2) [OF N, of j m] by simp
  let ?N = "arrived i (OutSend ?a d) N"
  have same: "lt_addr (?N k) = lt_addr (N k)" "lt_peers (?N k) = lt_peers (N k)" for k by (simp_all add: arrived_def)
  have get: "Local_Get k a ?N = Local_Get k a N" for k a by (simp only: Local_Get_def same)
  have "network_ok ?N" using N unfolding network_ok_def same .
  moreover have "Local_Send i (LocalAddr ?a) d N = (Ok (), ?N)"
    by (rule Local_Send_arrives [of N i ?a j d, OF j]) (use room in \<open>simp add: has_room_def\<close>)
  ultimately show "\<exists>N'. Local_Send i (LocalAddr ?a) d N = (Ok (), N') \<and> network_ok N' \<and>
      lt_recvCh (N' j) = lt_recvCh (N j) @ [(addr_String (lt_addr (N i)), d)] \<and>
      (\<forall>k. k \<noteq> j \<longrightarrow> lt_recvCh (N' k) = lt_recvCh (N k)) \<and>
      (\<forall>k. addr_String (lt_addr (N' k)) = addr_String (lt_addr (N k))) \<and> (\<forall>k a. Local_Get k a N' = Local_Get k a N)"
    using j by (intro exI [of _ ?N]) (simp add: same get, simp add: arrived_def)
qed (use Local_connected_ok in \<open>simp_all\<close>)

lemma local_request_and_answer:
  assumes "network_ok N" "i \<noteq> j" "has_room N i" "has_room N j"
  shows "\<exists>N1 N2 sender. Local_Send i (lt_addr (N j)) d (Local_connected i j N) = (Ok (), N1) \<and>
    last (lt_recvCh (N1 j)) = (sender, d) \<and> Local_Send j (LocalAddr sender) e N1 = (Ok (), N2) \<and>
    last (lt_recvCh (N2 i)) = (addr_String (lt_addr (N j)), e)"
  using local.request_and_answer [OF assms(1,2), of d e] assms(3,4) network_okD(1) [OF assms(1), of j]
  by (simp add: has_room_def)

end
