(* ===== verification/Network_Locks.thy ===== *)
theory Network_Locks
  imports Prelude
begin

section \<open>The locks of the local transport\<close>

text \<open>
  Models the read-write lock of a \<^verbatim>\<open>LocalTransport\<close> while one goroutine runs
  \<^verbatim>\<open>Broadcast\<close> and another one runs \<^verbatim>\<open>Connect\<close>: \<^verbatim>\<open>Broadcast\<close> holds the lock for
  reading while it calls \<^verbatim>\<open>Send\<close>, which takes it for reading again, and \<^verbatim>\<open>Connect\<close> takes it
  for reading (in \<^verbatim>\<open>IsConnected\<close>) and then for writing. As in \<^verbatim>\<open>sync.RWMutex\<close>, a writer that
  waits keeps new readers out, and gets the lock when the readers have left.
\<close>

record rwmutex =
  rw_readers :: nat
  rw_pending :: bool
  rw_writing :: bool

definition RLock :: "rwmutex \<Rightarrow> rwmutex option" where
  "RLock l = (if rw_pending l then None else Some (l\<lparr>rw_readers := rw_readers l + 1\<rparr>))"

definition RUnlock :: "rwmutex \<Rightarrow> rwmutex" where
  "RUnlock l = l\<lparr>rw_readers := rw_readers l - 1\<rparr>"

text \<open>\<^verbatim>\<open>Lock\<close> announces the writer and then waits for the readers.\<close>

definition Lock_announce :: "rwmutex \<Rightarrow> rwmutex option" where
  "Lock_announce l = (if rw_pending l then None else Some (l\<lparr>rw_pending := True\<rparr>))"

definition Lock_acquire :: "rwmutex \<Rightarrow> rwmutex option" where
  "Lock_acquire l = (if rw_readers l = 0 then Some (l\<lparr>rw_writing := True\<rparr>) else None)"

definition Unlock :: "rwmutex \<Rightarrow> rwmutex" where
  "Unlock l = l\<lparr>rw_pending := False, rw_writing := False\<rparr>"

text \<open>Where the two goroutines are; a broadcast counts the peers it still has to send to.\<close>

datatype broadcaster = BStart | BLoop nat | BSend nat | BDone

datatype connector = CStart | CIsConnected | CChecked | CWaiting | CWriting | CDone

record goroutines =
  g_lock :: rwmutex
  g_broadcast :: broadcaster
  g_connect :: connector

inductive lock_step :: "nat \<Rightarrow> goroutines \<Rightarrow> goroutines \<Rightarrow> bool" for n where
  broadcast_lock: "g_broadcast s = BStart \<Longrightarrow> RLock (g_lock s) = Some l \<Longrightarrow>
    lock_step n s (s\<lparr>g_lock := l, g_broadcast := BLoop n\<rparr>)"
| send_lock: "g_broadcast s = BLoop (Suc k) \<Longrightarrow> RLock (g_lock s) = Some l \<Longrightarrow>
    lock_step n s (s\<lparr>g_lock := l, g_broadcast := BSend k\<rparr>)"
| send_unlock: "g_broadcast s = BSend k \<Longrightarrow>
    lock_step n s (s\<lparr>g_lock := RUnlock (g_lock s), g_broadcast := BLoop k\<rparr>)"
| broadcast_unlock: "g_broadcast s = BLoop 0 \<Longrightarrow>
    lock_step n s (s\<lparr>g_lock := RUnlock (g_lock s), g_broadcast := BDone\<rparr>)"
| connect_rlock: "g_connect s = CStart \<Longrightarrow> RLock (g_lock s) = Some l \<Longrightarrow>
    lock_step n s (s\<lparr>g_lock := l, g_connect := CIsConnected\<rparr>)"
| connect_runlock: "g_connect s = CIsConnected \<Longrightarrow>
    lock_step n s (s\<lparr>g_lock := RUnlock (g_lock s), g_connect := CChecked\<rparr>)"
| connect_announce: "g_connect s = CChecked \<Longrightarrow> Lock_announce (g_lock s) = Some l \<Longrightarrow>
    lock_step n s (s\<lparr>g_lock := l, g_connect := CWaiting\<rparr>)"
| connect_acquire: "g_connect s = CWaiting \<Longrightarrow> Lock_acquire (g_lock s) = Some l \<Longrightarrow>
    lock_step n s (s\<lparr>g_lock := l, g_connect := CWriting\<rparr>)"
| connect_unlock: "g_connect s = CWriting \<Longrightarrow>
    lock_step n s (s\<lparr>g_lock := Unlock (g_lock s), g_connect := CDone\<rparr>)"

definition goroutines_start :: goroutines where
  "goroutines_start = \<lparr>g_lock = \<lparr>rw_readers = 0, rw_pending = False, rw_writing = False\<rparr>,
     g_broadcast = BStart, g_connect = CStart\<rparr>"

abbreviation reachable :: "nat \<Rightarrow> goroutines \<Rightarrow> bool" where
  "reachable n \<equiv> (lock_step n)\<^sup>*\<^sup>* goroutines_start"

subsection \<open>What holds of the lock\<close>

text \<open>The lock counts the goroutines that hold it.\<close>

primrec broadcast_holds :: "broadcaster \<Rightarrow> nat" where
  "broadcast_holds BStart = 0"
| "broadcast_holds (BLoop k) = 1"
| "broadcast_holds (BSend k) = 2"
| "broadcast_holds BDone = 0"

definition lock_inv :: "goroutines \<Rightarrow> bool" where
  "lock_inv s \<longleftrightarrow>
     rw_readers (g_lock s) = broadcast_holds (g_broadcast s) + (if g_connect s = CIsConnected then 1 else 0) \<and>
     (rw_pending (g_lock s) \<longleftrightarrow> g_connect s \<in> {CWaiting, CWriting}) \<and>
     (rw_writing (g_lock s) \<longleftrightarrow> g_connect s = CWriting) \<and>
     (rw_writing (g_lock s) \<longrightarrow> rw_readers (g_lock s) = 0)"

lemma lock_inv_step: "lock_step n s s' \<Longrightarrow> lock_inv s \<Longrightarrow> lock_inv s'"
  by (induction rule: lock_step.induct)
     (auto simp: lock_inv_def RLock_def RUnlock_def Lock_announce_def Lock_acquire_def Unlock_def split: if_splits)

lemma reachable_inv: "reachable n s \<Longrightarrow> lock_inv s"
proof (induction rule: rtranclp_induct)
  case base
  show ?case by (simp add: lock_inv_def goroutines_start_def)
qed (rule lock_inv_step)

definition deadlocked :: "goroutines \<Rightarrow> bool" where
  "deadlocked s \<longleftrightarrow> (\<exists>k. g_broadcast s = BLoop (Suc k)) \<and> g_connect s = CWaiting"

inductive_simps lock_step_simps: "lock_step n s s'"

lemma enabled:
  "(\<exists>l'. RLock l = Some l') \<longleftrightarrow> \<not> rw_pending l"
  "(\<exists>l'. Lock_announce l = Some l') \<longleftrightarrow> \<not> rw_pending l"
  "(\<exists>l'. Lock_acquire l = Some l') \<longleftrightarrow> rw_readers l = 0"
  by (simp_all add: RLock_def Lock_announce_def Lock_acquire_def)

lemma broadcaster_stuck:
  assumes "lock_inv s" "\<nexists>s'. lock_step n s s'"
  shows "g_broadcast s = BDone \<or> (rw_pending (g_lock s) \<and> (g_broadcast s = BStart \<or> (\<exists>k. g_broadcast s = BLoop (Suc k))))"
proof (cases "g_broadcast s")
  case BStart
  with assms(2) broadcast_lock [OF BStart] enabled(1) [of "g_lock s"] show ?thesis by blast
next
  case (BLoop k)
  show ?thesis
  proof (cases k)
    case 0
    with assms(2) broadcast_unlock [of s] BLoop show ?thesis by auto
  next
    case (Suc m)
    with BLoop have "g_broadcast s = BLoop (Suc m)" by simp
    with assms(2) send_lock [OF this] enabled(1) [of "g_lock s"] show ?thesis by blast
  qed
next
  case (BSend k)
  with assms(2) send_unlock [OF BSend] show ?thesis by auto
qed simp

lemma connector_stuck:
  assumes "lock_inv s" "\<nexists>s'. lock_step n s s'"
  shows "g_connect s = CDone \<or> (g_connect s = CWaiting \<and> broadcast_holds (g_broadcast s) \<noteq> 0)"
proof (cases "g_connect s")
  case CStart
  with assms(1) have "\<not> rw_pending (g_lock s)" by (simp add: lock_inv_def)
  with assms(2) connect_rlock [OF CStart] enabled(1) [of "g_lock s"] show ?thesis by blast
next
  case CIsConnected
  with assms(2) connect_runlock [OF CIsConnected] show ?thesis by auto
next
  case CChecked
  with assms(1) have "\<not> rw_pending (g_lock s)" by (simp add: lock_inv_def)
  with assms(2) connect_announce [OF CChecked] enabled(2) [of "g_lock s"] show ?thesis by blast
next
  case CWaiting
  with assms(1) have "rw_readers (g_lock s) = broadcast_holds (g_broadcast s)" by (simp add: lock_inv_def)
  with CWaiting assms(2) connect_acquire [OF CWaiting] enabled(3) [of "g_lock s"] show ?thesis by force
next
  case CWriting
  with assms(2) connect_unlock [OF CWriting] show ?thesis by auto
qed simp

lemma stuck_iff:
  assumes "lock_inv s"
  shows "(\<nexists>s'. lock_step n s s') \<longleftrightarrow> (g_broadcast s = BDone \<and> g_connect s = CDone) \<or> deadlocked s"
proof
  assume stuck: "\<nexists>s'. lock_step n s s'"
  from broadcaster_stuck [OF assms stuck] connector_stuck [OF assms stuck] assms
  show "(g_broadcast s = BDone \<and> g_connect s = CDone) \<or> deadlocked s"
    by (auto simp: deadlocked_def lock_inv_def)
next
  assume "(g_broadcast s = BDone \<and> g_connect s = CDone) \<or> deadlocked s"
  with assms show "\<nexists>s'. lock_step n s s'"
    by (auto simp: lock_step_simps deadlocked_def lock_inv_def RLock_def Lock_acquire_def)
qed

text \<open>The steps to a deadlock: the writer announces itself between two sends.\<close>

lemma deadlock_reachable:
  assumes "0 < n"
  shows "\<exists>s. reachable n s \<and> deadlocked s"
proof -
  let ?l = "\<lambda>r p. \<lparr>rw_readers = r, rw_pending = p, rw_writing = False\<rparr>"
  let ?g = "\<lambda>r p b c. \<lparr>g_lock = ?l r p, g_broadcast = b, g_connect = c\<rparr>"
  have "lock_step n (?g 0 False BStart CStart) (?g 0 False BStart CStart\<lparr>g_lock := ?l 1 False, g_connect := CIsConnected\<rparr>)"
    by (rule connect_rlock) (simp_all add: RLock_def)
  then have 1: "lock_step n (?g 0 False BStart CStart) (?g 1 False BStart CIsConnected)" by simp
  have "lock_step n (?g 1 False BStart CIsConnected)
      (?g 1 False BStart CIsConnected\<lparr>g_lock := RUnlock (?l 1 False), g_connect := CChecked\<rparr>)"
    using connect_runlock [of "?g 1 False BStart CIsConnected" n] by simp
  then have 2: "lock_step n (?g 1 False BStart CIsConnected) (?g 0 False BStart CChecked)" by (simp add: RUnlock_def)
  have "lock_step n (?g 0 False BStart CChecked) (?g 0 False BStart CChecked\<lparr>g_lock := ?l 1 False, g_broadcast := BLoop n\<rparr>)"
    by (rule broadcast_lock) (simp_all add: RLock_def)
  then have 3: "lock_step n (?g 0 False BStart CChecked) (?g 1 False (BLoop n) CChecked)" by simp
  have "lock_step n (?g 1 False (BLoop n) CChecked) (?g 1 False (BLoop n) CChecked\<lparr>g_lock := ?l 1 True, g_connect := CWaiting\<rparr>)"
    by (rule connect_announce) (simp_all add: Lock_announce_def)
  then have 4: "lock_step n (?g 1 False (BLoop n) CChecked) (?g 1 True (BLoop n) CWaiting)" by simp
  note 5 = r_into_rtranclp [where r = "lock_step n", OF 1]
  note 6 = rtranclp.rtrancl_into_rtrancl [OF rtranclp.rtrancl_into_rtrancl [OF rtranclp.rtrancl_into_rtrancl [OF 5 2] 3] 4]
  have "reachable n (?g 1 True (BLoop n) CWaiting)" unfolding goroutines_start_def by (rule 6)
  moreover have "deadlocked (?g 1 True (BLoop n) CWaiting)"
    using assms by (simp add: deadlocked_def) (metis Suc_pred)
  ultimately show ?thesis by blast
qed

text \<open>
  C33: what can happen when a connection is made while a broadcast runs. The lock is never
  held for writing and reading at once. The two finish, or they stop in one way: the
  broadcast holds the lock for reading and waits to take it again for the next peer, behind
  the connection, which waits for the broadcast. That happens whenever there is a peer to
  send to; without a peer it does not.
\<close>

theorem broadcast_and_connect_deadlock:
  "(\<forall>s. reachable n s \<longrightarrow> \<not> (rw_writing (g_lock s) \<and> 0 < rw_readers (g_lock s)) \<and>
      ((\<nexists>s'. lock_step n s s') \<longleftrightarrow> (g_broadcast s = BDone \<and> g_connect s = CDone) \<or> deadlocked s)) \<and>
   ((\<exists>s. reachable n s \<and> deadlocked s) \<longleftrightarrow> 0 < n)"
proof (intro conjI allI impI)
  fix s
  assume "reachable n s"
  then have inv: "lock_inv s" by (rule reachable_inv)
  then show "\<not> (rw_writing (g_lock s) \<and> 0 < rw_readers (g_lock s))" unfolding lock_inv_def by auto
  show "(\<nexists>s'. lock_step n s s') \<longleftrightarrow> (g_broadcast s = BDone \<and> g_connect s = CDone) \<or> deadlocked s"
    by (rule stuck_iff [OF inv])
next
  have "g_broadcast s \<in> {BStart, BLoop 0, BDone}" if "reachable 0 s" for s
    using that by (induction rule: rtranclp_induct) (auto simp: goroutines_start_def lock_step_simps)
  then have "\<not> deadlocked s" if "reachable 0 s" for s using that by (fastforce simp: deadlocked_def)
  then show "(\<exists>s. reachable n s \<and> deadlocked s) \<longleftrightarrow> 0 < n"
    using deadlock_reachable [of n] by (cases n) blast+
qed

theorem broadcast_and_connect_deadlock_witness:
  "reachable 1 goroutines_start \<and> (\<exists>s'. lock_step 1 goroutines_start s') \<and>
   (\<exists>s. reachable 1 s \<and> deadlocked s) \<and> \<not> (\<exists>s. reachable 0 s \<and> deadlocked s)"
proof -
  have r: "reachable 1 goroutines_start" by (rule rtranclp.rtrancl_refl)
  from conjunct2 [OF mp [OF spec [where x = goroutines_start, OF conjunct1 [OF broadcast_and_connect_deadlock [of 1]]] r]]
  have "\<exists>s'. lock_step 1 goroutines_start s'" by (simp add: goroutines_start_def deadlocked_def)
  moreover from conjunct2 [OF broadcast_and_connect_deadlock [of 1]] have "\<exists>s. reachable 1 s \<and> deadlocked s" by simp
  moreover from conjunct2 [OF broadcast_and_connect_deadlock [of 0]] have "\<not> (\<exists>s. reachable 0 s \<and> deadlocked s)" by simp
  ultimately show ?thesis using r by blast
qed

end
