(* ===== verification/Network_Tcp.thy ===== *)
theory Network_Tcp
  imports Network_Local Network_Envelope
begin

section \<open>The TCP transport\<close>

text \<open>
  Models \<^verbatim>\<open>network/tcp_transport.go\<close> over sockets: transports that listen, dial and accept,
  the map of connections, sending, and the read loops, which are those of
  \<open>Network_Envelope\<close>. A socket is one end of a connection; what is written at one end is
  appended to the bytes that wait at the other end. An operation of a transport is one step,
  and so is one turn of the loop that accepts and one of a loop that reads. The system
  chooses the address of the dialing end and how the waiting bytes are cut into reads.
\<close>

subsection \<open>Sockets\<close>

record endpoint =
  ep_local :: string
  ep_remote :: string
  ep_peer :: nat
  ep_open :: bool
  ep_in :: bytes

text \<open>
  A transport keeps its connections by address, a reader for each connection it reads, and
  the channel of messages; a message in the channel names the reader whose buffer has its
  payload.
\<close>

record tcp_transport =
  tt_addr :: string
  tt_connections :: "string \<rightharpoonup> nat"
  tt_readers :: "nat \<rightharpoonup> reader"
  tt_recv :: "(nat \<times> rpc) list"

record tcp =
  tc_eps :: "nat \<Rightarrow> endpoint"
  tc_next :: nat
  tc_accept :: "string \<rightharpoonup> nat list"
  tc_tr :: "nat \<Rightarrow> tcp_transport"

abbreviation on_tr :: "nat \<Rightarrow> (tcp_transport \<Rightarrow> tcp_transport) \<Rightarrow> (tcp, unit) go" where
  "on_tr i f \<equiv> smodify (\<lambda>T. T\<lparr>tc_tr := (tc_tr T)(i := f (tc_tr T i))\<rparr>)"

definition net_Listen :: "string \<Rightarrow> (tcp, unit) go" where
  "net_Listen a = (\<lambda>T. if tc_accept T a = None then (Ok (), T\<lparr>tc_accept := (tc_accept T)(a \<mapsto> [])\<rparr>)
     else (Err (ListenError a), T))"

text \<open>
  Dialing makes two ends: the dialing one gets the address \<open>eph\<close>, the other one waits to be
  accepted.
\<close>

definition net_Dial :: "string \<Rightarrow> string \<Rightarrow> (tcp, nat) go" where
  "net_Dial eph a = (\<lambda>T. case tc_accept T a of
       None \<Rightarrow> (Err (DialError a), T)
     | Some q \<Rightarrow> let e = tc_next T in (Ok e, T\<lparr>
         tc_eps := (tc_eps T)(e := \<lparr>ep_local = eph, ep_remote = a, ep_peer = e + 1, ep_open = True, ep_in = []\<rparr>,
           e + 1 := \<lparr>ep_local = a, ep_remote = eph, ep_peer = e, ep_open = True, ep_in = []\<rparr>),
         tc_next := e + 2, tc_accept := (tc_accept T)(a \<mapsto> q @ [e + 1])\<rparr>))"

text \<open>Accepting waits for a connection; it fails when nobody listens.\<close>

definition net_Accept :: "string \<Rightarrow> (tcp, nat) go" where
  "net_Accept a = (\<lambda>T. case tc_accept T a of
       None \<Rightarrow> (Err (ListenError a), T)
     | Some [] \<Rightarrow> (Panic Blocked, T)
     | Some (e # q) \<Rightarrow> (Ok e, T\<lparr>tc_accept := (tc_accept T)(a \<mapsto> q)\<rparr>))"

text \<open>A write takes all bytes or fails.\<close>

definition conn_Write :: "nat \<Rightarrow> bytes \<Rightarrow> (tcp, nat) go" where
  "conn_Write e buf = (\<lambda>T. if ep_open (tc_eps T e) then
       (let p = ep_peer (tc_eps T e)
        in (Ok (length buf), T\<lparr>tc_eps := (tc_eps T)(p := (tc_eps T p)\<lparr>ep_in := ep_in (tc_eps T p) @ buf\<rparr>)\<rparr>))
     else (Err WriteError, T))"

subsection \<open>Operations\<close>

text \<open>A Go string is a sequence of bytes.\<close>

definition string_bytes :: "string \<Rightarrow> bytes" where
  "string_bytes s = map (\<lambda>c. of_nat (of_char c)) s"

definition bytes_string :: "bytes \<Rightarrow> string" where
  "bytes_string bs = map (\<lambda>b. char_of (unat b)) bs"

text \<open>The goroutine that reads a connection starts with fresh buffers.\<close>

definition start_read :: "nat \<Rightarrow> nat \<Rightarrow> (tcp, unit) go" where
  "start_read i e = on_tr i (\<lambda>t. t\<lparr>tt_readers := (tt_readers t)(e \<mapsto> new_reader [])\<rparr>)"

definition NewTcpTransport :: "nat \<Rightarrow> string \<Rightarrow> (tcp, unit) go" where
  "NewTcpTransport i a = sbind (net_Listen a) (\<lambda>_. on_tr i (\<lambda>_.
     \<lparr>tt_addr = a, tt_connections = Map.empty, tt_readers = Map.empty, tt_recv = []\<rparr>))"

definition Tcp_Get :: "nat \<Rightarrow> string \<Rightarrow> tcp \<Rightarrow> pipe option" where
  "Tcp_Get i sid T = (case tt_connections (tc_tr T i) sid of
     None \<Rightarrow> None
   | Some e \<Rightarrow> Some \<lparr>p_local = ep_local (tc_eps T e), p_remote = ep_remote (tc_eps T e)\<rparr>)"

definition Tcp_IsConnected :: "nat \<Rightarrow> string \<Rightarrow> tcp \<Rightarrow> bool" where
  "Tcp_IsConnected i a T \<longleftrightarrow> tt_connections (tc_tr T i) a \<noteq> None"

definition Tcp_GetConn :: "nat \<Rightarrow> string \<Rightarrow> tcp \<Rightarrow> nat option" where
  "Tcp_GetConn i a T = tt_connections (tc_tr T i) a"

text \<open>The other transport of a \<^verbatim>\<open>Connect\<close>, which has to be a TCP transport as well.\<close>

datatype any_transport = TcpTransport nat | OtherTransport

primrec Tcp_Connect :: "string \<Rightarrow> nat \<Rightarrow> any_transport \<Rightarrow> (tcp, unit) go" where
  "Tcp_Connect eph i OtherTransport = spanic TypeAssertion"
| "Tcp_Connect eph i (TcpTransport j) =
     sbind (sget (\<lambda>T. tt_addr (tc_tr T j))) (\<lambda>a.
     sbind (sget (Tcp_IsConnected i a)) (\<lambda>connected.
       if connected then sret ()
       else sbind (net_Dial eph a) (\<lambda>conn.
         sbind (on_tr i (\<lambda>t. if tt_connections t a = None then t\<lparr>tt_connections := (tt_connections t)(a \<mapsto> conn)\<rparr> else t))
           (\<lambda>_. start_read i conn))))"

text \<open>
  One turn of \<^verbatim>\<open>listen\<close>. After an error of \<^verbatim>\<open>Accept\<close>, which is logged, the nil connection is
  used.
\<close>

definition listen_step :: "nat \<Rightarrow> (tcp, unit) go" where
  "listen_step i = sbind (sget (\<lambda>T. tt_addr (tc_tr T i))) (\<lambda>a T.
     case net_Accept a T of
       (Err e, T') \<Rightarrow> (Panic NilDereference, T')
     | (Panic p, T') \<Rightarrow> (Panic p, T')
     | (Ok conn, T') \<Rightarrow> sbind (on_tr i (\<lambda>t. t\<lparr>tt_connections :=
           (tt_connections t)(ep_remote (tc_eps T' conn) \<mapsto> conn)\<rparr>)) (\<lambda>_. start_read i conn) T')"

definition tcp_send :: "nat \<Rightarrow> nat \<Rightarrow> bytes \<Rightarrow> (tcp, unit) go" where
  "tcp_send i conn data =
     sbind (sget (\<lambda>T. encodeEnvelope (string_bytes (tt_addr (tc_tr T i))) data)) (\<lambda>buf.
     sbind (conn_Write conn buf) (\<lambda>n.
       if n \<noteq> length buf then sfail (CorruptWrite n (length data)) else sret ()))"

definition Tcp_Send :: "nat \<Rightarrow> string \<Rightarrow> bytes \<Rightarrow> (tcp, unit) go" where
  "Tcp_Send i a data = (\<lambda>T. case tt_connections (tc_tr T i) a of
       None \<Rightarrow> (Err (UnknownPeer a), T)
     | Some conn \<Rightarrow> tcp_send i conn data T)"

text \<open>An error that is only logged.\<close>

definition logged :: "('s, unit) go \<Rightarrow> ('s, unit) go" where
  "logged m = (\<lambda>s. case m s of (Err e, s') \<Rightarrow> (Ok (), s') | out \<Rightarrow> out)"

text \<open>The connections are collected first; \<open>keys\<close> is the order of the walk over the map.\<close>

definition Tcp_Broadcast :: "nat \<Rightarrow> string list \<Rightarrow> bytes \<Rightarrow> (tcp, unit) go" where
  "Tcp_Broadcast i keys data =
     sbind (sget (\<lambda>T. List.map_filter (tt_connections (tc_tr T i)) keys)) (\<lambda>conns.
       sfor conns (\<lambda>conn. logged (tcp_send i conn data)))"

text \<open>
  One turn of a read loop, on the bytes that wait, cut into the reads \<open>cs\<close>; what is left
  over waits on. The loop has used its buffer when it waits for room in the channel.
\<close>

definition after_read :: "nat \<Rightarrow> nat \<Rightarrow> reader \<Rightarrow> tcp \<Rightarrow> tcp" where
  "after_read i e r T = T\<lparr>tc_eps := (tc_eps T)(e := (tc_eps T e)\<lparr>ep_in := concat (rd_chunks r)\<rparr>),
     tc_tr := (tc_tr T)(i := (tc_tr T i)\<lparr>tt_readers := (tt_readers (tc_tr T i))(e \<mapsto> r)\<rparr>)\<rparr>"

definition tcp_read :: "nat \<Rightarrow> nat \<Rightarrow> bytes list \<Rightarrow> (tcp, unit) go" where
  "tcp_read i e cs = (\<lambda>T. case tt_readers (tc_tr T i) e of
       None \<Rightarrow> (Panic Blocked, T)
     | Some r \<Rightarrow> (case read_step (r\<lparr>rd_chunks := cs, rd_recv := []\<rparr>) of
           (Err er, r') \<Rightarrow> (Err er, after_read i e r' T)
         | (Panic p, r') \<Rightarrow> (Panic p, after_read i e r' T)
         | (Ok _, r') \<Rightarrow>
             if recv_capacity \<le> length (tt_recv (tc_tr T i)) then (Panic Blocked, after_read i e r' T)
             else on_tr i (\<lambda>t. t\<lparr>tt_recv := tt_recv t @ map (Pair e) (rd_recv r')\<rparr>) (after_read i e r' T)))"

text \<open>
  Receiving from the channel: the sender, and the payload as the buffer of the reader has it
  now.
\<close>

definition Tcp_Recv :: "nat \<Rightarrow> (tcp, string \<times> bytes) go" where
  "Tcp_Recv i = (\<lambda>T. case tt_recv (tc_tr T i) of
       [] \<Rightarrow> (Panic Blocked, T)
     | (e, m) # ms \<Rightarrow> (case tt_readers (tc_tr T i) e of
           None \<Rightarrow> (Panic NilDereference, T)
         | Some r \<Rightarrow> (Ok (bytes_string (rpc_From m), rpc_content r m),
             T\<lparr>tc_tr := (tc_tr T)(i := (tc_tr T i)\<lparr>tt_recv := ms\<rparr>)\<rparr>)))"

subsection \<open>Sending and reading\<close>

lemma bytes_string_bytes: "bytes_string (string_bytes s) = s"
  by (simp add: bytes_string_def string_bytes_def o_def unat_of_nat)

lemma string_bytes_length [simp]: "length (string_bytes s) = length s"
  by (simp add: string_bytes_def)

definition ep_add :: "nat \<Rightarrow> bytes \<Rightarrow> tcp \<Rightarrow> tcp" where
  "ep_add e bs T = T\<lparr>tc_eps := (tc_eps T)(e := (tc_eps T e)\<lparr>ep_in := ep_in (tc_eps T e) @ bs\<rparr>)\<rparr>"

lemma ep_add_sel [simp]:
  "tc_tr (ep_add e bs T) = tc_tr T" "tc_accept (ep_add e bs T) = tc_accept T" "tc_next (ep_add e bs T) = tc_next T"
  "ep_open (tc_eps (ep_add e bs T) x) = ep_open (tc_eps T x)" "ep_peer (tc_eps (ep_add e bs T) x) = ep_peer (tc_eps T x)"
  "ep_local (tc_eps (ep_add e bs T) x) = ep_local (tc_eps T x)" "ep_remote (tc_eps (ep_add e bs T) x) = ep_remote (tc_eps T x)"
  "ep_in (tc_eps (ep_add e bs T) x) = ep_in (tc_eps T x) @ (if x = e then bs else [])"
  by (simp_all add: ep_add_def)

lemma ep_add_append: "ep_add e ys (ep_add e xs T) = ep_add e (xs @ ys) T"
  by (simp add: ep_add_def)

lemma ep_add_Nil: "ep_add e [] T = T"
  by (simp add: ep_add_def)

definition frame :: "string \<Rightarrow> bytes \<Rightarrow> bytes" where
  "frame a data = encodeEnvelope (string_bytes a) data"

lemma tcp_send_writes:
  assumes "ep_open (tc_eps T e)"
  shows "tcp_send i e data T = (Ok (), ep_add (ep_peer (tc_eps T e)) (frame (tt_addr (tc_tr T i)) data) T)"
  using assms by (simp add: tcp_send_def sbind_def sget_def conn_Write_def Let_def sret_def frame_def ep_add_def)

lemma Tcp_Send_writes:
  assumes "tt_connections (tc_tr T i) a = Some e" "ep_open (tc_eps T e)"
  shows "Tcp_Send i a data T = (Ok (), ep_add (ep_peer (tc_eps T e)) (frame (tt_addr (tc_tr T i)) data) T)"
  using tcp_send_writes [of T e i data, OF assms(2)] assms(1) by (simp add: Tcp_Send_def)

text \<open>Several sends on one connection.\<close>

lemma Tcp_Sends_write:
  assumes "tt_connections (tc_tr T i) a = Some e" "ep_open (tc_eps T e)"
  shows "sfor ms (Tcp_Send i a) T =
    (Ok (), ep_add (ep_peer (tc_eps T e)) (concat (map (frame (tt_addr (tc_tr T i))) ms)) T)"
  using assms
proof (induction ms arbitrary: T)
  case (Cons m ms)
  let ?T = "ep_add (ep_peer (tc_eps T e)) (frame (tt_addr (tc_tr T i)) m) T"
  have "tt_connections (tc_tr ?T i) a = Some e" "ep_open (tc_eps ?T e)" using Cons.prems by simp_all
  from Cons.IH [OF this] Tcp_Send_writes [OF Cons.prems, of m] show ?case by (simp add: sbind_def ep_add_append)
qed (simp add: sret_def ep_add_Nil)

text \<open>How the system cuts the waiting bytes into reads: a length is not cut in two.\<close>

definition chops :: "(bytes \<Rightarrow> bytes list) \<Rightarrow> bool" where
  "chops chop \<longleftrightarrow> (\<forall>bs. concat (chop bs) = bs \<and> (4 \<le> length bs \<longrightarrow> (\<exists>c cs. chop bs = c # cs \<and> 4 \<le> length c)))"

lemma read_frame:
  assumes "reader_ok r" "chops chop" "length a + length data + 8 \<le> 65536"
  shows "\<exists>r' m. read_step (r\<lparr>rd_chunks := chop (frame a data @ rest), rd_recv := []\<rparr>) = (Ok (), r') \<and> reader_ok r' \<and>
    concat (rd_chunks r') = rest \<and> rd_recv r' = [m] \<and> bytes_string (rpc_From m) = a \<and> rpc_content r' m = data"
proof -
  let ?r = "r\<lparr>rd_chunks := chop (frame a data @ rest), rd_recv := []\<rparr>"
  let ?m = "\<lparr>rpc_From = string_bytes a, rpc_off = 8 + length (string_bytes a), rpc_len = length data\<rparr>"
  have "4 \<le> length (frame a data @ rest)" by (simp add: frame_def encodeEnvelope_length)
  with assms(2) obtain c cs where c: "chop (frame a data @ rest) = c # cs" "4 \<le> length c" unfolding chops_def by blast
  have "concat (rd_chunks ?r) = encodeEnvelope (string_bytes a) data @ rest" using assms(2) by (simp add: chops_def frame_def)
  moreover have "reader_ok ?r" using assms(1) by (simp add: reader_ok_def)
  moreover have "rd_chunks ?r = c # cs" by (simp add: c(1))
  moreover have "length (string_bytes a) + length data + 8 \<le> 65536" using assms(3) by simp
  ultimately obtain r' where r': "read_step ?r = (Ok (), r')" "reader_ok r'" "concat (rd_chunks r') = rest"
    "rd_buf r' = overwrite (body (string_bytes a) data) (rd_buf ?r)" "rd_recv r' = rd_recv ?r @ [?m]"
    using read_step_frame [of ?r c cs "string_bytes a" data rest] c(2) by blast
  have "rpc_content r' ?m = data"
    using content_overwritten [where r = r' and buf = "rd_buf ?r" and sid = "string_bytes a" and data = data and x = "string_bytes a"]
      r'(4) by (simp add: rpc_content_def)
  with r' show ?thesis by (intro exI [of _ r'] exI [of _ ?m]) (simp add: bytes_string_bytes)
qed

text \<open>Reading one message and receiving it.\<close>

definition read_and_receive :: "nat \<Rightarrow> nat \<Rightarrow> (bytes \<Rightarrow> bytes list) \<Rightarrow> (tcp, string \<times> bytes) go" where
  "read_and_receive j e chop =
     sbind (\<lambda>T. tcp_read j e (chop (ep_in (tc_eps T e))) T) (\<lambda>_. Tcp_Recv j)"

primrec receive_all :: "nat \<Rightarrow> nat \<Rightarrow> (bytes \<Rightarrow> bytes list) \<Rightarrow> nat \<Rightarrow> (tcp, (string \<times> bytes) list) go" where
  "receive_all j e chop 0 = sret []"
| "receive_all j e chop (Suc k) =
     sbind (read_and_receive j e chop) (\<lambda>m. sbind (receive_all j e chop k) (\<lambda>ms. sret (m # ms)))"

definition reading :: "nat \<Rightarrow> nat \<Rightarrow> tcp \<Rightarrow> bool" where
  "reading j e T \<longleftrightarrow> (\<exists>r. tt_readers (tc_tr T j) e = Some r \<and> reader_ok r) \<and> tt_recv (tc_tr T j) = []"

lemma read_and_receive_frame:
  assumes "reading j e T" "chops chop" "length a + length data + 8 \<le> 65536"
    and "ep_in (tc_eps T e) = frame a data @ rest"
  shows "\<exists>T'. read_and_receive j e chop T = (Ok (a, data), T') \<and> reading j e T' \<and> ep_in (tc_eps T' e) = rest"
proof -
  from assms(1) obtain r where r: "tt_readers (tc_tr T j) e = Some r" "reader_ok r" "tt_recv (tc_tr T j) = []"
    unfolding reading_def by blast
  from read_frame [OF r(2) assms(2,3), of rest] obtain r' m where
    r': "read_step (r\<lparr>rd_chunks := chop (frame a data @ rest), rd_recv := []\<rparr>) = (Ok (), r')" "reader_ok r'"
    "concat (rd_chunks r') = rest" "rd_recv r' = [m]" "bytes_string (rpc_From m) = a" "rpc_content r' m = data" by blast
  have "\<not> recv_capacity \<le> 0" by (simp add: recv_capacity_def)
  then show ?thesis
    using r r' by (simp add: read_and_receive_def tcp_read_def after_read_def Tcp_Recv_def sbind_def smodify_def assms(4) reading_def Let_def)
qed

lemma receive_all_frames:
  assumes "reading j e T" "chops chop" "\<forall>m \<in> set ms. length a + length m + 8 \<le> 65536"
    and "ep_in (tc_eps T e) = concat (map (frame a) ms) @ rest"
  shows "\<exists>T'. receive_all j e chop (length ms) T = (Ok (map (Pair a) ms), T') \<and> reading j e T' \<and> ep_in (tc_eps T' e) = rest"
  using assms
proof (induction ms arbitrary: T)
  case (Cons m ms)
  from read_and_receive_frame [OF Cons.prems(1,2), of a m "concat (map (frame a) ms) @ rest"] Cons.prems(3,4)
  obtain T1 where T1: "read_and_receive j e chop T = (Ok (a, m), T1)" "reading j e T1"
    "ep_in (tc_eps T1 e) = concat (map (frame a) ms) @ rest" by auto
  from Cons.IH [OF T1(2) Cons.prems(2) _ T1(3)] Cons.prems(3) obtain T2 where
    "receive_all j e chop (length ms) T1 = (Ok (map (Pair a) ms), T2)" "reading j e T2" "ep_in (tc_eps T2 e) = rest" by auto
  with T1(1) show ?case by (simp add: sbind_def sret_def)
qed (simp add: sret_def)

subsection \<open>Connecting\<close>

text \<open>
  A transport that dials another one, whose listener accepts: the new ends, and who finds
  them under which address.
\<close>

definition can_connect :: "nat \<Rightarrow> nat \<Rightarrow> tcp \<Rightarrow> bool" where
  "can_connect i j T \<longleftrightarrow> i \<noteq> j \<and> tc_accept T (tt_addr (tc_tr T j)) = Some [] \<and>
     \<not> Tcp_IsConnected i (tt_addr (tc_tr T j)) T \<and> tt_recv (tc_tr T i) = [] \<and> tt_recv (tc_tr T j) = []"

definition Tcp_connected :: "string \<Rightarrow> nat \<Rightarrow> nat \<Rightarrow> tcp \<Rightarrow> tcp" where
  "Tcp_connected eph i j T = snd (sbind (Tcp_Connect eph i (TcpTransport j)) (\<lambda>_. listen_step j) T)"

lemma new_reader_ok: "reader_ok (new_reader cs)"
  by (simp add: reader_ok_def new_reader_def)

text \<open>Nobody else notices.\<close>

lemma Tcp_connected_result:
  assumes "can_connect i j T"
  shows "sbind (Tcp_Connect eph i (TcpTransport j)) (\<lambda>_. listen_step j) T = (Ok (), Tcp_connected eph i j T)"
    and "tt_connections (tc_tr (Tcp_connected eph i j T) i) (tt_addr (tc_tr T j)) = Some (tc_next T)"
    and "tt_connections (tc_tr (Tcp_connected eph i j T) j) a = (if a = eph then Some (tc_next T + 1) else tt_connections (tc_tr T j) a)"
    and "tc_eps (Tcp_connected eph i j T) (tc_next T) =
      \<lparr>ep_local = eph, ep_remote = tt_addr (tc_tr T j), ep_peer = tc_next T + 1, ep_open = True, ep_in = []\<rparr>"
    and "tc_eps (Tcp_connected eph i j T) (tc_next T + 1) =
      \<lparr>ep_local = tt_addr (tc_tr T j), ep_remote = eph, ep_peer = tc_next T, ep_open = True, ep_in = []\<rparr>"
    and "reading i (tc_next T) (Tcp_connected eph i j T)" "reading j (tc_next T + 1) (Tcp_connected eph i j T)"
    and "tt_addr (tc_tr (Tcp_connected eph i j T) k) = tt_addr (tc_tr T k)"
proof -
  note c = assms [unfolded can_connect_def Tcp_IsConnected_def]
  have r: "sbind (Tcp_Connect eph i (TcpTransport j)) (\<lambda>_. listen_step j) T = (Ok (), T\<lparr>
      tc_eps := (tc_eps T)(
        tc_next T := \<lparr>ep_local = eph, ep_remote = tt_addr (tc_tr T j), ep_peer = tc_next T + 1, ep_open = True, ep_in = []\<rparr>,
        tc_next T + 1 := \<lparr>ep_local = tt_addr (tc_tr T j), ep_remote = eph, ep_peer = tc_next T, ep_open = True, ep_in = []\<rparr>),
      tc_next := tc_next T + 2, tc_accept := (tc_accept T)(tt_addr (tc_tr T j) \<mapsto> []),
      tc_tr := (tc_tr T)(
        i := (tc_tr T i)\<lparr>tt_connections := (tt_connections (tc_tr T i))(tt_addr (tc_tr T j) \<mapsto> tc_next T),
          tt_readers := (tt_readers (tc_tr T i))(tc_next T \<mapsto> new_reader [])\<rparr>,
        j := (tc_tr T j)\<lparr>tt_connections := (tt_connections (tc_tr T j))(eph \<mapsto> tc_next T + 1),
          tt_readers := (tt_readers (tc_tr T j))(tc_next T + 1 \<mapsto> new_reader [])\<rparr>)\<rparr>)"
    using c by (simp add: sbind_def sget_def smodify_def Tcp_IsConnected_def net_Dial_def Let_def start_read_def
        listen_step_def net_Accept_def)
  show "sbind (Tcp_Connect eph i (TcpTransport j)) (\<lambda>_. listen_step j) T = (Ok (), Tcp_connected eph i j T)"
    "tt_connections (tc_tr (Tcp_connected eph i j T) i) (tt_addr (tc_tr T j)) = Some (tc_next T)"
    "tt_connections (tc_tr (Tcp_connected eph i j T) j) a = (if a = eph then Some (tc_next T + 1) else tt_connections (tc_tr T j) a)"
    "tc_eps (Tcp_connected eph i j T) (tc_next T) =
      \<lparr>ep_local = eph, ep_remote = tt_addr (tc_tr T j), ep_peer = tc_next T + 1, ep_open = True, ep_in = []\<rparr>"
    "tc_eps (Tcp_connected eph i j T) (tc_next T + 1) =
      \<lparr>ep_local = tt_addr (tc_tr T j), ep_remote = eph, ep_peer = tc_next T, ep_open = True, ep_in = []\<rparr>"
    "reading i (tc_next T) (Tcp_connected eph i j T)" "reading j (tc_next T + 1) (Tcp_connected eph i j T)"
    "tt_addr (tc_tr (Tcp_connected eph i j T) k) = tt_addr (tc_tr T k)"
    unfolding Tcp_connected_def r using c by (simp_all add: reading_def new_reader_ok)
qed

text \<open>One message goes over the connection and is received; the ends are as before.\<close>

lemma message_exchanged:
  assumes "tt_connections (tc_tr T i) a = Some e" "ep_open (tc_eps T e)" "ep_in (tc_eps T (ep_peer (tc_eps T e))) = []"
    and "reading j (ep_peer (tc_eps T e)) T" "chops chop" "length (tt_addr (tc_tr T i)) + length m + 8 \<le> 65536"
  shows "\<exists>T1 T2. Tcp_Send i a m T = (Ok (), T1) \<and>
    read_and_receive j (ep_peer (tc_eps T e)) chop T1 = (Ok (tt_addr (tc_tr T i), m), T2) \<and>
    tc_eps T2 = tc_eps T \<and> (\<forall>k. k \<noteq> j \<longrightarrow> tc_tr T2 k = tc_tr T k) \<and>
    tt_connections (tc_tr T2 j) = tt_connections (tc_tr T j) \<and> tt_addr (tc_tr T2 j) = tt_addr (tc_tr T j)"
proof -
  let ?f = "ep_peer (tc_eps T e)" and ?fr = "frame (tt_addr (tc_tr T i)) m"
  from assms(4) obtain r where r: "tt_readers (tc_tr T j) ?f = Some r" "reader_ok r" "tt_recv (tc_tr T j) = []"
    unfolding reading_def by blast
  from read_frame [OF r(2) assms(5,6), of "[]"] obtain r' q where
    r': "read_step (r\<lparr>rd_chunks := chop ?fr, rd_recv := []\<rparr>) = (Ok (), r')" "concat (rd_chunks r') = []"
    "rd_recv r' = [q]" "bytes_string (rpc_From q) = tt_addr (tc_tr T i)" "rpc_content r' q = m" by auto
  have wait: "\<not> recv_capacity \<le> 0" by (simp add: recv_capacity_def)
  obtain T2 where T2: "read_and_receive j ?f chop (ep_add ?f ?fr T) = (Ok (tt_addr (tc_tr T i), m), T2)"
    "tc_eps T2 = (tc_eps (ep_add ?f ?fr T))(?f := (tc_eps (ep_add ?f ?fr T) ?f)\<lparr>ep_in := []\<rparr>)"
    "\<forall>k. k \<noteq> j \<longrightarrow> tc_tr T2 k = tc_tr T k" "tt_connections (tc_tr T2 j) = tt_connections (tc_tr T j)"
    "tt_addr (tc_tr T2 j) = tt_addr (tc_tr T j)"
    using r r' wait assms(3) by (simp add: read_and_receive_def tcp_read_def after_read_def Tcp_Recv_def sbind_def smodify_def)
  have "tc_eps T2 = tc_eps T" unfolding T2(2) using assms(3) by (auto simp: ep_add_def fun_eq_iff)
  with T2 Tcp_Send_writes [OF assms(1,2), of m] show ?thesis by blast
qed

text \<open>What is sent over one end arrives at the transport that reads the other one.\<close>

lemma messages_arrive:
  assumes "tt_connections (tc_tr T i) a = Some e" "ep_open (tc_eps T e)" "ep_in (tc_eps T (ep_peer (tc_eps T e))) = []"
    and "reading j (ep_peer (tc_eps T e)) T" "chops chop" "\<forall>m \<in> set ms. length (tt_addr (tc_tr T i)) + length m + 8 \<le> 65536"
  shows "\<exists>T1 T2. sfor ms (Tcp_Send i a) T = (Ok (), T1) \<and>
    receive_all j (ep_peer (tc_eps T e)) chop (length ms) T1 = (Ok (map (Pair (tt_addr (tc_tr T i))) ms), T2)"
proof -
  let ?T = "ep_add (ep_peer (tc_eps T e)) (concat (map (frame (tt_addr (tc_tr T i))) ms)) T"
  have "reading j (ep_peer (tc_eps T e)) ?T" using assms(4) by (simp add: reading_def)
  moreover have "ep_in (tc_eps ?T (ep_peer (tc_eps T e))) = concat (map (frame (tt_addr (tc_tr T i))) ms) @ []"
    using assms(3) by simp
  ultimately show ?thesis
    using Tcp_Sends_write [OF assms(1,2), of ms] receive_all_frames [OF _ assms(5,6)] by blast
qed


text \<open>Two transports that have just been made, and a system that gives all waiting bytes at once.\<close>

definition no_sockets :: tcp where
  "no_sockets = \<lparr>tc_eps = (\<lambda>_. \<lparr>ep_local = [], ep_remote = [], ep_peer = 0, ep_open = False, ep_in = []\<rparr>), tc_next = 0,
     tc_accept = Map.empty, tc_tr = (\<lambda>_. \<lparr>tt_addr = [], tt_connections = Map.empty, tt_readers = Map.empty, tt_recv = []\<rparr>)\<rparr>"

lemma two_tcp_transports:
  obtains T where "sbind (NewTcpTransport 0 ''A'') (\<lambda>_. NewTcpTransport 1 ''B'') no_sockets = (Ok (), T)"
    "can_connect 0 1 T" "tt_addr (tc_tr T 0) = ''A''" "tt_addr (tc_tr T 1) = ''B''" "\<not> Tcp_IsConnected 1 ''A'' T"
  by (simp add: NewTcpTransport_def net_Listen_def sbind_def smodify_def no_sockets_def can_connect_def Tcp_IsConnected_def)


end
