(* ===== verification/Server_Net.thy ===== *)
theory Server_Net
  imports Network_Local "HOL-Library.Char_ord" "HOL-Library.List_Lexorder"
begin

section \<open>Servers on the local transport\<close>

text \<open>
  Models the operations of \<^verbatim>\<open>server/server.go\<close> that involve more than one node
  (\<^verbatim>\<open>Connect\<close>, \<^verbatim>\<open>Join\<close>) and the listings of \<^verbatim>\<open>Peers\<close>, which go over the map in the order
  of its sorted keys.
\<close>

subsection \<open>Listing the peers\<close>

definition Peers_keys :: "node \<Rightarrow> string list" where
  "Peers_keys n = sorted_list_of_set (dom (nd_peers n))"

definition Peers_Slice :: "node \<Rightarrow> pipe list" where
  "Peers_Slice n = map (\<lambda>k. the (nd_peers n k)) (Peers_keys n)"

definition Peers_Len :: "node \<Rightarrow> nat" where
  "Peers_Len n = card (dom (nd_peers n))"

definition pipe_String :: "pipe \<Rightarrow> string" where
  "pipe_String p = p_local p @ '' (local) -> '' @ p_remote p @ '' (remote)''"

text \<open>\<^verbatim>\<open>strings.Join\<close>.\<close>

fun join_strings :: "string list \<Rightarrow> string \<Rightarrow> string" where
  "join_strings [] sep = []"
| "join_strings [s] sep = s"
| "join_strings (s # t # ts) sep = s @ sep @ join_strings (t # ts) sep"

definition Peers_String :: "node \<Rightarrow> string" where
  "Peers_String n = join_strings
     (map (\<lambda>k. k @ '':'' @ pipe_String (the (nd_peers n k))) (Peers_keys n)) '' , ''"

text \<open>The map of peers stays finite; its listing has every peer once, in the order of the keys.\<close>

lemma Peers_add_finite:
  "finite (dom (nd_peers n)) \<Longrightarrow> Peers_add sid p n = (r, n') \<Longrightarrow> finite (dom (nd_peers n'))"
  by (auto simp: Peers_add_def smodify_def)

lemma Peers_listing:
  assumes "finite (dom (nd_peers n))"
  shows "length (Peers_Slice n) = Peers_Len n \<and> set (Peers_Slice n) = ran (nd_peers n) \<and>
    sorted (Peers_keys n) \<and> distinct (Peers_keys n)"
  using assms
  by (force simp: Peers_Slice_def Peers_keys_def Peers_Len_def ran_def dom_def image_iff)

subsection \<open>Connecting and joining\<close>

text \<open>A transport with the own address is skipped; \<open>None\<close> is a call that does not return.\<close>

primrec Server_Connect :: "nat \<Rightarrow> nat list \<Rightarrow> network \<Rightarrow> (unit result \<times> network) option" where
  "Server_Connect i [] N = Some (Ok (), N)"
| "Server_Connect i (pt # strangers) N =
     (if lt_addr (N i) = lt_addr (N pt) then Server_Connect i strangers N
      else case Local_Connect i pt N of
          None \<Rightarrow> None
        | Some (Panic p, N') \<Rightarrow> Some (Panic p, N')
        | Some (Err e, N') \<Rightarrow> Some (Err (ConnectFailed (addr_String (lt_addr (N i))) (addr_String (lt_addr (N pt)))), N')
        | Some (Ok _, N') \<Rightarrow> Server_Connect i strangers N')"

definition Join :: "gob \<Rightarrow> (node \<times> node, unit) go" where
  "Join G = (\<lambda>(s, peer).
     case Subscribe G (nd_addr peer) s of
       (Ok _, s') \<Rightarrow> (case Subscribe G (nd_addr s) peer of (r, peer') \<Rightarrow> (r, (s', peer')))
     | (r, s') \<Rightarrow> (r, (s', peer)))"

text \<open>
  Connecting to a list of transports connects all of them, both ways, and keeps the
  connections there are.
\<close>

lemma Local_Connect_keeps:
  assumes "network_ok N" "Local_Connect i j N = Some (Ok (), N')"
  shows "network_ok N' \<and> lt_addr (N' k) = lt_addr (N k) \<and> (lt_peers (N k) a = Some m \<longrightarrow> lt_peers (N' k) a = Some m) \<and>
    lt_peers (N' i) (addr_String (lt_addr (N j))) = Some j"
proof -
  note d = network_okD [OF assms(1)]
  have N': "N' = (if lt_peers (N i) (addr_String (lt_addr (N j))) \<noteq> None then N else with_peer j i (with_peer i j N))"
    using assms(2) unfolding Local_Connect_ok [OF assms(1)] by simp
  have ok: "network_ok N'" using assms(1) with_peers_ok [OF assms(1)] by (simp add: N')
  have "lt_peers (N' i) (addr_String (lt_addr (N j))) = Some j"
  proof (cases "lt_peers (N i) (addr_String (lt_addr (N j)))")
    case (Some m)
    from d(3) [OF Some] d(2) [of j m] have "m = j" by simp
    with Some show ?thesis by (simp add: N')
  qed (simp add: N')
  moreover have "lt_peers (N' k) a = Some m" if m: "lt_peers (N k) a = Some m"
  proof -
    from d(3) [OF m] have a: "a = addr_String (lt_addr (N m))" by blast
    have j: "m = j" if "a = addr_String (lt_addr (N j))" using a that d(2) [of m j] by blast
    have i: "m = i" if "a = addr_String (lt_addr (N i))" using a that d(2) [of m i] by blast
    have both: "lt_peers (with_peer j i (with_peer i j N) k) a = Some m"
      unfolding with_peers_lookup using m i j by simp
    show ?thesis unfolding N' using m both by (simp only: split: if_splits) simp
  qed
  moreover have "lt_addr (N' k) = lt_addr (N k)" by (simp add: N')
  ultimately show ?thesis using ok by blast
qed

lemma Server_Connect_connects:
  assumes "network_ok N"
  shows "\<exists>N'. Server_Connect i js N = Some (Ok (), N') \<and> network_ok N' \<and> (\<forall>k. lt_addr (N' k) = lt_addr (N k)) \<and>
    (\<forall>k a m. lt_peers (N k) a = Some m \<longrightarrow> lt_peers (N' k) a = Some m) \<and>
    (\<forall>j \<in> set js. j \<noteq> i \<longrightarrow> lt_peers (N' i) (addr_String (lt_addr (N j))) = Some j \<and>
       lt_peers (N' j) (addr_String (lt_addr (N i))) = Some i)"
  using assms
proof (induction js arbitrary: N)
  case (Cons j js)
  note d = network_okD [OF Cons.prems]
  have same: "lt_addr (N i) = lt_addr (N j) \<longleftrightarrow> i = j" using d(2) [of i j] by (metis)
  show ?case
  proof (cases "i = j")
    case True
    with Cons.IH [OF Cons.prems] show ?thesis by simp
  next
    case False
    obtain N1 where N1: "Local_Connect i j N = Some (Ok (), N1)" using Local_Connect_ok [OF Cons.prems, of i j] by simp
    note k = Local_Connect_keeps [OF Cons.prems N1]
    from k have ok1: "network_ok N1" and a1: "\<And>k. lt_addr (N1 k) = lt_addr (N k)"
      and p1: "\<And>k a m. lt_peers (N k) a = Some m \<Longrightarrow> lt_peers (N1 k) a = Some m"
      and j1: "lt_peers (N1 i) (addr_String (lt_addr (N j))) = Some j" by blast+
    from Cons.IH [OF ok1] obtain N' where N': "Server_Connect i js N1 = Some (Ok (), N')" "network_ok N'"
      "\<And>k. lt_addr (N' k) = lt_addr (N k)" "\<And>k a m. lt_peers (N1 k) a = Some m \<Longrightarrow> lt_peers (N' k) a = Some m"
      "\<And>m. m \<in> set js \<Longrightarrow> m \<noteq> i \<Longrightarrow> lt_peers (N' i) (addr_String (lt_addr (N m))) = Some m \<and>
         lt_peers (N' m) (addr_String (lt_addr (N i))) = Some i" unfolding a1 by blast
    have "lt_peers (N' i) (addr_String (lt_addr (N j))) = Some j" by (rule N'(4) [OF j1])
    moreover from conjunct2 [OF network_okD(3) [OF N'(2) this]] have "lt_peers (N' j) (addr_String (lt_addr (N i))) = Some i"
      unfolding N'(3) .
    moreover have "Server_Connect i (j # js) N = Some (Ok (), N')" using False same N1 N'(1) by simp
    ultimately show ?thesis using N' p1 by (intro exI [of _ N']) auto
  qed
qed simp

end
