(* ===== verification/Server_Transports.thy ===== *)
theory Server_Transports
  imports Network_Tcp Server_Net Server_Node_Handlers
begin

section \<open>Nodes over either transport\<close>

text \<open>
  What a node needs of a transport to subscribe to another node: the pipe that it finds for
  that node has a handle, its local address, under which the other one finds the way back.
  Both transports provide it, the local one with the address of the node as the handle, the
  TCP one with the address of the dialing end.
\<close>

locale pipe_transport =
  fixes get :: "'n \<Rightarrow> string \<Rightarrow> 's \<Rightarrow> pipe option"
    and name_of :: "'n \<Rightarrow> 's \<Rightarrow> string"
    and connected :: "'n \<Rightarrow> 'n \<Rightarrow> 's \<Rightarrow> 's"
    and ok :: "'n \<Rightarrow> 'n \<Rightarrow> 's \<Rightarrow> bool"
  assumes handle_found: "ok i j s \<Longrightarrow> \<exists>p q. get i (name_of j s) (connected i j s) = Some p \<and>
      get j (p_local p) (connected i j s) = Some q \<and> p_remote q = p_local p"
begin

lemma subscription:
  assumes "ok i j s" "gob_round_trips G" "nd_addr b = name_of j s"
    and "nd_conns a = (\<lambda>x. get i x (connected i j s))" "nd_conns b = (\<lambda>x. get j x (connected i j s))"
    and "get i (name_of j s) (connected i j s) = Some p"
    and "payload_Bytes G (PSubscribeRequest \<lparr>sq_RequestorID = nd_addr a, sq_Handle = p_local p\<rparr>) = Ok req"
    and "payload_Bytes G (PSubscribeResponse (nd_addr b)) = Ok resp"
  shows "\<exists>q. get j (p_local p) (connected i j s) = Some q \<and>
    Subscribe G (nd_addr b) a = (Ok (), a\<lparr>nd_sent := nd_sent a @ [OutSend (nd_addr b) req]\<rparr>) \<and>
    process_rpc L G t1 s1 req b = (Ok (), b\<lparr>nd_peers := (nd_peers b)(nd_addr a \<mapsto> q),
      nd_sent := nd_sent b @ [OutSend (p_local p) resp]\<rparr>) \<and>
    process_rpc L G t2 s2 resp a = (Ok (), a\<lparr>nd_peers := (nd_peers a)(nd_addr b \<mapsto> p)\<rparr>)"
proof -
  from handle_found [OF assms(1)] assms(6) obtain q where q: "get j (p_local p) (connected i j s) = Some q" "p_remote q = p_local p"
    by auto
  have c: "nd_conns a (nd_addr b) = Some p" "nd_conns b (p_local p) = Some q" "nd_conns b (p_remote q) \<noteq> None"
    by (simp_all add: assms(3-6) q)
  from subscription_messages [OF assms(2) c assms(7,8), of L t1 s1 t2 s2] q show ?thesis by auto
qed

end

interpretation local_pipes: pipe_transport Local_Get "\<lambda>i N. addr_String (lt_addr (N i))" Local_connected "\<lambda>i j. network_ok"
proof unfold_locales
  fix i j :: nat and N :: network
  assume N: "network_ok N"
  note c = Local_connected_ok [OF N, of i j]
  from c obtain p q where p: "Local_Get i (addr_String (lt_addr (N j))) (Local_connected i j N) = Some p"
    and q: "Local_Get j (addr_String (lt_addr (N i))) (Local_connected i j N) = Some q" by blast
  have addr: "lt_addr (Local_connected i j N k) = lt_addr (N k)" for k using Local_connected_ok [OF N, of i j k] by blast
  have "p_local p = addr_String (lt_addr (N i))" using p by (auto simp: Local_Get_def addr split: option.splits)
  moreover have "p_remote q = addr_String (lt_addr (N i))"
  proof -
    from q obtain m where m: "lt_peers (Local_connected i j N j) (addr_String (lt_addr (N i))) = Some m"
      "p_remote q = addr_String (lt_addr (N m))" by (auto simp: Local_Get_def addr split: option.splits)
    from network_okD(3) [OF conjunct1 [OF c] m(1)] m(2) show ?thesis by (simp add: addr)
  qed
  ultimately show "\<exists>p q. Local_Get i (addr_String (lt_addr (N j))) (Local_connected i j N) = Some p \<and>
      Local_Get j (p_local p) (Local_connected i j N) = Some q \<and> p_remote q = p_local p" using p q by simp
qed

lemma Tcp_connected_pipes:
  assumes "can_connect i j T"
  shows "Tcp_Get i (tt_addr (tc_tr T j)) (Tcp_connected eph i j T) = Some \<lparr>p_local = eph, p_remote = tt_addr (tc_tr T j)\<rparr>"
    and "Tcp_Get j eph (Tcp_connected eph i j T) = Some \<lparr>p_local = tt_addr (tc_tr T j), p_remote = eph\<rparr>"
  using Tcp_connected_result [OF assms, of eph] by (simp_all add: Tcp_Get_def)

interpretation tcp_pipes: pipe_transport Tcp_Get "\<lambda>i T. tt_addr (tc_tr T i)" "Tcp_connected eph" can_connect for eph
  by unfold_locales (simp add: Tcp_connected_pipes)

text \<open>
  C20: a node subscribes over TCP. When the transport of one node has dialed that of another
  one, the request for a subscription crosses the connection, the other node finds the way
  back under the handle in it and answers there, the answer crosses the connection, and both
  nodes are peers of each other. (Under the address of the first node nothing is found; the
  handle is needed.)
\<close>

theorem tcp_subscription:
  assumes "can_connect i j T" and "T' = Tcp_connected eph i j T" and "gob_round_trips G" and "chops chop"
    and "nd_addr a = tt_addr (tc_tr T i)" and "nd_addr b = tt_addr (tc_tr T j)"
    and "nd_conns a = (\<lambda>x. Tcp_Get i x T')" and "nd_conns b = (\<lambda>x. Tcp_Get j x T')"
    and "payload_Bytes G (PSubscribeRequest \<lparr>sq_RequestorID = nd_addr a, sq_Handle = eph\<rparr>) = Ok req"
    and "payload_Bytes G (PSubscribeResponse (nd_addr b)) = Ok resp"
    and "length (nd_addr a) + length req + 8 \<le> 65536" and "length (nd_addr b) + length resp + 8 \<le> 65536"
  shows "\<exists>e f T1 T2 T3 T4. Subscribe G (nd_addr b) a = (Ok (), a\<lparr>nd_sent := nd_sent a @ [OutSend (nd_addr b) req]\<rparr>) \<and>
    Tcp_Send i (nd_addr b) req T' = (Ok (), T1) \<and> read_and_receive j f chop T1 = (Ok (nd_addr a, req), T2) \<and>
    process_rpc L G t1 (nd_addr a) req b = (Ok (), b\<lparr>nd_peers := (nd_peers b)(nd_addr a \<mapsto>
      \<lparr>p_local = nd_addr b, p_remote = eph\<rparr>), nd_sent := nd_sent b @ [OutSend eph resp]\<rparr>) \<and>
    Tcp_Send j eph resp T2 = (Ok (), T3) \<and> read_and_receive i e chop T3 = (Ok (nd_addr b, resp), T4) \<and>
    process_rpc L G t2 (nd_addr b) resp a = (Ok (), a\<lparr>nd_peers := (nd_peers a)(nd_addr b \<mapsto>
      \<lparr>p_local = eph, p_remote = nd_addr b\<rparr>)\<rparr>)"
proof -
  let ?e = "tc_next T" and ?f = "tc_next T + 1"
  note c = Tcp_connected_result [OF assms(1), of eph, folded assms(2)] and p = Tcp_connected_pipes [OF assms(1), of eph, folded assms(2)]
  have ij: "i \<noteq> j" using assms(1) by (simp add: can_connect_def)
  have p': "Tcp_Get i (nd_addr b) T' = Some \<lparr>p_local = eph, p_remote = nd_addr b\<rparr>" using p(1) by (simp add: assms(6))
  have req: "payload_Bytes G (PSubscribeRequest \<lparr>sq_RequestorID = nd_addr a, sq_Handle = p_local \<lparr>p_local = eph, p_remote = nd_addr b\<rparr>\<rparr>) = Ok req"
    using assms(9) by simp
  from tcp_pipes.subscription [OF assms(1,3,6), of a eph, folded assms(2,6), OF assms(7,8) p' req assms(10), of L t1 "nd_addr a" t2 "nd_addr b"]
  have s: "Subscribe G (nd_addr b) a = (Ok (), a\<lparr>nd_sent := nd_sent a @ [OutSend (nd_addr b) req]\<rparr>)"
    "process_rpc L G t1 (nd_addr a) req b = (Ok (), b\<lparr>nd_peers := (nd_peers b)(nd_addr a \<mapsto>
      \<lparr>p_local = nd_addr b, p_remote = eph\<rparr>), nd_sent := nd_sent b @ [OutSend eph resp]\<rparr>)"
    "process_rpc L G t2 (nd_addr b) resp a = (Ok (), a\<lparr>nd_peers := (nd_peers a)(nd_addr b \<mapsto>
      \<lparr>p_local = eph, p_remote = nd_addr b\<rparr>)\<rparr>)" using p(2) by (auto simp: assms(6))
  from message_exchanged [OF c(2), of j chop req] c(4,5,7,8) assms(4,5,11) obtain T1 T2 where
    1: "Tcp_Send i (nd_addr b) req T' = (Ok (), T1)" "read_and_receive j ?f chop T1 = (Ok (nd_addr a, req), T2)"
    "tc_eps T2 = tc_eps T'" "tc_tr T2 i = tc_tr T' i" "tt_connections (tc_tr T2 j) = tt_connections (tc_tr T' j)"
    "tt_addr (tc_tr T2 j) = tt_addr (tc_tr T' j)" using ij by (auto simp: assms(6))
  have there: "tt_connections (tc_tr T2 j) eph = Some ?f" using 1(5) c(3) by simp
  have "reading i ?e T2" using c(6) 1(4) by (simp add: reading_def)
  with message_exchanged [OF there, of i chop resp] c(4,5,8) 1(3,6) assms(4,6,12) obtain T3 T4 where
    "Tcp_Send j eph resp T2 = (Ok (), T3)" "read_and_receive i ?e chop T3 = (Ok (nd_addr b, resp), T4)" by (auto simp: assms(6))
  with s 1(1,2) show ?thesis by blast
qed

theorem tcp_subscription_witness:
  "\<exists>G T' a b a' b' e f T1 T2 T3 T4 req resp. Subscribe G ''B'' a = (Ok (), a\<lparr>nd_sent := nd_sent a @ [OutSend ''B'' req]\<rparr>) \<and>
    Tcp_Send 0 ''B'' req T' = (Ok (), T1) \<and> read_and_receive 1 f (\<lambda>bs. [bs]) T1 = (Ok (''A'', req), T2) \<and>
    process_rpc demo_lib G 0 ''A'' req b = (Ok (), b') \<and> Tcp_Send 1 ''E'' resp T2 = (Ok (), T3) \<and>
    read_and_receive 0 e (\<lambda>bs. [bs]) T3 = (Ok (''B'', resp), T4) \<and> process_rpc demo_lib G 0 ''B'' resp a = (Ok (), a') \<and>
    nd_peers a' ''B'' \<noteq> None \<and> nd_peers b' ''A'' \<noteq> None"
proof -
  let ?P = "PSubscribeRequest \<lparr>sq_RequestorID = ''A'', sq_Handle = ''E''\<rparr>" and ?Q = "PSubscribeResponse ''B''"
  let ?G = "two_gob ?P ?Q"
  obtain T where T: "can_connect 0 1 T" "tt_addr (tc_tr T 0) = ''A''" "tt_addr (tc_tr T 1) = ''B''"
    by (rule two_tcp_transports)
  obtain a0 :: node where a0: "nd_addr a0 = ''A''" by (rule fresh_node [of "''A''"])
  obtain b0 :: node where b0: "nd_addr b0 = ''B''" by (rule fresh_node [of "''B''"])
  define T' where "T' = Tcp_connected ''E'' 0 1 T"
  define a where "a = a0\<lparr>nd_conns := (\<lambda>x. Tcp_Get 0 x T')\<rparr>"
  define b where "b = b0\<lparr>nd_conns := (\<lambda>x. Tcp_Get 1 x T')\<rparr>"
  have ab: "nd_addr a = ''A''" "nd_addr b = ''B''" "nd_conns a = (\<lambda>x. Tcp_Get 0 x T')" "nd_conns b = (\<lambda>x. Tcp_Get 1 x T')"
    by (simp_all add: a_def b_def a0 b0)
  have G: "payload_Bytes ?G ?P = Ok [5, 1]" "payload_Bytes ?G ?Q = Ok [4, 2]" using two_gob_Bytes [of ?P ?Q] by simp_all
  have "chops (\<lambda>bs. [bs])" by (simp add: chops_def)
  from tcp_subscription [OF T(1) T'_def two_gob_round_trips this, of a b ?P ?Q "[5, 1]" "[4, 2]" demo_lib 0 0] T(2,3) G
  obtain e f T1 T2 T3 T4 where "Subscribe ?G ''B'' a = (Ok (), a\<lparr>nd_sent := nd_sent a @ [OutSend ''B'' [5, 1]]\<rparr>)"
    "Tcp_Send 0 ''B'' [5, 1] T' = (Ok (), T1)" "read_and_receive 1 f (\<lambda>bs. [bs]) T1 = (Ok (''A'', [5, 1]), T2)"
    "process_rpc demo_lib ?G 0 ''A'' [5, 1] b = (Ok (), b\<lparr>nd_peers := (nd_peers b)(''A'' \<mapsto>
      \<lparr>p_local = ''B'', p_remote = ''E''\<rparr>), nd_sent := nd_sent b @ [OutSend ''E'' [4, 2]]\<rparr>)"
    "Tcp_Send 1 ''E'' [4, 2] T2 = (Ok (), T3)" "read_and_receive 0 e (\<lambda>bs. [bs]) T3 = (Ok (''B'', [4, 2]), T4)"
    "process_rpc demo_lib ?G 0 ''B'' [4, 2] a = (Ok (), a\<lparr>nd_peers := (nd_peers a)(''B'' \<mapsto> \<lparr>p_local = ''E'', p_remote = ''B''\<rparr>)\<rparr>)"
    by (auto simp: ab)
  moreover have "nd_peers (a\<lparr>nd_peers := (nd_peers a)(''B'' \<mapsto> \<lparr>p_local = ''E'', p_remote = ''B''\<rparr>)\<rparr>) ''B'' \<noteq> None"
    "nd_peers (b\<lparr>nd_peers := (nd_peers b)(''A'' \<mapsto> \<lparr>p_local = ''B'', p_remote = ''E''\<rparr>), nd_sent := nd_sent b @ [OutSend ''E'' [4, 2]]\<rparr>) ''A'' \<noteq> None"
    by simp_all
  ultimately show ?thesis by blast
qed

end
