(* ===== verification/Server_Spread.thy ===== *)
theory Server_Spread
  imports Server_Node_Sync "HOL-Library.Sublist"
begin

section \<open>What a node makes of the blocks of a producer\<close>

text \<open>
  A node that only hears of the blocks of one chain: the headers it stores are the first
  ones of that chain, and every block it sends is one of that chain. Shown for each handler
  of \<^verbatim>\<open>server/server_internal.go\<close> and for a turn of the block producer; the runs of
  several nodes build on it.
\<close>

subsection \<open>Messages that carry blocks of a chain\<close>

text \<open>
  What gob makes of a value: a pointer to an empty signature comes back as nil, everything
  else as it was.
\<close>

definition norm_sig :: "bytes option \<Rightarrow> bytes option" where
  "norm_sig s = (if s = Some [] then None else s)"

definition norm_block :: "block_wire \<Rightarrow> block_wire" where
  "norm_block b = b\<lparr>bw_Transactions := map (\<lambda>(d, f, s). (d, f, norm_sig s)) (bw_Transactions b),
     bw_Signature := norm_sig (bw_Signature b)\<rparr>"

fun norm_payload :: "payload \<Rightarrow> payload" where
  "norm_payload (PTx (d, f, s)) = PTx (d, f, norm_sig s)"
| "norm_payload (PBlock b) = PBlock (norm_block b)"
| "norm_payload (PGetBlocksResponse bs) = PGetBlocksResponse (map norm_block bs)"
| "norm_payload p = p"

definition gob_omits_empty :: "gob \<Rightarrow> bool" where
  "gob_omits_empty G \<longleftrightarrow>
     (\<forall>p b. gob_enc G p = Some b \<longrightarrow> gob_dec G (payload_type p) b = Some (norm_payload p)) \<and>
     (\<forall>m b. gob_enc_message G m = Some b \<longrightarrow> gob_dec_message G b = Some m)"

lemma norm_plain [simp]: "plain_payload p \<Longrightarrow> norm_payload p = p"
proof -
  have "norm_sig s = s" if "plain_sig s" for s using that by (simp add: norm_sig_def plain_sig_def)
  moreover from this have "norm_block b = b" if "plain_block b" for b
    using that by (fastforce simp: norm_block_def plain_block_def intro!: block_wire.equality map_idI)
  ultimately show "plain_payload p \<Longrightarrow> norm_payload p = p"
    by (cases p rule: norm_payload.cases) (auto intro: map_idI)
qed

fun payload_blocks :: "payload \<Rightarrow> block_wire list" where
  "payload_blocks (PBlock b) = [b]"
| "payload_blocks (PGetBlocksResponse bs) = bs"
| "payload_blocks _ = []"

definition of_chain :: "header list \<Rightarrow> block_wire \<Rightarrow> bool" where
  "of_chain xs b \<longleftrightarrow> (\<exists>x \<in> set xs. bw_Header b = Some x)"

definition carries :: "header list \<Rightarrow> payload \<Rightarrow> bool" where
  "carries xs p \<longleftrightarrow> (\<forall>b \<in> set (payload_blocks p). of_chain xs b)"

text \<open>Bytes that a node may have made by encoding a payload of such blocks.\<close>

definition genuine :: "gob \<Rightarrow> header list \<Rightarrow> bytes \<Rightarrow> bool" where
  "genuine G xs data \<longleftrightarrow> (\<exists>p. payload_Bytes G p = Ok data \<and> carries xs p)"

primrec out_data :: "outgoing \<Rightarrow> bytes" where
  "out_data (OutBroadcast data) = data"
| "out_data (OutSend a data) = data"

lemma of_chain_mono: "of_chain xs b \<Longrightarrow> set xs \<subseteq> set ys \<Longrightarrow> of_chain ys b"
  unfolding of_chain_def by blast

lemma genuine_mono: "genuine G xs data \<Longrightarrow> set xs \<subseteq> set ys \<Longrightarrow> genuine G ys data"
  unfolding genuine_def carries_def using of_chain_mono by blast

lemma carries_norm [simp]: "carries xs (norm_payload p) \<longleftrightarrow> carries xs p"
  by (cases p rule: norm_payload.cases) (simp_all add: carries_def of_chain_def norm_block_def)

text \<open>What is extracted from such bytes has only blocks of the chain.\<close>

lemma genuine_extract:
  assumes "gob_omits_empty G" "genuine G xs data" "ExtractMessageFromRPC G sender data = Ok (s, q)"
  shows "carries xs q"
proof -
  from assms(2) obtain p d where p: "carries xs p" "gob_enc G p = Some d"
    "gob_enc_message G (NewMessage (payload_type p) d) = Some data"
    by (auto simp: genuine_def payload_Bytes_def message_of_def Message_Bytes_def split: option.splits)
  have "gob_dec_message G data = Some (NewMessage (payload_type p) d)"
    "gob_dec G (payload_type p) d = Some (norm_payload p)" using assms(1) p(2,3) by (auto simp: gob_omits_empty_def)
  with assms(3) have "q = norm_payload p"
    by (auto simp: ExtractMessageFromRPC_def MessageFromRPC_def NewMessage_def split: if_splits)
  with p(1) show ?thesis by simp
qed

subsection \<open>A node that follows a chain\<close>

definition spreads :: "gob \<Rightarrow> header list \<Rightarrow> node \<Rightarrow> bool" where
  "spreads G xs n \<longleftrightarrow> prefix (chain_headers (nd_heap n) (nd_bc n)) xs \<and>
     (\<forall>out \<in> set (nd_sent n). genuine G xs (out_data out))"

definition follows :: "lib \<Rightarrow> gob \<Rightarrow> header list \<Rightarrow> node \<Rightarrow> bool" where
  "follows L G xs n \<longleftrightarrow> node_ok L n \<and> spreads G xs n"

text \<open>Seen from an earlier state \<open>n0\<close>, whose objects are still there and whose key is the same.\<close>

definition tracks :: "lib \<Rightarrow> gob \<Rightarrow> header list \<Rightarrow> node \<Rightarrow> node \<Rightarrow> bool" where
  "tracks L G xs n0 n \<longleftrightarrow> advances L n0 n \<and> spreads G xs n \<and> nd_key n = nd_key n0"

definition from_chain :: "header list \<Rightarrow> node \<Rightarrow> ref \<Rightarrow> bool" where
  "from_chain xs n br \<longleftrightarrow> br < h_next (nd_heap n) \<and> of_chain xs (block_wire_of (nd_heap n) br)"

lemma tracks_refl: "follows L G xs n \<Longrightarrow> tracks L G xs n n"
  by (simp add: tracks_def follows_def advances_refl)

lemma tracks_follows: "tracks L G xs n0 n \<Longrightarrow> follows L G xs n"
  by (simp add: tracks_def follows_def advances_def)

lemma from_chain_advances:
  assumes "node_ok L n" "advances L n n'" "from_chain xs n br"
  shows "from_chain xs n' br"
proof -
  from assms(2) have g: "grows L (nd_heap n) (nd_heap n')" by (simp add: advances_def)
  from assms(3) grows_next [OF g] grows_wire [OF g node_okD(2) [OF assms(1)], of br] show ?thesis
    by (simp add: from_chain_def)
qed

lemma from_chain_tracks: "node_ok L n0 \<Longrightarrow> tracks L G xs n0 n \<Longrightarrow> from_chain xs n0 br \<Longrightarrow> from_chain xs n br"
  unfolding tracks_def using from_chain_advances by blast

subsection \<open>Operations\<close>

text \<open>
  What keeps a node following a chain: operations of the memory and the pool that leave
  headers alone, and sends of payloads with blocks of the chain.
\<close>

lemma keeps_tracks:
  assumes "keeps (advances L n0) m"
    and "\<And>n a n'. tracks L G xs n0 n \<Longrightarrow> m n = (a, n') \<Longrightarrow> spreads G xs n' \<and> nd_key n' = nd_key n"
  shows "keeps (tracks L G xs n0) m"
proof (rule keepsI)
  fix n a n'
  assume t: "tracks L G xs n0 n" and m: "m n = (a, n')"
  then have "advances L n0 n'" using keepsD [OF assms(1) _ m] by (simp add: tracks_def)
  with assms(2) [OF t m] t show "tracks L G xs n0 n'" by (simp add: tracks_def)
qed

lemma spreads_same:
  assumes "spreads G xs n" "nd_bc n' = nd_bc n" "h_headers (nd_heap n') = h_headers (nd_heap n)" "nd_sent n' = nd_sent n"
  shows "spreads G xs n'"
  using assms by (simp add: spreads_def)

lemma keeps_tracks_heap:
  assumes "\<And>h a h'. m h = (a, h') \<Longrightarrow> quiet L h h'" "\<And>h a h'. m h = (a, h') \<Longrightarrow> grows L h h'"
  shows "keeps (tracks L G xs n0) (on_world (on_heap m))"
proof (rule keeps_tracks)
  show "keeps (advances L n0) (on_world (on_heap m))" by (rule keeps_heap) (rule assms(2))
  fix n a n'
  assume t: "tracks L G xs n0 n" and r: "on_world (on_heap m) n = (a, n')"
  then obtain h' where h': "m (nd_heap n) = (a, h')" "n' = n\<lparr>nd_world := (nd_world n)\<lparr>w_heap := h'\<rparr>\<rparr>"
    by (auto simp: szoom_def split: prod.splits)
  show "spreads G xs n' \<and> nd_key n' = nd_key n"
    using t quiet_block(3) [OF assms(1) [OF h'(1)]] spreads_same [of G xs n n'] by (simp add: tracks_def h'(2))
qed

lemma keeps_tracks_Block_Hash [keeps_intro]: "keeps (tracks L G xs n0) (on_world (on_heap (Block_Hash L br)))"
  by (rule keeps_tracks_heap) (fact Block_Hash_quiet Block_Hash_grows)+

lemma keeps_tracks_report [keeps_intro]:
  assumes "keeps (tracks L G xs n0) m"
  shows "keeps (tracks L G xs n0) (report f m)"
proof (rule keepsI)
  fix n a n'
  assume t: "tracks L G xs n0 n" and r: "report f m n = (a, n')"
  obtain b n1 where m: "m n = (b, n1)" by fastforce
  have t1: "tracks L G xs n0 n1" by (rule keepsD [OF assms t m])
  from r m have n': "n' = n1 \<or> (\<exists>e. n' = n1\<lparr>nd_errs := nd_errs n1 @ [e]\<rparr>)" by (auto simp: report_def split: result.splits)
  have "advances L n0 n'" by (rule report_advances [OF r]) (use m t1 in \<open>simp add: tracks_def\<close>)
  then show "tracks L G xs n0 n'" using n' t1 by (auto simp: tracks_def spreads_def)
qed

lemma sent_spreads:
  "spreads G xs n \<Longrightarrow> genuine G xs (out_data out) \<Longrightarrow> spreads G xs (n\<lparr>nd_sent := nd_sent n @ [out]\<rparr>)"
  by (auto simp: spreads_def)

text \<open>Sending the message of a payload, which may depend on the state.\<close>

lemma message_genuine:
  assumes "message_of G (payload_type p) p = Ok msg" "Message_Bytes G msg = Ok data" "carries xs p"
  shows "genuine G xs data"
  using assms unfolding genuine_def payload_Bytes_def by (intro exI [of _ p]) simp

lemma broadcast_spreads:
  assumes s: "spreads G xs n" and p: "carries xs p"
    and r: "sbind (sread (\<lambda>_. message_of G (payload_type p) p)) (broadcast G) n = (a, n')"
  shows "spreads G xs n' \<and> nd_key n' = nd_key n"
proof -
  have "n' = n \<or> (\<exists>msg data. message_of G (payload_type p) p = Ok msg \<and> Message_Bytes G msg = Ok data \<and>
      n' = n\<lparr>nd_sent := nd_sent n @ [OutBroadcast data]\<rparr>)"
    using r by (auto simp: broadcast_def sbind_def sread_def Transport_Broadcast_def smodify_def split: result.splits)
  then show ?thesis using message_genuine [OF _ _ p] sent_spreads [OF s] s by auto
qed

lemma keeps_tracks_broadcast:
  assumes "\<And>n. tracks L G xs n0 n \<Longrightarrow> carries xs (p n)" "\<And>n. t = payload_type (p n)"
  shows "keeps (tracks L G xs n0) (sbind (sread (\<lambda>n. message_of G t (p n))) (broadcast G))"
proof (rule keeps_tracks)
  show "keeps (advances L n0) (sbind (sread (\<lambda>n. message_of G t (p n))) (broadcast G))" by (intro keeps_intro)
  fix n a n'
  assume n: "tracks L G xs n0 n" and r: "sbind (sread (\<lambda>n. message_of G t (p n))) (broadcast G) n = (a, n')"
  have s: "spreads G xs n" using n by (simp add: tracks_def)
  have "sbind (sread (\<lambda>_. message_of G (payload_type (p n)) (p n))) (broadcast G) n = (a, n')"
    using r assms(2) [of n] by (simp add: sbind_def sread_def)
  from broadcast_spreads [OF s assms(1) [OF n] this] show "spreads G xs n' \<and> nd_key n' = nd_key n" .
qed

lemma keeps_tracks_send:
  assumes "\<And>n. tracks L G xs n0 n \<Longrightarrow> carries xs (p n)" "\<And>n. t = payload_type (p n)"
  shows "keeps (tracks L G xs n0) (sbind (sread (\<lambda>n. message_of G t (p n))) (send G a))"
proof (rule keeps_tracks)
  show "keeps (advances L n0) (sbind (sread (\<lambda>n. message_of G t (p n))) (send G a))" by (intro keeps_intro)
  fix n b n'
  assume n: "tracks L G xs n0 n" and r: "sbind (sread (\<lambda>n. message_of G t (p n))) (send G a) n = (b, n')"
  have s: "spreads G xs n" using n by (simp add: tracks_def)
  have "n' = n \<or> (\<exists>msg data. message_of G t (p n) = Ok msg \<and> Message_Bytes G msg = Ok data \<and>
      n' = n\<lparr>nd_sent := nd_sent n @ [OutSend a data]\<rparr>)"
    using r by (auto simp: send_def sbind_def sread_def Transport_Send_def spanic_def split: result.splits if_splits)
  then show "spreads G xs n' \<and> nd_key n' = nd_key n"
    using message_genuine [OF _ _ assms(1) [OF n], folded assms(2)] sent_spreads [OF s] s by auto
qed

lemma keeps_tracks_Peers_add [keeps_intro]: "keeps (tracks L G xs n0) (Peers_add sid p)"
  by (rule keeps_tracks [OF keeps_Peers_add]) (auto simp: Peers_add_def smodify_def tracks_def spreads_def)

subsection \<open>Blocks\<close>

text \<open>A block of the chain that is accepted is the next one of the chain.\<close>

lemma AddBlock_prefix:
  assumes ok: "chain_ok L w" and xs: "heights_ok xs" "length xs \<le> 2 ^ 32"
    and pre: "prefix (chain_headers (w_heap w) (w_bc w)) xs" and br: "of_chain xs (block_wire_of (w_heap w) br)"
    and add: "AddBlock L br w = (r, w')"
  shows "prefix (chain_headers (w_heap w') (w_bc w')) xs"
  using ok add
proof (cases rule: AddBlock_cases)
  case refused
  then obtain cs where "w_bc w' = (w_bc w)\<lparr>bc_cstate := cs\<rparr>" "h_headers (w_heap w') = h_headers (w_heap w)"
    using quiet_block(3) by (auto simp: wquiet_def)
  with pre show ?thesis by simp
next
  case (added hr bh cs)
  let ?x = "h_headers (w_heap w) hr" and ?n = "length (chain_refs (w_bc w))"
  have "?x \<in> set xs" using br added(2) by (auto simp: of_chain_def block_wire_of_def Let_def storable_def)
  then obtain k where k: "k < length xs" "xs ! k = ?x" by (auto simp: in_set_conv_nth)
  then have "of_nat k = (of_nat ?n :: u32)" using xs(1) added(3) by (auto simp: heights_ok_def)
  moreover have "k < 2 ^ LENGTH(32)" "?n < 2 ^ LENGTH(32)" using k(1) xs(2) added(4) by simp_all
  ultimately have "k = ?n" by (metis of_nat_inverse)
  then have "prefix (chain_headers (w_heap w) (w_bc w) @ [?x]) xs"
    using pre k by (auto simp: prefix_def nth_append neq_Nil_conv)
  moreover have "chain_headers (w_heap w') (w_bc w') = chain_headers (w_heap w) (w_bc w) @ [?x]"
    using quiet_block(3) [OF added(7)] by (simp add: added(8) stored_def)
  ultimately show ?thesis by simp
qed

lemma keeps_tracks_AddBlock:
  assumes xs: "heights_ok xs" "length xs \<le> 2 ^ 32" and n0: "node_ok L n0" "from_chain xs n0 br"
  shows "keeps (tracks L G xs n0) (on_world (AddBlock L br))"
proof (rule keeps_tracks [OF keeps_AddBlock])
  fix n a n'
  assume t: "tracks L G xs n0 n" and r: "on_world (AddBlock L br) n = (a, n')"
  then obtain w' where w': "AddBlock L br (nd_world n) = (a, w')" "n' = n\<lparr>nd_world := w'\<rparr>"
    by (auto simp: szoom_def split: prod.splits)
  have "chain_ok L (nd_world n)" using tracks_follows [OF t] node_okD(1) by (auto simp: follows_def)
  moreover have "of_chain xs (block_wire_of (nd_heap n) br)"
    using from_chain_tracks [OF n0(1) t n0(2)] by (simp add: from_chain_def)
  ultimately have "prefix (chain_headers (w_heap w') (w_bc w')) xs"
    using AddBlock_prefix [OF _ xs _ _ w'(1)] t by (simp add: tracks_def spreads_def)
  then show "spreads G xs n' \<and> nd_key n' = nd_key n" using t by (simp add: tracks_def spreads_def w'(2))
qed

lemma keeps_tracks_broadcastBlock:
  assumes "node_ok L n0" "from_chain xs n0 br"
  shows "keeps (tracks L G xs n0) (broadcastBlock L G br)"
  unfolding broadcastBlock_def NewMessageFromBlock_of
proof (rule keeps_sbind [OF keeps_tracks_Block_Hash], rule keeps_tracks_broadcast)
  fix n
  assume "tracks L G xs n0 n"
  from from_chain_tracks [OF assms(1) this assms(2)] show "carries xs (PBlock (block_wire_of (nd_heap n) br))"
    by (simp add: carries_def from_chain_def)
qed simp

lemma carries_no_blocks: "payload_blocks p = [] \<Longrightarrow> carries xs p"
  by (simp add: carries_def)

lemma keeps_tracks_requestBlocks: "keeps (tracks L G xs n0) (requestBlocks G)"
  unfolding requestBlocks_def NewMessageFromGetBlocksRequest_def
  by (rule keeps_tracks_broadcast) (simp_all add: carries_no_blocks)

lemma keeps_tracks_handleBlock:
  assumes xs: "heights_ok xs" "length xs \<le> 2 ^ 32" and n0: "node_ok L n0" "from_chain xs n0 br"
  shows "keeps (tracks L G xs n0) (handleBlock L G br)"
proof -
  have "keeps (tracks L G xs n0) (\<lambda>n. case on_world (AddBlock L br) n of
         (Ok _, n') \<Rightarrow> report (\<lambda>e. e) (broadcastBlock L G br) n'
       | (Panic p, n') \<Rightarrow> (Panic p, n')
       | (Err e, n') \<Rightarrow>
           if as_OutOfSync e then
             (case requestBlocks G n' of (Panic p, n'') \<Rightarrow> (Panic p, n'') | (_, n'') \<Rightarrow> (Ok (), n''))
           else (Err e, n'))" (is "keeps _ ?m")
  proof (rule keepsI)
    fix n a n'
    assume t: "tracks L G xs n0 n" and m: "?m n = (a, n')"
    obtain b n1 where 1: "on_world (AddBlock L br) n = (b, n1)" by fastforce
    have t1: "tracks L G xs n0 n1" by (rule keepsD [OF keeps_tracks_AddBlock [OF assms] t 1])
    show "tracks L G xs n0 n'"
    proof (cases b)
      case (Ok u)
      with m 1 have "report (\<lambda>e. e) (broadcastBlock L G br) n1 = (a, n')" by simp
      from keepsD [OF keeps_tracks_report [OF keeps_tracks_broadcastBlock [OF n0]] t1 this] show ?thesis .
    next
      case (Err e)
      obtain c n2 where 2: "requestBlocks G n1 = (c, n2)" by fastforce
      have "n' = n1 \<or> n' = n2" using m 1 2 Err by (auto split: if_splits result.splits)
      with t1 keepsD [OF keeps_tracks_requestBlocks t1 2] show ?thesis by blast
    qed (use m 1 t1 in simp)
  qed
  then show ?thesis unfolding handleBlock_def by (intro keeps_sbind keeps_tracks_Block_Hash)
qed

lemma keeps_tracks_handleGetBlocksResponse:
  assumes "heights_ok xs" "length xs \<le> 2 ^ 32" "node_ok L n0" "\<forall>br \<in> set brs. from_chain xs n0 br"
  shows "keeps (tracks L G xs n0) (handleGetBlocksResponse L brs)"
  using assms(4)
proof (induction brs)
  case (Cons br brs)
  have "from_chain xs n0 br" using Cons.prems by simp
  note add = keepsD [OF keeps_tracks_AddBlock [OF assms(1-3) this]]
  have "keeps (tracks L G xs n0) (\<lambda>n. if \<not> HasBlockAtHeight (nd_bc n) (hd_Height x)
      then on_world (AddBlock L br) n else (Ok (), n))" for x
    by (rule keepsI) (auto split: if_splits intro: add)
  with Cons show ?case
    unfolding handleGetBlocksResponse_def sfor.simps by (intro keeps_sbind keeps_sread) simp_all
qed (simp add: handleGetBlocksResponse_def keeps_sret)

text \<open>An answer to a request has blocks of the own chain.\<close>

lemma chain_block_of_chain:
  assumes "chain_ok L w" "k < length (chain_refs (w_bc w))" "prefix (chain_headers (w_heap w) (w_bc w)) xs"
  shows "of_chain xs (block_wire_of (w_heap w) (nth_block (w_bc w) k))"
proof -
  let ?x = "chain_headers (w_heap w) (w_bc w) ! k"
  from nth_block_header(1) [OF assms(1,2)] have "bw_Header (block_wire_of (w_heap w) (nth_block (w_bc w) k)) = Some ?x"
    by (auto simp: block_header_def block_wire_of_def Let_def split: option.splits)
  moreover have "?x \<in> set xs" using set_mono_prefix [OF assms(3)] assms(2) by (auto intro!: nth_mem)
  ultimately show ?thesis by (auto simp: of_chain_def)
qed

lemma blocks_from_of_chain:
  assumes "chain_ok L w" "blocks_from (w_bc w) start = Ok brs" "prefix (chain_headers (w_heap w) (w_bc w)) xs" "br \<in> set brs"
  shows "of_chain xs (block_wire_of (w_heap w) br)"
proof (cases "length (chain_refs (w_bc w)) < 2 ^ 32")
  case True
  from blocks_from_result [OF assms(1) True, of start] assms(2,4) obtain k where
    "k < length (chain_refs (w_bc w))" "br = nth_block (w_bc w) k" by auto
  with chain_block_of_chain [OF assms(1) _ assms(3)] show ?thesis by blast
next
  case False
  with assms(1) have "length (chain_refs (w_bc w)) = 2 ^ 32" by (simp add: chain_ok_def chain_pre_def)
  with blocks_loop_never [OF assms(1)] assms(2) show ?thesis by (auto simp: blocks_from_def split: option.splits)
qed

lemma keeps_tracks_handleGetBlocksRequest: "keeps (tracks L G xs n0) (handleGetBlocksRequest G q)"
proof -
  have answer: "keeps (tracks L G xs n0) (sbind (sread (\<lambda>n. blocks_from (nd_bc n) start)) (\<lambda>brs.
     sbind (sread (\<lambda>n. NewMessageFromGetBlocksResponse G (nd_heap n) brs)) (\<lambda>out n.
       case send G a out n of (Panic p, n') \<Rightarrow> (Panic p, n') | (_, n') \<Rightarrow> (Ok (), n'))))" (is "keeps _ ?m") for start a
  proof (rule keeps_tracks)
    show "keeps (advances L n0) ?m" by (intro keeps_sbind keeps_sread keeps_drop_error keeps_send)
    fix n b n'
    assume t: "tracks L G xs n0 n" and r: "?m n = (b, n')"
    have s: "spreads G xs n" and ok: "chain_ok L (nd_world n)"
      using t tracks_follows [OF t] node_okD(1) by (auto simp: tracks_def follows_def)
    have "n' = n \<or> (\<exists>brs data. blocks_from (nd_bc n) start = Ok brs \<and>
        payload_Bytes G (PGetBlocksResponse (map (block_wire_of (nd_heap n)) brs)) = Ok data \<and>
        n' = n\<lparr>nd_sent := nd_sent n @ [OutSend a data]\<rparr>)"
      using r by (auto simp: sbind_def sread_def NewMessageFromGetBlocksResponse_def payload_Bytes_def send_def
          Transport_Send_def spanic_def split: result.splits prod.splits if_splits)
    moreover have "genuine G xs data" if "blocks_from (nd_bc n) start = Ok brs"
        "payload_Bytes G (PGetBlocksResponse (map (block_wire_of (nd_heap n)) brs)) = Ok data" for brs data
      using that(2) blocks_from_of_chain [OF ok that(1)] s unfolding genuine_def
      by (intro exI [of _ "PGetBlocksResponse (map (block_wire_of (nd_heap n)) brs)"]) (auto simp: carries_def spreads_def)
    ultimately show "spreads G xs n' \<and> nd_key n' = nd_key n" using sent_spreads [OF s] s by auto
  qed
  show ?thesis
    unfolding handleGetBlocksRequest_def by (intro keeps_sbind [OF keeps_sread] answer)
qed

subsection \<open>The other handlers\<close>

lemma keeps_tracks_handleStatusMessageRequest: "keeps (tracks L G xs n0) (handleStatusMessageRequest G i)"
  unfolding handleStatusMessageRequest_def NewMessageFromStatusMessageResponse_def
  by (rule keeps_sbind [OF keeps_sread], rule keeps_tracks_broadcast) (simp_all add: carries_no_blocks)

lemma keeps_tracks_handleSubscribeMessageRequest: "keeps (tracks L G xs n0) (handleSubscribeMessageRequest G q)"
  unfolding handleSubscribeMessageRequest_def NewMessageFromSubscribeMessageResponse_def
  by (rule keeps_sbind [OF keeps_sread], rule keeps_sbind [OF keeps_tracks_Peers_add], rule keeps_tracks_send)
     (simp_all add: carries_no_blocks)

lemma keeps_tracks_handleSubscribeMessageResponse: "keeps (tracks L G xs n0) (handleSubscribeMessageResponse i)"
  unfolding handleSubscribeMessageResponse_def by (intro keeps_sbind keeps_sread keeps_tracks_Peers_add)

lemma keeps_tracks_Subscribe: "keeps (tracks L G xs n0) (Subscribe G leader)"
  unfolding Subscribe_def NewMessageFromSubscribeMessageRequest_def
  by (rule keeps_sbind [OF keeps_sread], rule keeps_tracks_send) (simp_all add: carries_no_blocks)

lemma keeps_tracks_sendStartupStatusRequests: "keeps (tracks L G xs n0) (sendStartupStatusRequests G)"
proof -
  have "keeps (tracks L G xs n0) (sbind (sread (\<lambda>n. message_of G MessageTypeStatusRequest (PStatusRequest (nd_ID n))))
      (broadcast G))" (is "keeps _ ?b")
    by (rule keeps_tracks_broadcast) (simp_all add: carries_no_blocks)
  note b = this
  show ?thesis
  proof (rule keepsI)
    fix n a n'
    assume t: "tracks L G xs n0 n" and r: "sendStartupStatusRequests G n = (a, n')"
    obtain c n1 where 1: "?b n = (c, n1)" by fastforce
    then have "n' = n1"
      using r by (auto simp: sendStartupStatusRequests_def NewMessageFromStatusMessageRequest_def sbind_def sread_def
          split: result.splits prod.splits)
    with keepsD [OF b t 1] show "tracks L G xs n0 n'" by simp
  qed
qed

text \<open>
  A transaction reaches the pool only when it verifies, so its handling advances a node as
  a whole; the chain is the same, and only the transaction is sent.
\<close>

lemma keeps_spreads_same:
  assumes "\<And>n a n'. m n = (a, n') \<Longrightarrow> nd_bc n' = nd_bc n \<and> h_headers (nd_heap n') = h_headers (nd_heap n) \<and>
      nd_sent n' = nd_sent n \<and> nd_key n' = nd_key n"
  shows "keeps (\<lambda>n. spreads G xs n \<and> nd_key n = k) m"
  by (rule keepsI) (use assms spreads_same in metis)

lemma keeps_spreads_on_tx:
  "keeps (\<lambda>n. spreads G xs n \<and> nd_key n = k) (on_world (on_heap (on_tx tr m)))"
  by (rule keeps_spreads_same) (auto simp: szoom_def on_tx_def split: prod.splits)

lemma keeps_spreads_broadcastTx: "keeps (\<lambda>n. spreads G xs n \<and> nd_key n = k) (broadcastTx L G tr)"
proof -
  have "keeps (\<lambda>n. spreads G xs n \<and> nd_key n = k)
      (sbind (sread (\<lambda>n. message_of G MessageTypeTx (PTx (tx_wire (h_txs (nd_heap n) tr))))) (broadcast G))"
  proof (rule keepsI)
    fix n a n'
    assume s: "spreads G xs n \<and> nd_key n = k"
      and r: "sbind (sread (\<lambda>n. message_of G MessageTypeTx (PTx (tx_wire (h_txs (nd_heap n) tr))))) (broadcast G) n = (a, n')"
    let ?p = "PTx (tx_wire (h_txs (nd_heap n) tr))"
    have "carries xs ?p" by (simp add: carries_no_blocks)
    moreover have "sbind (sread (\<lambda>_. message_of G (payload_type ?p) ?p)) (broadcast G) n = (a, n')"
      using r by (simp add: sbind_def sread_def)
    ultimately show "spreads G xs n' \<and> nd_key n' = k" using broadcast_spreads [of G xs n ?p a n'] s by blast
  qed
  then show ?thesis
    unfolding broadcastTx_def NewMessageFromTransaction_of by (rule keeps_sbind [OF keeps_spreads_on_tx])
qed

lemma keeps_spreads_report: "keeps (\<lambda>n. spreads G xs n \<and> nd_key n = k) m \<Longrightarrow>
  keeps (\<lambda>n. spreads G xs n \<and> nd_key n = k) (report f m)"
proof (rule keepsI)
  fix n a n'
  assume m: "keeps (\<lambda>n. spreads G xs n \<and> nd_key n = k) m" and s: "spreads G xs n \<and> nd_key n = k"
    and r: "report f m n = (a, n')"
  obtain b n1 where 1: "m n = (b, n1)" by fastforce
  from keepsD [OF m s 1] r 1 show "spreads G xs n' \<and> nd_key n' = k"
    by (auto simp: report_def spreads_def split: result.splits)
qed

lemma keeps_spreads_handleTransaction:
  "keeps (\<lambda>n. spreads G xs n \<and> nd_key n = k) (handleTransaction L G now tr)"
proof -
  have "keeps (\<lambda>n. spreads G xs n \<and> nd_key n = k) (on_pool (Pool_Add L tr))"
  proof (rule keeps_spreads_same)
    fix n a n'
    assume r: "on_pool (Pool_Add L tr) n = (a, n')"
    then obtain s where s: "Pool_Add L tr (pool_view n) = (a, s)"
      "n' = n\<lparr>nd_world := (nd_world n)\<lparr>w_heap := ps_heap s\<rparr>, nd_pool := ps_pool s\<rparr>"
      by (auto simp: szoom_def split: prod.splits)
    show "nd_bc n' = nd_bc n \<and> h_headers (nd_heap n') = h_headers (nd_heap n) \<and> nd_sent n' = nd_sent n \<and> nd_key n' = nd_key n"
      using quiet_block(3) [OF Pool_Add_quiet [OF s(1)]] by (simp add: s(2) pool_view_def)
  qed
  then show ?thesis
    unfolding handleTransaction_def
    by (intro keeps_sbind [OF keeps_sread] keeps_sbind [OF keeps_spreads_on_tx] keeps_sbind keeps_if keeps_sret
        keeps_spreads_report keeps_spreads_broadcastTx)
qed

lemma handleTransaction_tracks:
  assumes "follows L G xs n" "tr < h_next (nd_heap n)" "handleTransaction L G now tr n = (a, n')"
  shows "tracks L G xs n n'"
  using assms handleTransaction_advances [of L n tr G now a n']
    keepsD [OF keeps_spreads_handleTransaction [of G xs "nd_key n" L now tr] _ assms(3)]
  by (simp add: tracks_def follows_def)

subsection \<open>Messages and turns\<close>

primrec decoded_of_chain :: "header list \<Rightarrow> node \<Rightarrow> decoded \<Rightarrow> bool" where
  "decoded_of_chain xs n (DTransaction r) \<longleftrightarrow> r < h_next (nd_heap n)"
| "decoded_of_chain xs n (DBlock br) \<longleftrightarrow> from_chain xs n br"
| "decoded_of_chain xs n (DGetBlocksResponse brs) \<longleftrightarrow> (\<forall>br \<in> set brs. from_chain xs n br)"
| "decoded_of_chain xs n (DStatusMessageRequest i) \<longleftrightarrow> True"
| "decoded_of_chain xs n (DStatusMessageResponse st) \<longleftrightarrow> True"
| "decoded_of_chain xs n (DSubscribeMessageRequest q) \<longleftrightarrow> True"
| "decoded_of_chain xs n (DSubscribeMessageResponse i) \<longleftrightarrow> True"
| "decoded_of_chain xs n (DGetBlocksRequest q) \<longleftrightarrow> True"
| "decoded_of_chain xs n DOther \<longleftrightarrow> True"

text \<open>New objects in the memory change nothing that a node stores or has sent.\<close>

lemma on_heap_tracks:
  assumes "follows L G xs n" "on_world (on_heap m) n = (a, n')" "advances L n n'"
  shows "tracks L G xs n n'"
proof -
  from assms(2) obtain h where h: "n' = n\<lparr>nd_world := (nd_world n)\<lparr>w_heap := h\<rparr>\<rparr>"
    by (auto simp: szoom_def split: prod.splits)
  have "chain_headers (nd_heap n') (nd_bc n') = chain_headers (nd_heap n) (nd_bc n)"
    using assms(3) by (simp add: advances_def extends_def h)
  then have "spreads G xs n'" using assms(1) unfolding follows_def spreads_def by (simp only:) (simp add: h)
  with assms(3) show ?thesis by (simp add: tracks_def h)
qed

lemma decode_rpc_tracks:
  assumes G: "gob_omits_empty G" and n: "follows L G xs n" and c: "genuine G xs content"
    and d: "decode_rpc G sender content n = (a, n1)"
  shows "tracks L G xs n n1 \<and> (\<forall>d. a = Ok d \<longrightarrow> decoded_of_chain xs n1 d)"
proof (cases "ExtractMessageFromRPC G sender content")
  case (Ok sp)
  obtain s p where x: "ExtractMessageFromRPC G sender content = Ok (s, p)" using Ok by (cases sp) simp
  from genuine_extract [OF G c x] have p: "carries xs p" .
  have ok: "node_ok L n" using n by (simp add: follows_def)
  note adv = decode_rpc_advances [OF ok d]
  have "on_world (on_heap (receive_payload p)) n = (a, n1)" using d x by (simp add: decode_rpc_def sbind_def sread_def)
  with adv have t: "tracks L G xs n n1" using on_heap_tracks [OF n] by blast
  have "decoded_of_chain xs n1 dd" if a: "a = Ok dd" for dd
  proof (cases p)
    case (PTx tx)
    with d x a have "\<exists>r. dd = DTransaction r"
      by (auto simp: decode_rpc_def sbind_def sread_def szoom_def sret_def split: prod.splits result.splits)
    with adv a show ?thesis by auto
  next
    case (PBlock b)
    from decode_block [OF ok] x d PBlock a have "\<exists>r. dd = DBlock r \<and> r < h_next (nd_heap n1) \<and> block_wire_of (nd_heap n1) r = b"
      by fastforce
    with p PBlock show ?thesis by (auto simp: carries_def from_chain_def)
  next
    case (PGetBlocksResponse bs)
    from decode_blocks [OF ok] x d PGetBlocksResponse a obtain rs where "dd = DGetBlocksResponse rs"
      "list_all2 (\<lambda>r b. r < h_next (nd_heap n1) \<and> block_wire_of (nd_heap n1) r = b) rs bs" by fastforce
    with p PGetBlocksResponse show ?thesis
      by (fastforce simp: carries_def from_chain_def list_all2_conv_all_nth in_set_conv_nth)
  qed (use d x a in \<open>auto simp: decode_rpc_def sbind_def sread_def szoom_def sret_def\<close>)
  with t show ?thesis by blast
qed (use d tracks_refl [OF n] in \<open>auto simp: decode_rpc_def sbind_def sread_def\<close>)

lemma ProcessMessage_tracks:
  assumes xs: "heights_ok xs" "length xs \<le> 2 ^ 32" and n: "follows L G xs n" and d: "decoded_of_chain xs n d"
    and r: "ProcessMessage L G now d n = (a, n')"
  shows "tracks L G xs n n'"
proof -
  have ok: "node_ok L n" using n by (simp add: follows_def)
  note by_keeps = keepsD [of "tracks L G xs n" "ProcessMessage L G now d" n a n', OF _ tracks_refl [OF n] r]
  show ?thesis
  proof (cases d)
    case (DTransaction tr)
    with handleTransaction_tracks [OF n] d r show ?thesis by simp
  next
    case (DBlock br)
    with keeps_tracks_handleBlock [OF xs ok] d show ?thesis by (intro by_keeps) simp
  next
    case (DGetBlocksResponse brs)
    with keeps_tracks_handleGetBlocksResponse [OF xs ok] d show ?thesis by (intro by_keeps) simp
  qed (intro by_keeps, simp add: keeps_sret keeps_sfail handleStatusMessageResponse_def keeps_tracks_handleStatusMessageRequest
      keeps_tracks_handleSubscribeMessageRequest keeps_tracks_handleSubscribeMessageResponse
      keeps_tracks_handleGetBlocksRequest)+
qed

lemma report_tracks: "tracks L G xs n n1 \<Longrightarrow> m n0 = (b, n1) \<Longrightarrow> report f m n0 = (a, n') \<Longrightarrow> tracks L G xs n n'"
  using report_advances [of f m n0 a n' L n]
  by (auto simp: report_def tracks_def spreads_def split: result.splits)

lemma tracks_trans: "tracks L G xs n n1 \<Longrightarrow> tracks L G xs n1 n2 \<Longrightarrow> tracks L G xs n n2"
  unfolding tracks_def using advances_trans by metis

lemma process_rpc_tracks:
  assumes G: "gob_omits_empty G" and xs: "heights_ok xs" "length xs \<le> 2 ^ 32" and n: "follows L G xs n"
    and c: "genuine G xs content" and r: "process_rpc L G now sender content n = (a, n')"
  shows "tracks L G xs n n'"
proof -
  obtain b n1 where d: "decode_rpc G sender content n = (b, n1)" by fastforce
  from decode_rpc_tracks [OF G n c d] have t: "tracks L G xs n n1" and known: "\<And>d. b = Ok d \<Longrightarrow> decoded_of_chain xs n1 d"
    by blast+
  show ?thesis
  proof (cases b)
    case (Ok dd)
    obtain e n2 where m: "ProcessMessage L G now dd n1 = (e, n2)" by fastforce
    have "tracks L G xs n n2"
      by (rule tracks_trans [OF t ProcessMessage_tracks [OF xs tracks_follows [OF t] known [OF Ok] m]])
    from report_tracks [of L G xs n n2 "ProcessMessage L G now dd" n1 e, OF this m] r d Ok show ?thesis by (simp add: process_rpc_def)
  next
    case (Err e)
    have "sfail e n1 = (Err e :: unit result, n1)" by (simp add: sfail_def)
    from report_tracks [of L G xs n n1 "sfail e" n1 "Err e", OF t this] r d Err show ?thesis by (simp add: process_rpc_def)
  qed (use r d t in \<open>simp add: process_rpc_def\<close>)
qed

lemma process_api_tx_tracks:
  assumes n: "follows L G xs n" and r: "process_api_tx L G now t n = (a, n')"
  shows "tracks L G xs n n'"
proof -
  obtain b n1 where m: "on_world (on_heap (receive_tx t)) n = (b, n1)" by fastforce
  then obtain h1 where "receive_tx t (nd_heap n) = (b, h1)" "nd_heap n1 = h1" by (auto simp: szoom_def split: prod.splits)
  with receive_tx_spec [of t "nd_heap n" b h1 L] obtain tr where tr: "b = Ok tr" "tr < h_next (nd_heap n1)" by blast
  have "node_ok L n" using n by (simp add: follows_def)
  then have "advances L n n1" by (rule on_heap_advances [OF _ m]) (use receive_tx_spec in blast)
  with on_heap_tracks [OF n m] have t1: "tracks L G xs n n1" by blast
  obtain e n2 where h: "handleTransaction L G now tr n1 = (e, n2)" by fastforce
  have "tracks L G xs n n2" by (rule tracks_trans [OF t1 handleTransaction_tracks [OF tracks_follows [OF t1] tr(2) h]])
  from report_tracks [of L G xs n n2 "handleTransaction L G now tr" n1 e, OF this h] r m tr(1) show ?thesis by (simp add: process_api_tx_def sbind_def)
qed

subsection \<open>A turn of the producer\<close>

text \<open>
  The producer's own chain is the one that the others follow: after its turn, what it has
  sent is of its new chain.
\<close>

lemma advances_prefix:
  "advances L n n' \<Longrightarrow> prefix (chain_headers (nd_heap n) (nd_bc n)) (chain_headers (nd_heap n') (nd_bc n'))"
proof -
  assume "advances L n n'"
  then obtain new where "chain_headers (nd_heap n') (nd_bc n') = chain_headers (nd_heap n) (nd_bc n) @ new"
    by (auto simp: advances_def extends_def)
  then show ?thesis by simp
qed

lemma AddBlock_Ok_of_chain:
  assumes "world_ok L w" "AddBlock L br w = (Ok (), w')"
  shows "br < h_next (w_heap w') \<and> of_chain (chain_headers (w_heap w') (w_bc w')) (block_wire_of (w_heap w') br)"
  using world_okD(1) [OF assms(1)] assms(2)
proof (cases rule: AddBlock_cases)
  case (added hr bh cs)
  have hr: "blk_Header (h_blocks (w_heap w) br) = Some hr" using added(2) by (simp add: storable_def)
  have "br < h_next (w_heap w)" using heap_closed_header [OF world_okD(2) [OF assms(1)] hr] by simp
  moreover have "h_next (w_heap w') = h_next (w_heap w)" using added(7) by (simp add: quiet_def)
  moreover have "hr \<in> set (chain_refs (w_bc w'))" by (simp add: added(8) stored_def)
  ultimately show ?thesis
    using quiet_block [OF added(7)] hr by (auto simp: of_chain_def block_wire_of_def Let_def)
qed simp

lemma proposeBlock_result:
  assumes ok: "node_ok L n" and p: "proposeBlock L now rnd n = (a, n')"
  shows "nd_sent n' = nd_sent n \<and> nd_key n' = nd_key n \<and> advances L n n' \<and>
    (\<forall>br. a = Ok br \<longrightarrow> br < h_next (nd_heap n') \<and> of_chain (chain_headers (nd_heap n') (nd_bc n')) (block_wire_of (nd_heap n') br))"
proof (cases "GetHeader (nd_bc n) (Chain_Height (nd_bc n))")
  case tip: (Ok tip)
  have adv: "advances L n n'" by (rule keepsD [OF keeps_proposeBlock advances_refl [OF ok] p])
  let ?build = "buildBlock L now rnd (nd_key n) (h_headers (nd_heap n) tip) (Pool_Pending (nd_pool n))"
  have lt: "\<forall>r \<in> set (Pool_Pending (nd_pool n)). r < h_next (nd_heap n)"
    using ok by (simp add: node_ok_def pool_good_def) (simp add: pool_view_def pool_items_def)
  obtain b h where build: "?build (nd_heap n) = (b, h)" by fastforce
  define n1 where "n1 = n\<lparr>nd_world := (nd_world n)\<lparr>w_heap := h\<rparr>\<rparr>"
  have b: "on_world (on_heap ?build) n = (b, n1)" by (simp add: szoom_def build n1_def)
  have w1: "world_ok L (nd_world n1)"
    using on_heap_advances [OF ok b] buildBlock_grows [OF _ lt] by (simp add: advances_def node_ok_def)
  note p = p [unfolded proposeBlock_builds tip result.case]
  show ?thesis
  proof (cases b)
    case (Ok br)
    obtain c w where add: "AddBlock L br (nd_world n1) = (c, w)" by fastforce
    then have "on_world (AddBlock L br) n1 = (c, n1\<lparr>nd_world := w\<rparr>)" by (simp add: szoom_def)
    with p b Ok have n': "n' = n1\<lparr>nd_world := w\<rparr> \<and> (\<forall>br'. a = Ok br' \<longrightarrow> c = Ok () \<and> br' = br)"
      by (cases c) (auto simp: sbind_def sret_def)
    then show ?thesis using adv AddBlock_Ok_of_chain [OF w1, of br w] add by (auto simp: n1_def)
  qed (use p b adv in \<open>auto simp: sbind_def n1_def\<close>)
qed (use p advances_refl [OF ok] in \<open>auto simp: proposeBlock_builds\<close>)

lemma announceBlock_tracks:
  assumes n: "follows L G (chain_headers (nd_heap n) (nd_bc n)) n"
    and r: "report (\<lambda>e. e) (announceBlock L G now rnd) n = (a, n')"
  shows "tracks L G (chain_headers (nd_heap n') (nd_bc n')) n n' \<and>
    prefix (chain_headers (nd_heap n) (nd_bc n)) (chain_headers (nd_heap n') (nd_bc n'))"
proof -
  let ?xs = "\<lambda>n. chain_headers (nd_heap n) (nd_bc n)"
  have ok: "node_ok L n" using n by (simp add: follows_def)
  obtain b n1 where 1: "proposeBlock L now rnd n = (b, n1)" by fastforce
  note p = proposeBlock_result [OF ok 1]
  have pre: "prefix (?xs n) (?xs n1)"
    using p advances_prefix by blast
  have sub: "set (?xs n) \<subseteq> set (?xs n1)" by (rule set_mono_prefix [OF pre])
  have s1: "spreads G (?xs n1) n1"
    using p n genuine_mono [OF _ sub] by (auto simp: spreads_def follows_def)
  then have t: "tracks L G (?xs n1) n n1" using p by (simp add: tracks_def)
  have ok1: "node_ok L n1" using p by (simp add: advances_def)
  obtain c n2 where 2: "announceBlock L G now rnd n = (c, n2)" by fastforce
  have t2: "tracks L G (?xs n1) n n2 \<and> ?xs n2 = ?xs n1"
  proof (cases b)
    case (Ok br)
    then have fr: "from_chain (?xs n1) n1 br" using p by (simp add: from_chain_def)
    obtain d m where m: "broadcastBlock L G br n1 = (d, m)" by fastforce
    have m1: "tracks L G (?xs n1) n1 m"
      by (rule keepsD [OF keeps_tracks_broadcastBlock [OF ok1 fr] tracks_refl m])
         (use s1 ok1 in \<open>simp add: follows_def\<close>)
    have rep: "report (\<lambda>e. e) (broadcastBlock L G br) n1 = (c, n2)" using 1 2 Ok by (simp add: announceBlock_def sbind_def)
    have tr: "tracks L G (?xs n1) n1 n2" by (rule report_tracks [OF m1 m rep])
    have "prefix (?xs n1) (?xs n2)" using tr advances_prefix unfolding tracks_def by blast
    moreover have "prefix (?xs n2) (?xs n1)" using tr by (simp add: tracks_def spreads_def)
    ultimately have "?xs n2 = ?xs n1" by (simp add: prefix_order.eq_iff)
    with tracks_trans [OF t tr] show ?thesis by blast
  qed (use 1 2 t in \<open>simp_all add: announceBlock_def sbind_def\<close>)
  have "?xs n' = ?xs n2" using r 2 by (auto simp: report_def split: result.splits)
  with report_tracks [OF conjunct1 [OF t2] 2 r] t2 pre show ?thesis by simp
qed

lemma clearPending_tracks: "follows L G xs n \<Longrightarrow> clearPending n = (a, n') \<Longrightarrow> tracks L G xs n n'"
  using keepsD [OF keeps_clearPending advances_refl, of L n a n']
  by (auto simp: tracks_def follows_def spreads_def clearPending_def smodify_def)

end
