(* ===== verification/Server_Cluster.thy ===== *)
theory Server_Cluster
  imports Server_Spread Server_Net
begin

section \<open>Runs of several nodes\<close>

text \<open>
  The program that \<^verbatim>\<open>main.go\<close> starts: several nodes in one process, each with a local
  transport. The state has the nodes, their transports, and the goroutines that are in the
  loop of a \<^verbatim>\<open>Broadcast\<close>. A step is a handler of one node on the first message of its
  channel, a transaction over HTTP, one half of a turn of a block producer, a subscription,
  a connection, or one send of a transport; they come in any order. What a node hands to its
  transport waits in the node until the transport takes it. A panic ends the program, so
  only steps without one go on.
\<close>

record sending =
  sn_keys :: "string list"
  sn_data :: bytes

text \<open>There are \<open>cl_size\<close> nodes, on the transports with the same numbers.\<close>

record cluster =
  cl_size :: nat
  cl_node :: "nat \<Rightarrow> node"
  cl_net :: network
  cl_loops :: "nat \<Rightarrow> sending list"

text \<open>A node finds the connections of its transport.\<close>

definition node_of :: "cluster \<Rightarrow> nat \<Rightarrow> node" where
  "node_of c i = (cl_node c i)\<lparr>nd_conns := (\<lambda>a. Local_Get i a (cl_net c))\<rparr>"

abbreviation set_node :: "nat \<Rightarrow> node \<Rightarrow> cluster \<Rightarrow> cluster" where
  "set_node i n c \<equiv> c\<lparr>cl_node := (cl_node c)(i := n)\<rparr>"

abbreviation set_sent :: "nat \<Rightarrow> outgoing list \<Rightarrow> cluster \<Rightarrow> cluster" where
  "set_sent i outs c \<equiv> set_node i ((cl_node c i)\<lparr>nd_sent := outs\<rparr>) c"

inductive cluster_step :: "lib \<Rightarrow> gob \<Rightarrow> cluster \<Rightarrow> cluster \<Rightarrow> bool" for L G where
  received: "i < cl_size c \<Longrightarrow> Local_Recv i (cl_net c) = Some ((sender, content), N) \<Longrightarrow>
    process_rpc L G now sender content (node_of c i) = (Ok (), n) \<Longrightarrow>
    cluster_step L G c (set_node i n (c\<lparr>cl_net := N\<rparr>))"
| received_api: "i < cl_size c \<Longrightarrow> process_api_tx L G now t (node_of c i) = (Ok (), n) \<Longrightarrow> cluster_step L G c (set_node i n c)"
| proposed: "i < cl_size c \<Longrightarrow> isValidator (cl_node c i) \<Longrightarrow> report (\<lambda>e. e) (announceBlock L G stamp rnd) (node_of c i) = (Ok (), n) \<Longrightarrow>
    cluster_step L G c (set_node i n c)"
| cleared: "i < cl_size c \<Longrightarrow> isValidator (cl_node c i) \<Longrightarrow> clearPending (node_of c i) = (Ok (), n) \<Longrightarrow> cluster_step L G c (set_node i n c)"
| subscribed: "i < cl_size c \<Longrightarrow> Subscribe G leader (node_of c i) = (r, n) \<Longrightarrow> \<forall>p. r \<noteq> Panic p \<Longrightarrow> cluster_step L G c (set_node i n c)"
| asked_status: "i < cl_size c \<Longrightarrow> sendStartupStatusRequests G (node_of c i) = (Ok (), n) \<Longrightarrow> cluster_step L G c (set_node i n c)"
| connected: "i < cl_size c \<Longrightarrow> Server_Connect i js (cl_net c) = Some (r, N) \<Longrightarrow> cluster_step L G c (c\<lparr>cl_net := N\<rparr>)"
| sent: "i < cl_size c \<Longrightarrow> nd_sent (cl_node c i) = before @ OutSend a data # after \<Longrightarrow>
    Local_Send i (LocalAddr a) data (cl_net c) = (r, N) \<Longrightarrow> \<forall>p. r \<noteq> Panic p \<Longrightarrow>
    cluster_step L G c (set_sent i (before @ after) (c\<lparr>cl_net := N\<rparr>))"
| broadcast: "i < cl_size c \<Longrightarrow> nd_sent (cl_node c i) = before @ OutBroadcast data # after \<Longrightarrow>
    distinct keys \<Longrightarrow> set keys = dom (lt_peers (cl_net c i)) \<Longrightarrow>
    cluster_step L G c (set_sent i (before @ after)
      (c\<lparr>cl_loops := (cl_loops c)(i := \<lparr>sn_keys = keys, sn_data = data\<rparr> # cl_loops c i)\<rparr>))"
| looped: "i < cl_size c \<Longrightarrow> cl_loops c i = before @ \<lparr>sn_keys = k # keys, sn_data = data\<rparr> # after \<Longrightarrow>
    Local_Broadcast i [k] data (cl_net c) = (Ok (), N) \<Longrightarrow>
    cluster_step L G c (c\<lparr>cl_net := N,
      cl_loops := (cl_loops c)(i := before @ \<lparr>sn_keys = keys, sn_data = data\<rparr> # after)\<rparr>)"

abbreviation cluster_run :: "lib \<Rightarrow> gob \<Rightarrow> cluster \<Rightarrow> cluster \<Rightarrow> bool" where
  "cluster_run L G \<equiv> (cluster_step L G)\<^sup>*\<^sup>*"

text \<open>
  The start: every node has been made by \<^verbatim>\<open>NewServer\<close> without a chain of its own, on a
  transport that has just been made, and the transports have different addresses.
\<close>

definition new_node :: "lib \<Rightarrow> string \<Rightarrow> node \<Rightarrow> bool" where
  "new_node L addr n \<longleftrightarrow> (\<exists>rand_id opts h. heap_closed h \<and> heap_ok L h \<and> so_Blockchain opts = None \<and>
     so_addr opts = addr \<and> NewServer L rand_id opts h = Ok n)"

definition cluster_start :: "lib \<Rightarrow> cluster \<Rightarrow> bool" where
  "cluster_start L c \<longleftrightarrow> (\<forall>i < cl_size c. new_node L (addr_String (lt_addr (cl_net c i))) (cl_node c i)) \<and>
     (\<forall>i. \<exists>a. cl_net c i = NewLocalTransport (LocalAddr a)) \<and> inj (\<lambda>i. lt_addr (cl_net c i)) \<and>
     (\<forall>i. cl_loops c i = [])"

abbreviation headers_at :: "cluster \<Rightarrow> nat \<Rightarrow> header list" where
  "headers_at c i \<equiv> chain_headers (nd_heap (cl_node c i)) (nd_bc (cl_node c i))"

subsection \<open>The messages on their way\<close>

definition inboxes_genuine :: "gob \<Rightarrow> header list \<Rightarrow> network \<Rightarrow> bool" where
  "inboxes_genuine G xs N \<longleftrightarrow> (\<forall>i. \<forall>(sender, data) \<in> set (lt_recvCh (N i)). genuine G xs data)"

definition loops_genuine :: "gob \<Rightarrow> header list \<Rightarrow> (nat \<Rightarrow> sending list) \<Rightarrow> bool" where
  "loops_genuine G xs loops \<longleftrightarrow> (\<forall>i. \<forall>s \<in> set (loops i). genuine G xs (sn_data s))"

text \<open>What a transport does to the network: it appends to a channel, or nothing.\<close>

definition channels_only :: "network \<Rightarrow> network \<Rightarrow> bool" where
  "channels_only N N' \<longleftrightarrow> (\<forall>k. lt_addr (N' k) = lt_addr (N k) \<and> lt_peers (N' k) = lt_peers (N k))"

lemma channels_only_ok: "channels_only N N' \<Longrightarrow> network_ok N \<Longrightarrow> network_ok N'"
  unfolding channels_only_def network_ok_def by simp

lemma Local_Send_network:
  assumes "Local_Send i a data N = (r, N')"
  shows "channels_only N N' \<and> (inboxes_genuine G xs N \<longrightarrow> genuine G xs data \<longrightarrow> inboxes_genuine G xs N')"
  using assms
  by (fastforce simp: Local_Send_def channels_only_def inboxes_genuine_def split: result.splits option.splits if_splits)

lemma Local_Broadcast_network:
  assumes "Local_Broadcast i [k] data N = (r, N')"
  shows "channels_only N N' \<and> (inboxes_genuine G xs N \<longrightarrow> genuine G xs data \<longrightarrow> inboxes_genuine G xs N')"
proof (cases "lt_peers (N i) k")
  case (Some j)
  obtain s M where s: "Local_Send i (lt_addr (N j)) data N = (s, M)" by fastforce
  with assms Some have "N' = M" by (auto simp: sret_def split: result.splits)
  with Local_Send_network [OF s] show ?thesis by blast
qed (use assms in \<open>simp add: sret_def channels_only_def\<close>)

lemma Local_Recv_network:
  assumes "Local_Recv i N = Some ((s, data), N')"
  shows "channels_only N N' \<and> (inboxes_genuine G xs N \<longrightarrow> genuine G xs data \<and> inboxes_genuine G xs N')"
proof -
  from assms obtain ms where ms: "lt_recvCh (N i) = (s, data) # ms" "N' = N(i := (N i)\<lparr>lt_recvCh := ms\<rparr>)"
    by (auto simp: Local_Recv_def split: list.splits)
  show ?thesis
  proof (intro conjI impI)
    show "channels_only N N'" by (simp add: channels_only_def ms(2))
    assume g: "inboxes_genuine G xs N"
    then have i: "\<forall>(sender, data) \<in> set (lt_recvCh (N i)). genuine G xs data" by (simp add: inboxes_genuine_def)
    then show "genuine G xs data" by (simp add: ms(1))
    show "inboxes_genuine G xs N'" using g i by (simp add: inboxes_genuine_def ms)
  qed
qed

lemma Server_Connect_network:
  "network_ok N \<Longrightarrow> Server_Connect i js N = Some (r, N') \<Longrightarrow>
   network_ok N' \<and> (\<forall>k. lt_recvCh (N' k) = lt_recvCh (N k) \<and> lt_addr (N' k) = lt_addr (N k))"
proof (induction js arbitrary: N)
  case (Cons j js)
  show ?case
  proof (cases "lt_addr (N i) = lt_addr (N j)")
    case True
    with Cons show ?thesis by simp
  next
    case False
    define M where "M = (if lt_peers (N i) (addr_String (lt_addr (N j))) \<noteq> None then N else with_peer j i (with_peer i j N))"
    have M: "Local_Connect i j N = Some (Ok (), M)" unfolding M_def by (rule Local_Connect_ok [OF Cons.prems(1)])
    have "network_ok M" using Cons.prems(1) with_peers_ok [OF Cons.prems(1)] by (simp add: M_def)
    moreover have "Server_Connect i js M = Some (r, N')" using Cons.prems(2) False M by simp
    ultimately have "network_ok N' \<and> (\<forall>k. lt_recvCh (N' k) = lt_recvCh (M k) \<and> lt_addr (N' k) = lt_addr (M k))"
      by (rule Cons.IH)
    then show ?thesis by (simp add: M_def)
  qed
qed simp

subsection \<open>The invariant of a run\<close>

text \<open>
  With one producer \<open>v\<close>: every node follows its chain, every message on its way is of its
  chain, and no other node produces blocks.
\<close>

definition cluster_inv :: "lib \<Rightarrow> gob \<Rightarrow> nat \<Rightarrow> cluster \<Rightarrow> bool" where
  "cluster_inv L G v c \<longleftrightarrow> v < cl_size c \<and> network_ok (cl_net c) \<and> (\<forall>i < cl_size c. follows L G (headers_at c v) (cl_node c i)) \<and>
     inboxes_genuine G (headers_at c v) (cl_net c) \<and> loops_genuine G (headers_at c v) (cl_loops c) \<and>
     (\<forall>i < cl_size c. isValidator (cl_node c i) \<longrightarrow> i = v)"

lemma follows_mono: "follows L G xs n \<Longrightarrow> prefix xs ys \<Longrightarrow> follows L G ys n"
  unfolding follows_def spreads_def using genuine_mono set_mono_prefix prefix_order.trans by metis

lemma inboxes_mono: "inboxes_genuine G xs N \<Longrightarrow> prefix xs ys \<Longrightarrow> inboxes_genuine G ys N"
  unfolding inboxes_genuine_def using genuine_mono [OF _ set_mono_prefix] by fastforce

lemma loops_mono: "loops_genuine G xs loops \<Longrightarrow> prefix xs ys \<Longrightarrow> loops_genuine G ys loops"
  unfolding loops_genuine_def using genuine_mono [OF _ set_mono_prefix] by blast

lemma follows_core:
  "follows L G xs n \<Longrightarrow> nd_world n' = nd_world n \<Longrightarrow> nd_pool n' = nd_pool n \<Longrightarrow> set (nd_sent n') \<subseteq> set (nd_sent n) \<Longrightarrow>
   follows L G xs n'"
  by (auto simp: follows_def spreads_def node_ok_def pool_view_def)

lemma cluster_invD:
  assumes "cluster_inv L G v c"
  shows "i < cl_size c \<Longrightarrow> follows L G (headers_at c v) (node_of c i)" "heights_ok (headers_at c v)" "length (headers_at c v) \<le> 2 ^ 32"
    "network_ok (cl_net c)" "inboxes_genuine G (headers_at c v) (cl_net c)" "loops_genuine G (headers_at c v) (cl_loops c)"
    "i < cl_size c \<Longrightarrow> out \<in> set (nd_sent (cl_node c i)) \<Longrightarrow> genuine G (headers_at c v) (out_data out)"
proof -
  have f: "follows L G (headers_at c v) (cl_node c j)" if "j < cl_size c" for j using assms that by (simp add: cluster_inv_def)
  then show "follows L G (headers_at c v) (node_of c i)" if "i < cl_size c"
    by (rule follows_core) (use that in \<open>auto simp: node_of_def\<close>)
  have "chain_ok L (nd_world (cl_node c v))" using f [of v] assms by (simp add: follows_def node_okD(1) cluster_inv_def)
  then show "heights_ok (headers_at c v)" "length (headers_at c v) \<le> 2 ^ 32" by (simp_all add: chain_ok_def chain_pre_def)
  show "i < cl_size c \<Longrightarrow> out \<in> set (nd_sent (cl_node c i)) \<Longrightarrow> genuine G (headers_at c v) (out_data out)"
    using f [of i] by (simp add: follows_def spreads_def)
qed (use assms in \<open>simp_all add: cluster_inv_def\<close>)

text \<open>A node changes, and the chain of the producer may grow.\<close>

lemma cluster_inv_node:
  assumes inv: "cluster_inv L G v c" and n: "follows L G ys n" "nd_key n = nd_key (cl_node c i)"
    and ys: "prefix (headers_at c v) ys" "if i = v then chain_headers (nd_heap n) (nd_bc n) = ys else ys = headers_at c v"
  shows "cluster_inv L G v (set_node i n c)"
proof -
  have h: "headers_at (set_node i n c) v = ys" using ys(2) by (auto split: if_splits)
  have "follows L G ys (cl_node c j)" if "j < cl_size c" for j using that inv follows_mono [OF _ ys(1)] by (simp add: cluster_inv_def)
  moreover have "isValidator n = isValidator (cl_node c i)" using n(2) by (simp add: isValidator_def)
  ultimately show ?thesis
    using inv n(1) inboxes_mono [OF _ ys(1)] loops_mono [OF _ ys(1)] unfolding cluster_inv_def h by simp
qed

lemma cluster_inv_tracks:
  assumes inv: "cluster_inv L G v c" and t: "tracks L G (headers_at c v) (node_of c i) n"
  shows "cluster_inv L G v (set_node i n c)"
proof (rule cluster_inv_node [OF inv tracks_follows [OF t]])
  show "nd_key n = nd_key (cl_node c i)" using t by (simp add: tracks_def node_of_def)
  have 1: "prefix (headers_at c i) (chain_headers (nd_heap n) (nd_bc n))"
    using t advances_prefix [of L "node_of c i" n] by (simp add: tracks_def) (simp add: node_of_def)
  have 2: "prefix (chain_headers (nd_heap n) (nd_bc n)) (headers_at c v)" using t by (simp add: tracks_def spreads_def)
  show "if i = v then chain_headers (nd_heap n) (nd_bc n) = headers_at c v else headers_at c v = headers_at c v"
    using prefix_order.antisym [OF 2] 1 by (cases "i = v") simp_all
qed simp

lemma cluster_inv_net:
  assumes "cluster_inv L G v c" "network_ok N" "inboxes_genuine G (headers_at c v) N"
  shows "cluster_inv L G v (c\<lparr>cl_net := N\<rparr>)"
  using assms by (simp add: cluster_inv_def)

lemma cluster_inv_sent:
  assumes "cluster_inv L G v c" "i < cl_size c" "set outs \<subseteq> set (nd_sent (cl_node c i))"
  shows "cluster_inv L G v (set_sent i outs c)"
proof (rule cluster_inv_node [OF assms(1)])
  have "follows L G (headers_at c v) (cl_node c i)" using assms(1,2) by (simp add: cluster_inv_def)
  then show "follows L G (headers_at c v) ((cl_node c i)\<lparr>nd_sent := outs\<rparr>)"
    by (rule follows_core) (use assms(3) in simp_all)
qed simp_all

lemma cluster_inv_loops:
  assumes "cluster_inv L G v c" "\<forall>s \<in> set loops. genuine G (headers_at c v) (sn_data s)"
  shows "cluster_inv L G v (c\<lparr>cl_loops := (cl_loops c)(i := loops)\<rparr>)"
  using assms by (simp add: cluster_inv_def loops_genuine_def)

lemma received_inv:
  assumes inv: "cluster_inv L G v c" and "gob_omits_empty G" "i < cl_size c" "Local_Recv i (cl_net c) = Some ((sender, content), N)"
    and "process_rpc L G now sender content (node_of c i) = (Ok (), n)"
  shows "cluster_inv L G v (set_node i n (c\<lparr>cl_net := N\<rparr>))"
proof -
  note d = cluster_invD [OF inv] and n = cluster_invD(1) [OF inv assms(3)]
  note net = Local_Recv_network [OF assms(4), of G "headers_at c v"]
  have "tracks L G (headers_at c v) (node_of c i) n"
    by (rule process_rpc_tracks [OF assms(2) d(2,3) n _ assms(5)]) (use net d(5) in blast)
  moreover have "node_of (c\<lparr>cl_net := N\<rparr>) i = node_of c i"
    using net by (simp add: node_of_def Local_Get_def channels_only_def cong: option.case_cong)
  moreover have "cluster_inv L G v (c\<lparr>cl_net := N\<rparr>)"
    by (rule cluster_inv_net [OF inv]) (use net d(4,5) channels_only_ok in blast)+
  from cluster_inv_tracks [OF this, of i n] calculation show ?thesis by simp
qed

lemma proposed_inv:
  assumes inv: "cluster_inv L G v c" and "i < cl_size c" "isValidator (cl_node c i)"
    and r: "report (\<lambda>e. e) (announceBlock L G stamp rnd) (node_of c i) = (Ok (), n)"
  shows "cluster_inv L G v (set_node i n c)"
proof -
  have i: "i = v" using assms(2,3) inv by (simp add: cluster_inv_def)
  have h: "chain_headers (nd_heap (node_of c v)) (nd_bc (node_of c v)) = headers_at c v" by (simp add: node_of_def)
  have "follows L G (chain_headers (nd_heap (node_of c v)) (nd_bc (node_of c v))) (node_of c v)"
    unfolding h by (rule cluster_invD(1) [OF inv]) (use assms(2) i in simp)
  from announceBlock_tracks [OF this r [unfolded i], unfolded h] have
    t: "tracks L G (chain_headers (nd_heap n) (nd_bc n)) (node_of c v) n" "prefix (headers_at c v) (chain_headers (nd_heap n) (nd_bc n))"
    by blast+
  have "nd_key n = nd_key (cl_node c v)" using t(1) by (simp add: tracks_def node_of_def)
  from cluster_inv_node [OF inv tracks_follows [OF t(1)] this t(2)] show ?thesis unfolding i by simp
qed

lemma sent_inv:
  assumes inv: "cluster_inv L G v c" and "i < cl_size c" "nd_sent (cl_node c i) = before @ OutSend a data # after"
    and "Local_Send i (LocalAddr a) data (cl_net c) = (r, N)"
  shows "cluster_inv L G v (set_sent i (before @ after) (c\<lparr>cl_net := N\<rparr>))"
proof -
  note d = cluster_invD [OF inv]
  have "genuine G (headers_at c v) data" using d(7) [of i "OutSend a data"] assms(2,3) by simp
  with Local_Send_network [OF assms(4), of G "headers_at c v"] d(4,5) have N: "network_ok N" "inboxes_genuine G (headers_at c v) N"
    using channels_only_ok by blast+
  have "set (before @ after) \<subseteq> set (nd_sent (cl_node (c\<lparr>cl_net := N\<rparr>) i))" using assms(3) by auto
  from cluster_inv_sent [OF cluster_inv_net [OF inv N] _ this] assms(2) show ?thesis by simp
qed

lemma broadcast_inv:
  assumes inv: "cluster_inv L G v c" and "i < cl_size c" "nd_sent (cl_node c i) = before @ OutBroadcast data # after"
  shows "cluster_inv L G v (set_sent i (before @ after)
    (c\<lparr>cl_loops := (cl_loops c)(i := \<lparr>sn_keys = keys, sn_data = data\<rparr> # cl_loops c i)\<rparr>))"
proof -
  note d = cluster_invD [OF inv]
  have "genuine G (headers_at c v) data" using d(7) [of i "OutBroadcast data"] assms(2,3) by simp
  then have "\<forall>s \<in> set (\<lparr>sn_keys = keys, sn_data = data\<rparr> # cl_loops c i). genuine G (headers_at c v) (sn_data s)"
    using d(6) by (simp add: loops_genuine_def)
  note loops = cluster_inv_loops [OF inv this, of i]
  have "set (before @ after) \<subseteq> set (nd_sent (cl_node c i))" using assms(3) by auto
  with cluster_inv_sent [OF loops, of i "before @ after"] assms(2) show ?thesis by simp
qed

lemma looped_inv:
  assumes inv: "cluster_inv L G v c" and "cl_loops c i = before @ \<lparr>sn_keys = k # keys, sn_data = data\<rparr> # after"
    and "Local_Broadcast i [k] data (cl_net c) = (Ok (), N)"
  shows "cluster_inv L G v (c\<lparr>cl_net := N, cl_loops := (cl_loops c)(i := before @ \<lparr>sn_keys = keys, sn_data = data\<rparr> # after)\<rparr>)"
proof -
  note d = cluster_invD [OF inv]
  have g: "genuine G (headers_at c v) (sn_data s)" if "s \<in> set (cl_loops c i)" for s
    using d(6) that by (simp add: loops_genuine_def)
  have "genuine G (headers_at c v) data" using g [of "\<lparr>sn_keys = k # keys, sn_data = data\<rparr>"] assms(2) by simp
  with Local_Broadcast_network [OF assms(3), of G "headers_at c v"] d(4,5) have N: "network_ok N" "inboxes_genuine G (headers_at c v) N"
    using channels_only_ok by blast+
  have "\<forall>s \<in> set (before @ \<lparr>sn_keys = keys, sn_data = data\<rparr> # after). genuine G (headers_at (c\<lparr>cl_net := N\<rparr>) v) (sn_data s)"
    using g assms(2) \<open>genuine G (headers_at c v) data\<close> by auto
  from cluster_inv_loops [OF cluster_inv_net [OF inv N] this] show ?thesis by simp
qed

lemma cluster_step_inv:
  assumes "cluster_step L G c c'" "gob_omits_empty G" "cluster_inv L G v c"
  shows "cluster_inv L G v c'"
  using assms(1)
proof cases
  case (received i sender content N now n)
  show ?thesis unfolding received(1) by (rule received_inv [OF assms(3,2) received(2-4)])
next
  case (received_api i now t n)
  then show ?thesis using cluster_inv_tracks [OF assms(3) process_api_tx_tracks [OF cluster_invD(1) [OF assms(3) received_api(2)]]] by blast
next
  case (proposed i stamp rnd n)
  show ?thesis unfolding proposed(1) by (rule proposed_inv [OF assms(3) proposed(2-4)])
next
  case (cleared i n)
  then show ?thesis using cluster_inv_tracks [OF assms(3) clearPending_tracks [OF cluster_invD(1) [OF assms(3) cleared(2)]]] by blast
next
  case (subscribed i leader r n)
  have "tracks L G (headers_at c v) (node_of c i) n"
    by (rule keepsD [OF keeps_tracks_Subscribe tracks_refl [OF cluster_invD(1) [OF assms(3) subscribed(2)]] subscribed(3)])
  then show ?thesis unfolding subscribed(1) by (rule cluster_inv_tracks [OF assms(3)])
next
  case (asked_status i n)
  have "tracks L G (headers_at c v) (node_of c i) n"
    by (rule keepsD [OF keeps_tracks_sendStartupStatusRequests tracks_refl [OF cluster_invD(1) [OF assms(3) asked_status(2)]] asked_status(3)])
  then show ?thesis unfolding asked_status(1) by (rule cluster_inv_tracks [OF assms(3)])
next
  case (connected i js r N)
  from Server_Connect_network [OF cluster_invD(4) [OF assms(3)] connected(3)] cluster_invD(5) [OF assms(3)]
  show ?thesis unfolding connected(1) by (intro cluster_inv_net [OF assms(3)]) (simp_all add: inboxes_genuine_def)
next
  case (sent i before a data after r N)
  show ?thesis unfolding sent(1) by (rule sent_inv [OF assms(3) sent(2-4)])
next
  case (broadcast i before data after keys)
  show ?thesis unfolding broadcast(1) by (rule broadcast_inv [OF assms(3) broadcast(2,3)])
next
  case (looped i before k keys data after N)
  show ?thesis unfolding looped(1) by (rule looped_inv [OF assms(3) looped(3,4)])
qed

text \<open>The start.\<close>

lemma new_node_ok:
  assumes "gob_total L" "new_node L addr n"
  shows "node_ok L n" "chain_headers (nd_heap n) (nd_bc n) = [genesis]" "nd_sent n = []" "nd_addr n = addr"
proof -
  from assms(2) obtain rid opts h where h: "heap_closed h" "heap_ok L h" "so_Blockchain opts = None" "so_addr opts = addr"
    "NewServer L rid opts h = Ok n" unfolding new_node_def by blast
  from NewServer_ok [OF assms(1) h(1-3), of rid] h(4,5)
  show "node_ok L n" "chain_headers (nd_heap n) (nd_bc n) = [genesis]" "nd_addr n = addr" by auto
  show "nd_sent n = []" using h(5) by (auto simp: NewServer_def Let_def split: option.splits result.splits prod.splits)
qed

lemma cluster_start_inv:
  assumes "gob_total L" "cluster_start L c" "v < cl_size c" "\<And>i. i < cl_size c \<Longrightarrow> isValidator (cl_node c i) \<Longrightarrow> i = v"
  shows "cluster_inv L G v c"
proof -
  have new: "new_node L (addr_String (lt_addr (cl_net c i))) (cl_node c i)" if "i < cl_size c" for i using that assms(2) by (simp add: cluster_start_def)
  note n = new_node_ok [OF assms(1) new]
  have net: "lt_peers (cl_net c i) = Map.empty \<and> lt_recvCh (cl_net c i) = [] \<and> (\<exists>a. lt_addr (cl_net c i) = LocalAddr a)" for i
    using assms(2) by (simp add: cluster_start_def NewLocalTransport_def) (metis local_transport.select_convs)
  have "network_ok (cl_net c)" using net assms(2) by (simp add: network_ok_def cluster_start_def)
  moreover have "follows L G (headers_at c v) (cl_node c i)" if "i < cl_size c" for i
    using that assms(3) by (simp add: follows_def spreads_def n)
  ultimately show ?thesis
    using net assms(2-4) unfolding cluster_inv_def by (auto simp: inboxes_genuine_def loops_genuine_def cluster_start_def)
qed

lemma cluster_run_inv:
  assumes "cluster_run L G c c'" "gob_omits_empty G" "cluster_inv L G v c"
  shows "cluster_inv L G v c'"
  using assms(1)
proof (induction rule: rtranclp_induct)
  case base
  show ?case by (rule assms(3))
next
  case (step c1 c2)
  from cluster_step_inv [OF step.hyps(2) assms(2) step.IH] show ?case .
qed

subsection \<open>Agreement\<close>

text \<open>Whoever produces blocks: the chain of every node only grows.\<close>

lemma cluster_step_advances:
  assumes "cluster_step L G c c'" "\<And>i. i < cl_size c \<Longrightarrow> node_ok L (cl_node c i)"
  shows "(k < cl_size c \<longrightarrow> node_ok L (cl_node c' k)) \<and> prefix (headers_at c k) (headers_at c' k)"
proof -
  have ok: "node_ok L (node_of c i)" if "i < cl_size c" for i using assms(2) [OF that] by (simp add: node_ok_def node_of_def pool_view_def)
  have node: "(k < cl_size c \<longrightarrow> node_ok L (cl_node (set_node i n c) k)) \<and> prefix (headers_at c k) (headers_at (set_node i n c) k)"
    if "advances L (node_of c i) n" for i n
    using advances_prefix [OF that] that assms(2) [of k] by (simp add: node_of_def advances_def)
  have by_keeps: "(k < cl_size c \<longrightarrow> node_ok L (cl_node (set_node i n c) k)) \<and> prefix (headers_at c k) (headers_at (set_node i n c) k)"
    if "i < cl_size c" "keeps (advances L (node_of c i)) m" "m (node_of c i) = (r, n)" for i n r m
    by (rule node [OF keepsD [OF that(2) advances_refl [OF ok [OF that(1)]] that(3)]])
  show ?thesis
    using assms(1)
  proof cases
    case (received i sender content N now n)
    with node [OF process_rpc_advances [OF ok [OF received(2)] received(4)]] show ?thesis by simp
  next
    case (received_api i now t n)
    with node [OF process_api_tx_advances [OF ok [OF received_api(2)] received_api(3)]] show ?thesis by simp
  next
    case (proposed i stamp rnd n)
    with by_keeps [OF proposed(2) keeps_report [OF keeps_announceBlock] proposed(4)] show ?thesis by simp
  next
    case (cleared i n)
    with by_keeps [OF cleared(2) keeps_clearPending cleared(4)] show ?thesis by simp
  next
    case (subscribed i leader r n)
    have "keeps (advances L (node_of c i)) (Subscribe G leader)" unfolding Subscribe_def by (intro keeps_intro)
    from by_keeps [OF subscribed(2) this subscribed(3)] subscribed(1) show ?thesis by simp
  next
    case (asked_status i n)
    have "keeps (advances L (node_of c i)) (sendStartupStatusRequests G)"
      unfolding sendStartupStatusRequests_def by (intro keeps_sbind keeps_sread keeps_drop_error keeps_broadcast)
    from by_keeps [OF asked_status(2) this asked_status(3)] asked_status(1) show ?thesis by simp
  qed (use assms(2) [of k] in \<open>auto simp: node_ok_def pool_view_def\<close>)
qed

lemma cluster_step_size: "cluster_step L G c c' \<Longrightarrow> cl_size c' = cl_size c"
  by (erule cluster_step.cases) simp_all

lemma cluster_run_size: "cluster_run L G c c' \<Longrightarrow> cl_size c' = cl_size c"
  by (induction rule: rtranclp_induct) (simp_all add: cluster_step_size)

lemma cluster_run_advances:
  assumes "cluster_run L G c c'" "\<And>i. i < cl_size c \<Longrightarrow> node_ok L (cl_node c i)"
  shows "cl_size c' = cl_size c \<and> (\<forall>k. (k < cl_size c \<longrightarrow> node_ok L (cl_node c' k)) \<and> prefix (headers_at c k) (headers_at c' k))"
  using assms(1)
proof (induction rule: rtranclp_induct)
  case base
  show ?case using assms(2) by simp
next
  case (step c1 c2)
  have "(k < cl_size c1 \<longrightarrow> node_ok L (cl_node c2 k)) \<and> prefix (headers_at c1 k) (headers_at c2 k)" for k
    by (rule cluster_step_advances [OF step.hyps(2)]) (use step.IH in simp)
  then have "(k < cl_size c \<longrightarrow> node_ok L (cl_node c2 k)) \<and> prefix (headers_at c k) (headers_at c2 k)" for k
    using step.IH prefix_order.trans [of "headers_at c k" "headers_at c1 k" "headers_at c2 k"] by simp
  then show ?case using step.IH cluster_step_size [OF step.hyps(2)] by simp
qed

lemma cluster_run_grows:
  assumes "cluster_run L G c c'" "cluster_inv L G v c"
  shows "prefix (headers_at c k) (headers_at c' k)"
  using cluster_run_advances [OF assms(1)] assms(2) by (simp add: cluster_inv_def follows_def)

lemma common_lookup:
  assumes w: "chain_ok L w" "chain_ok L w'"
    and pre: "prefix (chain_headers (w_heap w) (w_bc w)) xs" "prefix (chain_headers (w_heap w') (w_bc w')) xs"
    and h: "h \<le> Chain_Height (w_bc w)" "h \<le> Chain_Height (w_bc w')"
  shows "\<exists>r s. GetHeader (w_bc w) h = Ok r \<and> GetHeader (w_bc w') h = Ok s \<and> h_headers (w_heap w) r = h_headers (w_heap w') s"
proof -
  have lt: "unat h < length (chain_refs (w_bc w))" "unat h < length (chain_refs (w_bc w'))"
    using h by (simp_all add: le_height_iff [OF w(1)] le_height_iff [OF w(2)])
  from pre obtain ys zs where "chain_headers (w_heap w) (w_bc w) @ ys = xs" "chain_headers (w_heap w') (w_bc w') @ zs = xs"
    by (auto simp: prefix_def)
  then have "(chain_headers (w_heap w) (w_bc w) @ ys) ! unat h = (chain_headers (w_heap w') (w_bc w') @ zs) ! unat h" by simp
  with lt have "h_headers (w_heap w) (chain_refs (w_bc w) ! unat h) = h_headers (w_heap w') (chain_refs (w_bc w') ! unat h)"
    by (simp add: nth_append)
  then show ?thesis using lt by (simp add: GetHeader_in [OF w(1)] GetHeader_in [OF w(2)])
qed

text \<open>
  C2: nodes agree. However the steps of several nodes come, messages are delayed and
  connections are made: when they all start new and at most one of them has a key, no two
  nodes ever find different headers at a height, even at different times; no node is above
  the producer; each node keeps its own invariant; and every message on its way decodes to
  blocks of the producer's chain only.
\<close>

theorem single_producer_agreement:
  assumes "gob_total L" and "gob_omits_empty G" and "cluster_start L c0" and "v < cl_size c0"
    and "\<And>i. i < cl_size c0 \<Longrightarrow> isValidator (cl_node c0 i) \<Longrightarrow> i = v" and "cluster_run L G c0 c" and "cluster_run L G c c'"
  shows "(\<forall>i < cl_size c. node_ok L (cl_node c i) \<and> Chain_Height (nd_bc (cl_node c i)) \<le> Chain_Height (nd_bc (cl_node c v))) \<and>
    (\<forall>i < cl_size c. \<forall>j < cl_size c'. \<forall>h. h \<le> Chain_Height (nd_bc (cl_node c i)) \<and> h \<le> Chain_Height (nd_bc (cl_node c' j)) \<longrightarrow>
       (\<exists>r s. GetHeader (nd_bc (cl_node c i)) h = Ok r \<and> GetHeader (nd_bc (cl_node c' j)) h = Ok s \<and>
          h_headers (nd_heap (cl_node c i)) r = h_headers (nd_heap (cl_node c' j)) s)) \<and>
    (\<forall>i sender data s p. (sender, data) \<in> set (lt_recvCh (cl_net c i)) \<and> ExtractMessageFromRPC G sender data = Ok (s, p) \<longrightarrow>
       (\<forall>b \<in> set (payload_blocks p). \<exists>x \<in> set (headers_at c v). bw_Header b = Some x))"
proof -
  have inv: "cluster_inv L G v c"
    by (rule cluster_run_inv [OF assms(6,2) cluster_start_inv [OF assms(1,3-5)]])
  have inv': "cluster_inv L G v c'" by (rule cluster_run_inv [OF assms(7,2) inv])
  have f: "node_ok L (cl_node c i)" "prefix (headers_at c i) (headers_at c v)" if "i < cl_size c" for i
    using inv that by (simp_all add: cluster_inv_def follows_def spreads_def)
  have f': "node_ok L (cl_node c' i)" "prefix (headers_at c' i) (headers_at c' v)" if "i < cl_size c'" for i
    using inv' that by (simp_all add: cluster_inv_def follows_def spreads_def)
  have v: "v < cl_size c" using inv by (simp add: cluster_inv_def)
  have later: "prefix (headers_at c i) (headers_at c' v)" if "i < cl_size c" for i
    by (rule prefix_order.trans [OF f(2) [OF that] cluster_run_grows [OF assms(7) inv]])
  have "Chain_Height (nd_bc (cl_node c i)) \<le> Chain_Height (nd_bc (cl_node c v))" if "i < cl_size c" for i
    using prefix_length_le [OF f(2) [OF that]] Chain_Height_uint [OF node_okD(1) [OF f(1)]] that v by (simp add: word_le_def)
  moreover have "\<exists>x \<in> set (headers_at c v). bw_Header b = Some x"
    if "(sender, data) \<in> set (lt_recvCh (cl_net c i))" "ExtractMessageFromRPC G sender data = Ok (s, p)" "b \<in> set (payload_blocks p)"
    for i sender data s p b
  proof -
    have "genuine G (headers_at c v) data" using inv that(1) by (auto simp: cluster_inv_def inboxes_genuine_def)
    from genuine_extract [OF assms(2) this that(2)] that(3) show ?thesis by (simp add: carries_def of_chain_def)
  qed
  moreover have "\<exists>r s. GetHeader (nd_bc (cl_node c i)) h = Ok r \<and> GetHeader (nd_bc (cl_node c' j)) h = Ok s \<and>
      h_headers (nd_heap (cl_node c i)) r = h_headers (nd_heap (cl_node c' j)) s"
    if "i < cl_size c" "j < cl_size c'" "h \<le> Chain_Height (nd_bc (cl_node c i))" "h \<le> Chain_Height (nd_bc (cl_node c' j))" for i j h
    by (rule common_lookup [OF node_okD(1) [OF f(1)] node_okD(1) [OF f'(1)] later f'(2)]) (use that in simp_all)
  ultimately show ?thesis using f(1) by blast
qed

lemma demo_gob_omits_empty: "gob_omits_empty demo_gob"
proof -
  have "demo_dec (payload_type p) b = Some (norm_payload p)" if "demo_enc p = Some b" for p b
    using that
    by (cases p rule: demo_enc.cases)
       (auto simp: unat_byte_of_nat char_of_byte norm_sig_def o_def split: option.splits if_splits list.split)
  then show ?thesis by (auto simp: gob_omits_empty_def demo_gob_def)
qed

text \<open>A cluster of two nodes, those of \<open>K\<close> with a key.\<close>

definition demo_name :: "nat \<Rightarrow> string" where
  "demo_name i = replicate i CHR ''x''"

definition demo_opts :: "nat set \<Rightarrow> nat \<Rightarrow> server_opts" where
  "demo_opts K i = (start_opts (demo_name i))\<lparr>so_PrivateKey := \<lparr>pk_key = if i \<in> K then Some 5 else None\<rparr>\<rparr>"

lemma demo_cluster:
  obtains c where "cluster_start demo_lib c" "cl_size c = 2" "\<And>i. isValidator (cl_node c i) \<longleftrightarrow> i \<in> K"
    "\<And>i. i \<in> K \<Longrightarrow> nd_key (cl_node c i) = \<lparr>pk_key = Some 5\<rparr>" "\<And>i. Pool_Pending (nd_pool (cl_node c i)) = []"
proof -
  have "\<exists>n. NewServer demo_lib [] (demo_opts K i) empty_heap = Ok n \<and> Pool_Pending (nd_pool n) = [] \<and>
      nd_key n = \<lparr>pk_key = if i \<in> K then Some 5 else None\<rparr>" for i
    using NewServer_ok [OF demo_lib_contracts(5) empty_heap_ok, of "demo_opts K i" "[]"]
    by (auto simp: demo_opts_def start_opts_def)
  then obtain f where f: "\<And>i. NewServer demo_lib [] (demo_opts K i) empty_heap = Ok (f i)"
    "\<And>i. Pool_Pending (nd_pool (f i)) = []" "\<And>i. nd_key (f i) = \<lparr>pk_key = if i \<in> K then Some 5 else None\<rparr>" by metis
  let ?c = "\<lparr>cl_size = 2, cl_node = f, cl_net = new_network, cl_loops = (\<lambda>_. [])\<rparr>"
  have "new_node demo_lib (addr_String (lt_addr (new_network i))) (f i)" for i
    using f(1) [of i] empty_heap_ok unfolding new_node_def
    by (intro exI [of _ "[]"] exI [of _ "demo_opts K i"] exI [of _ empty_heap])
       (simp add: demo_opts_def start_opts_def new_network_def NewLocalTransport_def demo_name_def)
  moreover have "inj (\<lambda>i. lt_addr (new_network i))" using new_network_ok by (simp add: network_ok_def)
  ultimately have "cluster_start demo_lib ?c" by (auto simp: cluster_start_def new_network_def)
  then show ?thesis using that [of ?c] f(2,3) by (auto simp: isValidator_def PrivateKey_IsZero_def)
qed

text \<open>A turn of one of its producers.\<close>

lemma demo_turn:
  assumes c: "cluster_start demo_lib c" "i < cl_size c" "nd_key (cl_node c i) = \<lparr>pk_key = Some 5\<rparr>" "Pool_Pending (nd_pool (cl_node c i)) = []"
  obtains n r where "announceBlock demo_lib demo_gob stamp 0 (node_of c i) = (Ok (), n)" "GetHeader (nd_bc n) 1 = Ok r"
    "hd_Timestamp (h_headers (nd_heap n) r) = stamp" "length (chain_refs (nd_bc n)) = 2"
    "hd_Height (h_headers (nd_heap n) r) = 1" "chain_headers (nd_heap n) (nd_bc n) = [genesis, h_headers (nd_heap n) r]"
proof -
  let ?n = "node_of c i"
  have "new_node demo_lib (addr_String (lt_addr (cl_net c i))) (cl_node c i)" using c(1,2) by (simp add: cluster_start_def)
  from new_node_ok [OF demo_lib_contracts(5) this] c(3,4) have
    n: "node_ok demo_lib ?n" "chain_headers (nd_heap ?n) (nd_bc ?n) = [genesis]" "nd_key ?n = \<lparr>pk_key = Some 5\<rparr>"
      "Pool_Pending (nd_pool ?n) = []" by (simp_all add: node_of_def node_ok_def pool_view_def)
  obtain n' br x where turn: "createNewBlock demo_lib demo_gob stamp 0 ?n = (Ok (), n')"
    and n': "node_ok demo_lib n'" "chain_headers (nd_heap n') (nd_bc n') = [genesis, x]" "hd_Timestamp x = stamp" "hd_Height x = 1"
    by (rule example_first_block [OF n])
  from turn obtain n1 where n1: "announceBlock demo_lib demo_gob stamp 0 ?n = (Ok (), n1)" "nd_bc n' = nd_bc n1" "nd_heap n' = nd_heap n1"
    by (auto simp: createNewBlock_def sbind_def clearPending_def smodify_def split: prod.splits result.splits)
  have len: "length (chain_refs (nd_bc n')) = 2" using arg_cong [OF n'(2), of length] by simp
  have "x = h_headers (nd_heap n') (chain_refs (nd_bc n') ! 1)" using arg_cong [OF n'(2), of "\<lambda>xs. xs ! 1"] len by simp
  moreover have "GetHeader (nd_bc n') 1 = Ok (chain_refs (nd_bc n') ! 1)" using GetHeader_in [OF node_okD(1) [OF n'(1)], of 1] len by simp
  ultimately show ?thesis using that n1 n'(2-4) len by simp
qed

theorem single_producer_agreement_witness:
  "\<exists>c0 c h. cluster_start demo_lib c0 \<and> cluster_run demo_lib demo_gob c0 c \<and> length (headers_at c 0) = 2 \<and>
     (\<exists>r s. GetHeader (nd_bc (cl_node c 1)) h = Ok r \<and> GetHeader (nd_bc (cl_node c 0)) h = Ok s \<and>
        h_headers (nd_heap (cl_node c 1)) r = h_headers (nd_heap (cl_node c 0)) s)"
proof -
  obtain c0 where c0: "cluster_start demo_lib c0" "\<And>i. isValidator (cl_node c0 i) \<longleftrightarrow> i = 0"
    "nd_key (cl_node c0 0) = \<lparr>pk_key = Some 5\<rparr>" "\<And>i. Pool_Pending (nd_pool (cl_node c0 i)) = []"
    "cl_size c0 = 2"
    by (rule demo_cluster [of "{0}"]) (use that in simp)
  obtain n r where n: "announceBlock demo_lib demo_gob 3 0 (node_of c0 0) = (Ok (), n)" "length (chain_refs (nd_bc n)) = 2"
    by (rule demo_turn [OF c0(1) _ c0(3,4)]) (simp_all add: c0(5))
  let ?c = "set_node 0 n c0"
  have "cluster_step demo_lib demo_gob c0 ?c"
    by (rule proposed [of 0 c0 _ _ 3 0]) (use c0(2,5) n(1) in \<open>simp_all add: report_def\<close>)
  then have run: "cluster_run demo_lib demo_gob c0 ?c" by (rule r_into_rtranclp)
  have only: "i = 0" if "i < cl_size c0" "isValidator (cl_node c0 i)" for i using c0(2) that(2) by simp
  have "0 < cl_size c0" by (simp add: c0(5))
  note agree = conjunct1 [OF conjunct2 [OF single_producer_agreement
      [OF demo_lib_contracts(5) demo_gob_omits_empty c0(1) this only run rtranclp.rtrancl_refl]]]
  have "1 < cl_size ?c" "0 < cl_size ?c" "0 \<le> Chain_Height (nd_bc (cl_node ?c 1)) \<and> 0 \<le> Chain_Height (nd_bc (cl_node ?c 0))"
    by (simp_all add: c0(5))
  with agree have "\<exists>r s. GetHeader (nd_bc (cl_node ?c 1)) 0 = Ok r \<and> GetHeader (nd_bc (cl_node ?c 0)) 0 = Ok s \<and>
      h_headers (nd_heap (cl_node ?c 1)) r = h_headers (nd_heap (cl_node ?c 0)) s" by metis
  moreover have "length (headers_at ?c 0) = 2" by (simp add: n(2))
  ultimately show ?thesis using c0(1) run by blast
qed

subsection \<open>Several producers\<close>

text \<open>A header that is found stays.\<close>

lemma header_stays:
  assumes "node_ok L n" "node_ok L m" "prefix (chain_headers (nd_heap n) (nd_bc n)) (chain_headers (nd_heap m) (nd_bc m))"
    and "GetHeader (nd_bc n) h = Ok r"
  shows "\<exists>s. GetHeader (nd_bc m) h = Ok s \<and> h_headers (nd_heap m) s = h_headers (nd_heap n) r"
proof -
  have h: "h \<le> Chain_Height (nd_bc n)"
    using assms(4) by (simp add: le_height_iff [OF node_okD(1) [OF assms(1)]] GetHeader_in [OF node_okD(1) [OF assms(1)]] split: if_splits)
  have "unat h < length (chain_headers (nd_heap n) (nd_bc n))" using h by (simp add: le_height_iff [OF node_okD(1) [OF assms(1)]])
  with prefix_length_le [OF assms(3)] have "h \<le> Chain_Height (nd_bc m)" by (simp add: le_height_iff [OF node_okD(1) [OF assms(2)]])
  from common_lookup [OF node_okD(1) [OF assms(1)] node_okD(1) [OF assms(2)] assms(3) prefix_order.refl h this] assms(4) show ?thesis by auto
qed


text \<open>Two producers whose first blocks have different times.\<close>

lemma demo_hash_differs:
  "header_hash demo_lib x = header_hash demo_lib y \<Longrightarrow>
   (ucast (hd_Height x) :: byte) = ucast (hd_Height y) \<and> (ucast (hd_Timestamp x) :: byte) = ucast (hd_Timestamp y)"
  by (simp add: header_hash_def demo_lib_def)


end
