(* ===== verification/Server_Ledger.thy ===== *)
theory Server_Ledger
  imports Server_Cluster
begin

section \<open>The ledgers of several nodes\<close>

text \<open>
  \<open>Core_Ledger\<close> for the nodes of \<open>Server_Node\<close> and \<open>Server_Cluster\<close>: every header of a node
  commits to the transactions of its block, so nodes that agree on headers agree on
  transactions and, while their contract states are replays of their ledgers, on those.
\<close>

subsection \<open>Commitment\<close>

text \<open>The blocks of a node verify, and verification compares the data hash.\<close>

lemma world_ok_committed:
  assumes "gob_total L" "world_ok L w"
  shows "committed L w"
proof -
  note c = world_okD(1) [OF assms(2)]
  let ?refs = "chain_refs (w_bc w)"
  have "hd_DataHash (h_headers (w_heap w) (tl ?refs ! k)) =
      data_hash L (block_wires (w_heap w) (nth_block (w_bc w) (Suc k)))" if "k < length ?refs - 1" for k
  proof -
    have k: "tl ?refs ! k = ?refs ! Suc k" "Suc k < length ?refs" "k < length (tl ?refs)"
      using that by (simp_all add: nth_tl)
    note b = nth_block_header [OF c k(2)]
    have "tl ?refs ! k \<in> set (tl ?refs)" using k(3) by (rule nth_mem)
    then have v: "Block_Verify L (w_heap w) (nth_block (w_bc w) (Suc k)) = Ok ()"
      using assms(2) b(3) k(1) by (simp add: world_ok_def blocks_verified_def)
    from chain_stored_ok [OF c nth_mem [OF k(2)]] b(3)
    have "blk_Header (h_blocks (w_heap w) (nth_block (w_bc w) (Suc k))) = Some (tl ?refs ! k)"
      by (auto simp: stored_ok_def k(1))
    from verified_data_hash [OF assms(1) v this] show ?thesis .
  qed
  then show ?thesis
    using c by (auto simp: committed_def ledger_def map_tl [symmetric] list_eq_iff_nth_eq)
qed

lemma headers_prefix_ledgers:
  assumes "gob_total L" "gob_streams (gob_tx L) dec" "node_ok L n" "node_ok L m"
    and "prefix (chain_headers (nd_heap n) (nd_bc n)) (chain_headers (nd_heap m) (nd_bc m))"
    and "inj_on (sha256 L) (wires_bytes (gob_tx L) ` X)" "set (ledger (nd_world n)) \<union> set (ledger (nd_world m)) \<subseteq> X"
  shows "prefix (map (map wire_sent) (ledger (nd_world n))) (map (map wire_sent) (ledger (nd_world m)))"
proof (rule committed_prefix [OF assms(1,2) _ _ assms(5)])
  show "committed L (nd_world n)" "committed L (nd_world m)"
    using world_ok_committed [OF assms(1)] assms(3,4) by (simp_all add: node_ok_def)
  show "inj_on (sha256 L) (wires_bytes (gob_tx L) ` (set (ledger (nd_world n)) \<union> set (ledger (nd_world m))))"
    by (rule inj_on_subset [OF assms(6) image_mono [OF assms(7)]])
qed

text \<open>Lists of one length that are prefixes of one list are equal.\<close>

lemma prefixes_same_length: "prefix xs zs \<Longrightarrow> prefix ys zs \<Longrightarrow> length xs = length ys \<Longrightarrow> xs = ys"
  by (auto simp: prefix_def append_eq_append_conv)

subsection \<open>Properties\<close>

text \<open>
  C14: nodes with one producer share one ledger. When several nodes start new and at most
  one of them has a key, then along every run the ledger of each node is an initial part of
  the producer's, as far as it is sent: the same transactions, in the same order and the
  same blocks. Two nodes of one height have the same contract state, when each is the replay
  of the node's ledger. No two lists of transactions are to collide.
\<close>

theorem cluster_shares_one_ledger:
  assumes "gob_total L" and "gob_streams (gob_tx L) dec" and "gob_omits_empty G" and "cluster_start L c0"
    and "v < cl_size c0" and "\<And>i. i < cl_size c0 \<Longrightarrow> isValidator (cl_node c0 i) \<Longrightarrow> i = v" and "cluster_run L G c0 c"
    and "inj_on (sha256 L) (wires_bytes (gob_tx L) ` (\<Union>i < cl_size c. set (ledger (nd_world (cl_node c i)))))"
  shows "(\<forall>i < cl_size c. prefix (map (map wire_sent) (ledger (nd_world (cl_node c i))))
       (map (map wire_sent) (ledger (nd_world (cl_node c v))))) \<and>
    (\<forall>i < cl_size c. \<forall>j < cl_size c. Chain_Height (nd_bc (cl_node c i)) = Chain_Height (nd_bc (cl_node c j)) \<and>
       intact (nd_world (cl_node c i)) \<and> intact (nd_world (cl_node c j)) \<longrightarrow>
       bc_cstate (nd_bc (cl_node c i)) = bc_cstate (nd_bc (cl_node c j)))"
proof -
  let ?w = "\<lambda>i. nd_world (cl_node c i)"
  have inv: "cluster_inv L G v c" by (rule cluster_run_inv [OF assms(7,3) cluster_start_inv [OF assms(1,4-6)]])
  then have v: "v < cl_size c" by (simp add: cluster_inv_def)
  have f: "node_ok L (cl_node c i)" "prefix (headers_at c i) (headers_at c v)" if "i < cl_size c" for i
    using inv that by (simp_all add: cluster_inv_def follows_def spreads_def)
  have pre: "prefix (map (map wire_sent) (ledger (?w i))) (map (map wire_sent) (ledger (?w v)))" if "i < cl_size c" for i
    by (rule headers_prefix_ledgers [OF assms(1,2) f(1) f(1) f(2) assms(8)]) (use that v in auto)
  have "bc_cstate (w_bc (?w i)) = bc_cstate (w_bc (?w j))"
    if "i < cl_size c" "j < cl_size c" "Chain_Height (w_bc (?w i)) = Chain_Height (w_bc (?w j))" "intact (?w i)" "intact (?w j)" for i j
  proof -
    have "int (length (chain_refs (w_bc (?w i)))) = int (length (chain_refs (w_bc (?w j))))"
      using Chain_Height_uint [OF node_okD(1) [OF f(1)]] that(1-3) by (metis diff_add_cancel)
    then have "length (ledger (?w i)) = length (ledger (?w j))" by (simp add: length_ledger)
    with prefixes_same_length [OF pre [OF that(1)] pre [OF that(2)]]
    have "map (map wire_sent) (ledger (?w i)) = map (map wire_sent) (ledger (?w j))" by simp
    from sent_replay [OF this] that(4,5) show ?thesis by (simp add: intact_def)
  qed
  with pre show ?thesis by blast
qed

theorem cluster_shares_one_ledger_witness:
  "\<exists>c0 c. cluster_start demo_lib c0 \<and> cluster_run demo_lib demo_gob c0 c \<and> 1 < cl_size c \<and>
     length (ledger (nd_world (cl_node c 0))) = 1 \<and>
     prefix (map (map wire_sent) (ledger (nd_world (cl_node c 1)))) (map (map wire_sent) (ledger (nd_world (cl_node c 0))))"
proof -
  obtain c0 where c0: "cluster_start demo_lib c0" "\<And>i. isValidator (cl_node c0 i) \<longleftrightarrow> i = 0"
    "nd_key (cl_node c0 0) = \<lparr>pk_key = Some 5\<rparr>" "\<And>i. Pool_Pending (nd_pool (cl_node c0 i)) = []" "cl_size c0 = 2"
    by (rule demo_cluster [of "{0}"]) (use that in simp)
  obtain n r where n: "announceBlock demo_lib demo_gob 3 0 (node_of c0 0) = (Ok (), n)" "length (chain_refs (nd_bc n)) = 2"
    by (rule demo_turn [OF c0(1) _ c0(3,4)]) (simp_all add: c0(5))
  let ?c = "set_node 0 n c0"
  have "cluster_step demo_lib demo_gob c0 ?c"
    by (rule proposed [of 0 c0 _ _ 3 0]) (use c0(2,5) n(1) in \<open>simp_all add: report_def\<close>)
  then have run: "cluster_run demo_lib demo_gob c0 ?c" by (rule r_into_rtranclp)
  have only: "i = 0" if "i < cl_size c0" "isValidator (cl_node c0 i)" for i using c0(2) that(2) by simp
  have "new_node demo_lib (addr_String (lt_addr (cl_net c0 1))) (cl_node c0 1)" using c0(1,5) by (simp add: cluster_start_def)
  from new_node_ok(2) [OF demo_lib_contracts(5) this] have "length (chain_refs (nd_bc (cl_node c0 1))) = 1"
    using arg_cong [of _ _ length] by fastforce
  then have l: "ledger (nd_world (cl_node ?c 1)) = []" "length (ledger (nd_world (cl_node ?c 0))) = 1"
    using n(2) by (simp_all add: length_ledger flip: length_0_conv)
  then obtain ws where ws: "ledger (nd_world (cl_node ?c 0)) = [ws]" by (auto simp: length_Suc_conv)
  have "(\<Union>i < cl_size ?c. set (ledger (nd_world (cl_node ?c i)))) = {ws}"
    using ws l(1) c0(5) by (auto simp: less_2_cases_iff)
  then have inj: "inj_on (sha256 demo_lib) (wires_bytes (gob_tx demo_lib) ` (\<Union>i < cl_size ?c. set (ledger (nd_world (cl_node ?c i)))))"
    by simp
  have "0 < cl_size c0" by (simp add: c0(5))
  from spec [where x = 1, OF conjunct1 [OF cluster_shares_one_ledger
      [OF demo_lib_contracts(5) demo_lib_streams demo_gob_omits_empty c0(1) this only run inj]]]
  have "prefix (map (map wire_sent) (ledger (nd_world (cl_node ?c 1)))) (map (map wire_sent) (ledger (nd_world (cl_node ?c 0))))"
    by (simp add: c0(5))
  with c0(1,5) run l(2) show ?thesis by (intro exI [of _ c0] exI [of _ ?c]) simp
qed

end
