(* ===== verification/Main_Demo.thy ===== *)
theory Main_Demo
  imports Server_Cluster Vm_Compile
begin

section \<open>The demonstration program\<close>

text \<open>
  Models \<^verbatim>\<open>main.go\<close>: a validator and other nodes, each on its local transport, the connection
  and the subscription between them, a transaction that one transport sends, and the
  comparison of the chains at the end. What the nodes do in between are the steps of a
  cluster. The sleeps and the log messages are left out, except for those of the comparison.
\<close>

subsection \<open>Making the nodes\<close>

text \<open>A fatal log message ends the program before the cancel function is called.\<close>

definition fatalIfErr :: "'a result \<Rightarrow> 'a result" where
  "fatalIfErr r = (case r of Err e \<Rightarrow> Panic Exit | _ \<Rightarrow> r)"

definition makeValidatorOpts :: "nat option \<Rightarrow> string \<Rightarrow> string \<Rightarrow> server_opts result" where
  "makeValidatorOpts generated sid addr = bind_result (MustGeneratePrivateKey generated) (\<lambda>privKey.
     Ok \<lparr>so_ID = sid, so_PrivateKey = privKey, so_TxHasher = None, so_Blockchain = None, so_addr = addr\<rparr>)"

definition makeNonValidatorOpts :: "string \<Rightarrow> string \<Rightarrow> server_opts" where
  "makeNonValidatorOpts sid addr =
     \<lparr>so_ID = sid, so_PrivateKey = \<lparr>pk_key = None\<rparr>, so_TxHasher = None, so_Blockchain = None, so_addr = addr\<rparr>"

definition mustMakeServer :: "lib \<Rightarrow> string \<Rightarrow> server_opts \<Rightarrow> node result" where
  "mustMakeServer L rand_id opts = fatalIfErr (NewServer L rand_id opts empty_heap)"

text \<open>\<^verbatim>\<open>%d\<close>.\<close>

fun decimal :: "nat \<Rightarrow> string" where
  "decimal n = (if n < 10 then [char_of (48 + n)] else decimal (n div 10) @ [char_of (48 + n mod 10)])"

declare decimal.simps [simp del]

primrec initRemoteServers :: "lib \<Rightarrow> string \<Rightarrow> nat \<Rightarrow> string list \<Rightarrow> node list result" where
  "initRemoteServers L rand_id i [] = Ok []"
| "initRemoteServers L rand_id i (addr # trs) =
     bind_result (mustMakeServer L rand_id (makeNonValidatorOpts (''remote-'' @ decimal i) addr)) (\<lambda>s.
     bind_result (initRemoteServers L rand_id (i + 1) trs) (\<lambda>out. Ok (s # out)))"

text \<open>The transports of \<^verbatim>\<open>main\<close>; the other numbers are never used.\<close>

definition main_network :: network where
  "main_network = (\<lambda>i. NewLocalTransport (LocalAddr
     (if i = 0 then ''local'' else if i = 1 then ''peer0'' else replicate i CHR ''x'')))"

definition main_nodes :: "lib \<Rightarrow> string \<Rightarrow> nat option \<Rightarrow> cluster result" where
  "main_nodes L rand_id generated =
     bind_result (initRemoteServers L rand_id 0 [''peer0'']) (\<lambda>remotes.
     bind_result (makeValidatorOpts generated ''LOCAL'' ''local'') (\<lambda>opts.
     bind_result (mustMakeServer L rand_id opts) (\<lambda>localServer.
       Ok \<lparr>cl_size = 2, cl_node = (\<lambda>i. if i = 0 then localServer else hd remotes), cl_net = main_network,
         cl_loops = (\<lambda>_. [])\<rparr>)))"

text \<open>\<^verbatim>\<open>remotes[0].Connect(localServer.Transport)\<close> and \<^verbatim>\<open>remotes[0].Subscribe(localServer.Transport)\<close>.\<close>

definition main_links :: "gob \<Rightarrow> cluster \<Rightarrow> cluster result" where
  "main_links G c = (case Server_Connect 1 [0] (cl_net c) of
       None \<Rightarrow> Panic NoReturn
     | Some (r, N) \<Rightarrow> bind_result (fatalIfErr r) (\<lambda>_. let c = c\<lparr>cl_net := N\<rparr>
         in case Subscribe G (addr_String (lt_addr (N 0))) (node_of c 1) of
              (r, n) \<Rightarrow> bind_result (fatalIfErr r) (\<lambda>_. Ok (set_node 1 n c))))"

subsection \<open>The comparison at the end\<close>

datatype log_line =
    HeightsDiffer u32 string u32
  | HeadersDiffer header string header
  | SameHeader string

definition compare_remote :: "node \<Rightarrow> header \<Rightarrow> node \<Rightarrow> log_line list result" where
  "compare_remote localServer lhdr remote = (let lh = Chain_Height (nd_bc localServer); rh = Chain_Height (nd_bc remote)
     in if lh \<noteq> rh then
          bind_result (fatalIfErr (GetHeader (nd_bc remote) rh)) (\<lambda>r. let rhdr = h_headers (nd_heap remote) r
            in Ok [HeightsDiffer lh (nd_ID remote) rh,
                   if lhdr \<noteq> rhdr then HeadersDiffer lhdr (nd_ID remote) rhdr else SameHeader (nd_ID remote)])
        else Ok [])"

primrec compare_remotes :: "node \<Rightarrow> header \<Rightarrow> node list \<Rightarrow> log_line list result" where
  "compare_remotes localServer lhdr [] = Ok []"
| "compare_remotes localServer lhdr (remote # remotes) =
     bind_result (compare_remote localServer lhdr remote) (\<lambda>xs.
     bind_result (compare_remotes localServer lhdr remotes) (\<lambda>ys. Ok (xs @ ys)))"

definition main_check :: "node \<Rightarrow> node list \<Rightarrow> log_line list result" where
  "main_check localServer remotes =
     bind_result (fatalIfErr (GetHeader (nd_bc localServer) (Chain_Height (nd_bc localServer)))) (\<lambda>l.
       compare_remotes localServer (h_headers (nd_heap localServer) l) remotes)"

subsection \<open>Sending a transaction\<close>

text \<open>\<open>c\<close> is the random operand at the end of the program of the transaction.\<close>

definition transactionAdder :: "byte \<Rightarrow> transaction" where
  "transactionAdder c = NewTransaction (transactionAdder_data c)"

definition sendRandomTransaction :: "lib \<Rightarrow> gob \<Rightarrow> nat option \<Rightarrow> byte \<Rightarrow> nat \<Rightarrow> nat \<Rightarrow> nat \<Rightarrow> (network, unit) go" where
  "sendRandomTransaction L G generated c rnd src dst =
     sbind (sread (\<lambda>_. MustGeneratePrivateKey generated)) (\<lambda>privKey.
     sbind (sread (\<lambda>_. case Tx_Sign L rnd privKey (transactionAdder c) of
         (Ok _, tx) \<Rightarrow> Ok tx | (Err e, tx) \<Rightarrow> Err e | (Panic p, tx) \<Rightarrow> Panic p)) (\<lambda>tx.
     sbind (sread (\<lambda>_. case gob_enc G (PTx (tx_wire tx)) of None \<Rightarrow> Err EncodeError | Some b \<Rightarrow> Ok b)) (\<lambda>txEncoded.
     sbind (sread (\<lambda>_. Message_Bytes G (NewMessage MessageTypeTx txEncoded))) (\<lambda>d N.
       Local_Send src (lt_addr (N dst)) d N))))"

subsection \<open>What the comparison finds\<close>

lemma fatalIfErr_Ok [simp]: "fatalIfErr r = Ok a \<longleftrightarrow> r = Ok a"
  by (simp add: fatalIfErr_def split: result.split)

lemma main_network_start: "inj (\<lambda>i. lt_addr (main_network i))" "\<exists>a. main_network i = NewLocalTransport (LocalAddr a)"
proof -
  have "replicate k CHR ''x'' \<noteq> ''local''" "replicate k CHR ''x'' \<noteq> ''peer0''" for k
    using set_replicate_Suc [of _ "CHR ''x''"] by (cases k; force dest: arg_cong [of _ _ set])+
  moreover have "replicate j CHR ''x'' = replicate k CHR ''x'' \<longleftrightarrow> j = k" for j k by (metis length_replicate)
  ultimately show "inj (\<lambda>i. lt_addr (main_network i))"
    by (auto simp: inj_def main_network_def NewLocalTransport_def eq_commute [of "''local''"] eq_commute [of "''peer0''"])
  show "\<exists>a. main_network i = NewLocalTransport (LocalAddr a)" unfolding main_network_def by blast
qed

lemma main_nodes_start:
  assumes "gob_total L" "main_nodes L rand_id generated = Ok c"
  shows "cluster_start L c" "cl_size c = 2" "i < cl_size c \<Longrightarrow> isValidator (cl_node c i) \<Longrightarrow> i = 0"
proof -
  let ?remote = "makeNonValidatorOpts (''remote-'' @ decimal 0) ''peer0''"
  obtain r l k where r: "NewServer L rand_id ?remote empty_heap = Ok r"
    and l: "NewServer L rand_id \<lparr>so_ID = ''LOCAL'', so_PrivateKey = k, so_TxHasher = None, so_Blockchain = None, so_addr = ''local''\<rparr> empty_heap = Ok l"
    and c: "c = \<lparr>cl_size = 2, cl_node = (\<lambda>i. if i = 0 then l else r), cl_net = main_network, cl_loops = (\<lambda>_. [])\<rparr>"
    using assms(2) by (force simp: main_nodes_def mustMakeServer_def makeValidatorOpts_def)
  have new: "new_node L (so_addr opts) n" if "so_Blockchain opts = None" "NewServer L rand_id opts empty_heap = Ok n" for opts n
    unfolding new_node_def using that empty_heap_ok by blast
  have "new_node L ''peer0'' r" "new_node L ''local'' l"
    using new [OF _ r] new [OF _ l] by (simp_all add: makeNonValidatorOpts_def)
  then have "new_node L (addr_String (lt_addr (main_network i))) (cl_node c i)" if "i < 2" for i
    using that by (auto simp: main_network_def NewLocalTransport_def c less_2_cases_iff)
  then show "cluster_start L c" using main_network_start by (simp add: cluster_start_def c)
  show "cl_size c = 2" by (simp add: c)
  show "i = 0" if "i < cl_size c" "isValidator (cl_node c i)"
    using NewServer_ok [OF assms(1) empty_heap_ok, of ?remote rand_id] r that
    by (auto simp: c makeNonValidatorOpts_def isValidator_def PrivateKey_IsZero_def split: if_splits)
qed

text \<open>The links are steps of the cluster.\<close>

lemma main_links_run:
  assumes "main_links G c = Ok c'" "cl_size c = 2"
  shows "cluster_run L G c c'"
proof -
  from assms(1) obtain N n where N: "Server_Connect 1 [0] (cl_net c) = Some (Ok (), N)"
    and n: "Subscribe G (addr_String (lt_addr (N 0))) (node_of (c\<lparr>cl_net := N\<rparr>) 1) = (Ok (), n)" "c' = set_node 1 n (c\<lparr>cl_net := N\<rparr>)"
    by (auto simp: main_links_def Let_def simp del: Server_Connect.simps split: option.splits prod.splits)
  have "cluster_step L G c (c\<lparr>cl_net := N\<rparr>)" by (rule connected [OF _ N]) (simp add: assms(2))
  moreover have "cluster_step L G (c\<lparr>cl_net := N\<rparr>) c'"
    unfolding n(2) by (rule subscribed [OF _ n(1)]) (simp_all add: assms(2))
  ultimately show ?thesis by (rule converse_rtranclp_into_rtranclp [OF _ r_into_rtranclp])
qed

lemma last_header:
  assumes "chain_ok L w"
  shows "\<exists>r. GetHeader (w_bc w) (Chain_Height (w_bc w)) = Ok r \<and> hd_Height (h_headers (w_heap w) r) = Chain_Height (w_bc w)"
proof -
  have i: "unat (Chain_Height (w_bc w)) < length (chain_refs (w_bc w))" using le_height_iff [OF assms, of "Chain_Height (w_bc w)"] by simp
  moreover have "heights_ok (chain_headers (w_heap w) (w_bc w))" using assms by (simp add: chain_ok_def chain_pre_def)
  ultimately show ?thesis by (simp add: GetHeader_in [OF assms] heights_ok_def)
qed

lemma compare_remote_cases:
  assumes l: "hd_Height x = Chain_Height (nd_bc n)" and r: "node_ok L m"
  obtains "Chain_Height (nd_bc m) = Chain_Height (nd_bc n)" "compare_remote n x m = Ok []"
  | y where "Chain_Height (nd_bc m) \<noteq> Chain_Height (nd_bc n)" "y \<noteq> x"
    "compare_remote n x m = Ok [HeightsDiffer (Chain_Height (nd_bc n)) (nd_ID m) (Chain_Height (nd_bc m)), HeadersDiffer x (nd_ID m) y]"
proof -
  obtain i where "GetHeader (nd_bc m) (Chain_Height (nd_bc m)) = Ok i" "hd_Height (h_headers (nd_heap m) i) = Chain_Height (nd_bc m)"
    using last_header [OF node_okD(1) [OF r]] by auto
  moreover from this l have "Chain_Height (nd_bc m) \<noteq> Chain_Height (nd_bc n) \<Longrightarrow> h_headers (nd_heap m) i \<noteq> x" by metis
  ultimately show ?thesis
    using l that(1) that(2) [of "h_headers (nd_heap m) i"]
    by (cases "Chain_Height (nd_bc m) = Chain_Height (nd_bc n)") (auto simp: compare_remote_def Let_def fatalIfErr_def)
qed

text \<open>
  C22: what the demonstration reports. However the nodes run before and after \<^verbatim>\<open>main\<close> connects
  and subscribes them, the comparison at the end does not fail: it reports nothing exactly
  when the two nodes have the same chain, although it compares no headers at equal heights;
  otherwise it reports that the remote node is behind, with two different headers, so the
  line that says that the headers are the same is never written.
\<close>

theorem demo_program_reports:
  assumes "gob_total L" and "gob_omits_empty G" and "main_nodes L rand_id generated = Ok c0" and "cluster_run L G c0 c1"
    and "main_links G c1 = Ok c2" and "cluster_run L G c2 c"
  shows "if headers_at c 1 = headers_at c 0 then main_check (cl_node c 0) [cl_node c 1] = Ok []
    else \<exists>x y. x \<noteq> y \<and> Chain_Height (nd_bc (cl_node c 1)) < Chain_Height (nd_bc (cl_node c 0)) \<and>
      main_check (cl_node c 0) [cl_node c 1] = Ok
        [HeightsDiffer (Chain_Height (nd_bc (cl_node c 0))) (nd_ID (cl_node c 1)) (Chain_Height (nd_bc (cl_node c 1))),
         HeadersDiffer x (nd_ID (cl_node c 1)) y]"
proof -
  note start = main_nodes_start [OF assms(1,3)]
  have "cl_size c1 = 2" using start(2) cluster_run_size [OF assms(4)] by simp
  from main_links_run [OF assms(5) this] have "cluster_run L G c0 c2" by (rule rtranclp_trans [OF assms(4)])
  from rtranclp_trans [OF this assms(6)] have run: "cluster_run L G c0 c" .
  have size: "cl_size c = 2" using start(2) cluster_run_size [OF run] by simp
  have "cluster_inv L G 0 c0" by (rule cluster_start_inv [OF assms(1) start(1) _ start(3)]) (simp_all add: start(2))
  from cluster_run_inv [OF run assms(2) this] have inv: "cluster_inv L G 0 c" .
  have n: "node_ok L (cl_node c i)" "prefix (headers_at c i) (headers_at c 0)" if "i < 2" for i
    using inv that by (simp_all add: cluster_inv_def follows_def spreads_def size)
  have h: "uint (Chain_Height (nd_bc (cl_node c i))) = int (length (headers_at c i)) - 1" if "i < 2" for i
    using Chain_Height_uint [OF node_okD(1) [OF n(1) [OF that]]] by simp
  have "headers_at c 1 = headers_at c 0 \<longleftrightarrow> length (headers_at c 1) = length (headers_at c 0)"
    using n(2) [of 1] by (metis one_less_numeral_iff semiring_norm(76) append_eq_conv_conj prefix_def take_all order_refl)
  then have same: "headers_at c 1 = headers_at c 0 \<longleftrightarrow> Chain_Height (nd_bc (cl_node c 1)) = Chain_Height (nd_bc (cl_node c 0))"
    unfolding word_uint_eq_iff using h [of 1] h [of 0] by simp
  have le: "Chain_Height (nd_bc (cl_node c 1)) \<le> Chain_Height (nd_bc (cl_node c 0))"
    unfolding word_le_def using h [of 1] h [of 0] prefix_length_le [OF n(2) [of 1]] by simp
  obtain r where r: "GetHeader (nd_bc (cl_node c 0)) (Chain_Height (nd_bc (cl_node c 0))) = Ok r"
    "hd_Height (h_headers (nd_heap (cl_node c 0)) r) = Chain_Height (nd_bc (cl_node c 0))"
    using last_header [OF node_okD(1) [OF n(1) [of 0]]] by auto
  let ?x = "h_headers (nd_heap (cl_node c 0)) r"
  have check: "main_check (cl_node c 0) [cl_node c 1] = bind_result (compare_remote (cl_node c 0) ?x (cl_node c 1)) Ok"
    using r(1) by (simp add: main_check_def fatalIfErr_def)
  have "node_ok L (cl_node c 1)" by (rule n(1)) simp
  from r(2) this show ?thesis
  proof (cases rule: compare_remote_cases)
    case 1
    then show ?thesis by (simp only: same check if_True) simp
  next
    case (2 y)
    then have "Chain_Height (nd_bc (cl_node c 1)) < Chain_Height (nd_bc (cl_node c 0))" using le by simp
    moreover have "?x \<noteq> y" using 2(2) by blast
    ultimately show ?thesis using 2 unfolding check same by auto
  qed
qed

text \<open>The request of the remote node is the only payload that this coder encodes.\<close>

definition request_gob :: gob where
  "request_gob = two_gob (PSubscribeRequest \<lparr>sq_RequestorID = ''peer0'', sq_Handle = ''peer0''\<rparr>)
     (PSubscribeRequest \<lparr>sq_RequestorID = ''peer0'', sq_Handle = ''peer0''\<rparr>)"

lemma request_gob_omits_empty: "gob_omits_empty request_gob"
  by (auto simp: gob_omits_empty_def request_gob_def two_gob_def)

lemma request_send:
  "nd_conns n to = Some p \<Longrightarrow>
   (case NewMessageFromSubscribeMessageRequest request_gob \<lparr>sq_RequestorID = ''peer0'', sq_Handle = ''peer0''\<rparr> of
      Ok a \<Rightarrow> send request_gob to a n | Err e \<Rightarrow> (Err e, n) | Panic p \<Rightarrow> (Panic p, n)) =
   (Ok (), n\<lparr>nd_sent := nd_sent n @ [OutSend to [type_code MessageTypeSubscribeRequest, 1]]\<rparr>)"
  by (simp add: NewMessageFromSubscribeMessageRequest_def message_of_def request_gob_def two_gob_def send_def
      sbind_def sread_def Message_Bytes_def NewMessage_def Transport_Send_def smodify_def)

theorem demo_program_reports_witness:
  "\<exists>c0 c. main_nodes demo_lib [] (Some 5) = Ok c0 \<and> main_links request_gob c0 = Ok c \<and>
     headers_at c 1 = headers_at c 0 \<and> main_check (cl_node c 0) [cl_node c 1] = Ok []"
proof -
  have new: "\<exists>n. NewServer demo_lib [] opts empty_heap = Ok n \<and> nd_addr n = so_addr opts" if "so_Blockchain opts = None" for opts
    using NewServer_ok [OF demo_lib_contracts(5) empty_heap_ok that, of "[]"] by auto
  obtain r l where r: "mustMakeServer demo_lib [] (makeNonValidatorOpts (''remote-'' @ decimal 0) ''peer0'') = Ok r" "nd_addr r = ''peer0''"
    and l: "mustMakeServer demo_lib [] \<lparr>so_ID = ''LOCAL'', so_PrivateKey = \<lparr>pk_key = Some 5\<rparr>, so_TxHasher = None, so_Blockchain = None,
      so_addr = ''local''\<rparr> = Ok l"
    unfolding mustMakeServer_def fatalIfErr_Ok makeNonValidatorOpts_def by (metis new server_opts.select_convs(4,5))
  define c0 where "c0 = \<lparr>cl_size = 2, cl_node = (\<lambda>i. if i = 0 then l else r), cl_net = main_network, cl_loops = (\<lambda>_. [])\<rparr>"
  have nodes: "main_nodes demo_lib [] (Some 5) = Ok c0"
    using r(1) l by (simp add: main_nodes_def makeValidatorOpts_def MustGeneratePrivateKey_def c0_def fun_eq_iff)
  note start = main_nodes_start [OF demo_lib_contracts(5) nodes]
  define N where "N = with_peer 0 1 (with_peer 1 0 main_network)"
  have "network_ok main_network" using main_network_start(1)
    by (auto simp: network_ok_def main_network_def NewLocalTransport_def)
  from Local_Connect_ok [OF this, of 1 0] have "Local_Connect 1 0 main_network = Some (Ok (), N)"
    by (simp add: N_def main_network_def NewLocalTransport_def)
  then have net: "Server_Connect 1 [0] (cl_net c0) = Some (Ok (), N)"
    by (simp add: c0_def) (simp add: main_network_def NewLocalTransport_def)
  have a: "addr_String (lt_addr (N 0)) = ''local''" "Local_Get 1 ''local'' N = Some \<lparr>p_local = ''peer0'', p_remote = ''local''\<rparr>"
    by (simp_all add: N_def Local_Get_def main_network_def NewLocalTransport_def)
  obtain n where n: "Subscribe request_gob ''local'' (node_of (c0\<lparr>cl_net := N\<rparr>) 1) = (Ok (), n)"
    "nd_heap n = nd_heap r" "nd_bc n = nd_bc r"
    using a(2) r(2)
    by (simp add: Subscribe_def sbind_def sread_def Transport_Get_def node_of_def c0_def request_send)
  define c where "c = set_node 1 n (c0\<lparr>cl_net := N\<rparr>)"
  have links: "main_links request_gob c0 = Ok c"
    unfolding main_links_def net using n(1) a(1) by (simp add: fatalIfErr_def Let_def c_def)
  have "headers_at c0 i = [genesis]" if "i < 2" for i
    using start(1) that new_node_ok(2) [OF demo_lib_contracts(5)] by (auto simp: cluster_start_def start(2))
  from this [of 0] this [of 1] have same: "headers_at c 1 = headers_at c 0" by (simp add: c_def n c0_def)
  from demo_program_reports [OF demo_lib_contracts(5) request_gob_omits_empty nodes rtranclp.rtrancl_refl links rtranclp.rtrancl_refl]
  have "main_check (cl_node c 0) [cl_node c 1] = Ok []" unfolding same by simp
  then show ?thesis using nodes links same by blast
qed

subsection \<open>What the demonstration transaction does\<close>

text \<open>A signature in ASN.1 is not empty.\<close>

definition ecdsa_nonempty :: "lib \<Rightarrow> bool" where
  "ecdsa_nonempty L \<longleftrightarrow> (\<forall>r k d. ecdsa_sign L r k d \<noteq> Some [])"

lemma sendRandomTransaction_Ok:
  assumes "sendRandomTransaction L G generated c rnd src dst N = (Ok (), N')"
  obtains k tx b where "Tx_Sign L rnd k (transactionAdder c) = (Ok (), tx)"
    "bind_result (NewMessageFromTransaction G tx) (Message_Bytes G) = Ok b"
    "Local_Send src (lt_addr (N dst)) b N = (Ok (), N')"
  using assms
  by (auto simp: sendRandomTransaction_def sbind_Ok_iff go_simps NewMessageFromTransaction_of message_of_def
      split: result.splits option.splits prod.splits)

lemma Tx_Sign_plain:
  "ecdsa_nonempty L \<Longrightarrow> Tx_Sign L rnd k t = (Ok (), t') \<Longrightarrow> plain_payload (PTx (tx_wire t'))"
  by (auto simp: Tx_Sign_def sbind_Ok_iff go_simps tx_wire_def plain_sig_def PrivateKey_Sign_def ecdsa_nonempty_def split: option.splits)

lemma Local_Send_received:
  assumes "network_ok N" "Local_Send i (lt_addr (N j)) data N = (Ok (), N')"
  shows "lt_recvCh (N' j) = lt_recvCh (N j) @ [(addr_String (lt_addr (N i)), data)]"
proof -
  obtain a where a: "lt_addr (N j) = LocalAddr a" using network_okD(1) [OF assms(1)] by blast
  from assms(2) obtain m where m: "lt_peers (N i) a = Some m"
    "N' = N(m := (N m)\<lparr>lt_recvCh := lt_recvCh (N m) @ [(addr_String (lt_addr (N i)), data)]\<rparr>)"
    by (auto simp: Local_Send_def a split: option.splits if_splits)
  then have "m = j" using network_okD(2,3) [OF assms(1)] a by (metis addr_String.simps(1))
  with m(2) show ?thesis by simp
qed

text \<open>
  C23: the demonstration transaction, from the sender to the contract state: when it is sent
  without an error, the last message in the channel of the destination is the sender's and
  decodes to a transaction with the demonstration program; a transaction with these fields
  verifies, and its run at a node ends without an error and changes the contract state at the
  key abc only, to 7.
\<close>

theorem demo_transaction_end_to_end:
  assumes "ecdsa_signs L" and "ecdsa_nonempty L" and "gob_round_trips G" and "network_ok N" and "c < 8"
    and "sendRandomTransaction L G generated c rnd src dst N = (Ok (), N')"
  shows "\<exists>data t. lt_recvCh (N' dst) = lt_recvCh (N dst) @ [(addr_String (lt_addr (N src)), data)] \<and>
    ExtractMessageFromRPC G sender data = Ok (sender, PTx t) \<and> fst t = transactionAdder_data c \<and>
    (\<forall>w tr. tx_wire (h_txs (w_heap w) tr) = t \<longrightarrow> Tx_Verify L (h_txs (w_heap w) tr) = Ok () \<and>
       run_tx L tr w = (Ok (), w\<lparr>w_bc := (w_bc w)\<lparr>bc_cstate := (bc_cstate (w_bc w))
         \<lparr>cs_data := (cs_data (bc_cstate (w_bc w)))([97, 98, 99] \<mapsto> VInt 7)\<rparr>\<rparr>\<rparr>))"
proof -
  obtain k tx b where tx: "Tx_Sign L rnd k (transactionAdder c) = (Ok (), tx)"
    and b: "bind_result (NewMessageFromTransaction G tx) (Message_Bytes G) = Ok b"
    and sent: "Local_Send src (lt_addr (N dst)) b N = (Ok (), N')"
    by (rule sendRandomTransaction_Ok [OF assms(6)])
  have verified: "Tx_Verify L tx = Ok ()" and data: "tx_Data tx = transactionAdder_data c"
    using Tx_Sign_then_Verify [OF assms(1) tx] by (simp_all add: transactionAdder_def NewTransaction_def)
  have "ExtractMessageFromRPC G sender b = Ok (sender, PTx (tx_wire tx))"
    by (rule ExtractMessage_encoded [OF assms(3) Tx_Sign_plain [OF assms(2) tx]])
       (use b in \<open>simp add: payload_Bytes_def NewMessageFromTransaction_of\<close>)
  moreover have "lt_recvCh (N' dst) = lt_recvCh (N dst) @ [(addr_String (lt_addr (N src)), b)]"
    by (rule Local_Send_received [OF assms(4) sent])
  moreover have "Tx_Verify L x = Ok () \<and> tx_Data x = transactionAdder_data c" if "tx_wire x = tx_wire tx" for x
    using verified data that by (simp add: Tx_Verify_def tx_wire_def cong: option.case_cong)
  moreover have "run_tx L tr w = (Ok (), w\<lparr>w_bc := (w_bc w)\<lparr>bc_cstate := (bc_cstate (w_bc w))
         \<lparr>cs_data := (cs_data (bc_cstate (w_bc w)))([97, 98, 99] \<mapsto> VInt 7)\<rparr>\<rparr>\<rparr>)"
    if "tx_Data (h_txs (w_heap w) tr) = transactionAdder_data c" for w tr
    using run_tx_runs [of w tr, unfolded that, OF _ transactionAdder_run [OF assms(5)]]
    by (simp add: transactionAdder_data_def)
  ultimately show ?thesis using data by (intro exI [of _ b] exI [of _ "tx_wire tx"]) (simp add: tx_wire_def)
qed

theorem demo_transaction_end_to_end_witness:
  "\<exists>N N' data t. sendRandomTransaction demo_lib demo_gob (Some 5) 3 0 1 0 N = (Ok (), N') \<and>
     lt_recvCh (N' 0) = [(''x'', data)] \<and> ExtractMessageFromRPC demo_gob ''x'' data = Ok (''x'', PTx t) \<and>
     fst t = transactionAdder_data 3"
proof -
  obtain N where N: "Local_Connect 1 0 new_network = Some (Ok (), N)" "N = with_peer 0 1 (with_peer 1 0 new_network)"
    using Local_Connect_ok [OF new_network_ok, of 1 0] by (simp add: new_network_def NewLocalTransport_def)
  have ok: "network_ok N" unfolding N(2) by (rule with_peers_ok [OF new_network_ok])
  have "ecdsa_nonempty demo_lib" by (simp add: ecdsa_nonempty_def demo_lib_def)
  moreover have "Tx_Sign demo_lib 0 \<lparr>pk_key = Some 5\<rparr> (transactionAdder 3) =
      (Ok (), (transactionAdder 3)\<lparr>tx_From := [5], tx_Signature := Some (5 # transactionAdder_data 3)\<rparr>)"
    by (simp add: Tx_Sign_def demo_lib_def PrivateKey_Sign_def PrivateKey_PublicKey_def go_simps transactionAdder_def
        NewTransaction_def transactionAdder_data_def)
  moreover have "lt_addr (N 0) = LocalAddr []" "lt_peers (N 1) [] = Some 0" "lt_recvCh (N 0) = []" "lt_addr (N 1) = LocalAddr ''x''"
    by (simp_all add: N(2) new_network_def NewLocalTransport_def)
  ultimately obtain N' where sent: "sendRandomTransaction demo_lib demo_gob (Some 5) 3 0 1 0 N = (Ok (), N')"
    by (simp add: sendRandomTransaction_def go_simps MustGeneratePrivateKey_def demo_gob_def tx_wire_def transactionAdder_def
        NewTransaction_def transactionAdder_data_def Message_Bytes_def Local_Send_def recv_capacity_def)
  from demo_transaction_end_to_end [OF demo_lib_contracts(2) _ demo_gob_round_trips ok _ sent, of "''x''"]
    \<open>ecdsa_nonempty demo_lib\<close> \<open>lt_recvCh (N 0) = []\<close> \<open>lt_addr (N 1) = LocalAddr ''x''\<close>
  obtain data t where "lt_recvCh (N' 0) = [(''x'', data)]" "ExtractMessageFromRPC demo_gob ''x'' data = Ok (''x'', PTx t)"
    "fst t = transactionAdder_data 3" by auto
  with sent show ?thesis by blast
qed

end
