(* ===== verification/Api_Server.thy ===== *)
theory Api_Server
  imports Server_Node_Props Types_Hash
begin

section \<open>The HTTP interface\<close>

text \<open>
  Models the handlers of \<^verbatim>\<open>api/server.go\<close> as functions from the parameter or the body of a
  request to the answer: the status and what is found. The router and the JSON of the answer
  are echo's; the JSON decoder of a transaction is a parameter. A panic of a handler ends
  the request. \<^verbatim>\<open>Atoi\<close> is that of \<^verbatim>\<open>strconv\<close>.
\<close>

subsection \<open>Handlers\<close>

datatype api_response =
    BadRequest goerror
  | NotFound goerror
  | FoundBlock ref
  | FoundTx ref
  | AcceptedTx tx_wire

fun decimal :: "int \<Rightarrow> string \<Rightarrow> int option" where
  "decimal n [] = Some n"
| "decimal n (c # cs) = (let d = int (of_char c) - 48 in
     if 0 \<le> d \<and> d \<le> 9 then decimal (n * 10 + d) cs else None)"

definition Atoi :: "string \<Rightarrow> int option" where
  "Atoi s = (let
     (neg, ds) = (case s of c # cs \<Rightarrow> if c = CHR ''-'' then (True, cs) else if c = CHR ''+'' then (False, cs) else (False, s)
       | [] \<Rightarrow> (False, []))
   in if ds = [] then None
      else (case decimal 0 ds of
          None \<Rightarrow> None
        | Some n \<Rightarrow> let v = (if neg then - n else n) in
            if - (2 ^ 63) \<le> v \<and> v < 2 ^ 63 then Some v else None))"

definition handleGetBlockByHash :: "blockchain \<Rightarrow> string \<Rightarrow> api_response result" where
  "handleGetBlockByHash bc q = (case HashFromHex q of
     Panic p \<Rightarrow> Panic p
   | Err e \<Rightarrow> Ok (BadRequest e)
   | Ok h \<Rightarrow> (case GetBlockHash bc h of
         Panic p \<Rightarrow> Panic p | Err e \<Rightarrow> Ok (NotFound e) | Ok b \<Rightarrow> Ok (FoundBlock b)))"

definition handleGetTransaction :: "blockchain \<Rightarrow> string \<Rightarrow> api_response result" where
  "handleGetTransaction bc q = (case HashFromHex q of
     Panic p \<Rightarrow> Panic p
   | Err e \<Rightarrow> Ok (BadRequest e)
   | Ok h \<Rightarrow> (case GetTransaction bc h of
         Panic p \<Rightarrow> Panic p | Err e \<Rightarrow> Ok (NotFound e) | Ok t \<Rightarrow> Ok (FoundTx t)))"

text \<open>The parsed number is a 64-bit one; the conversion to a height keeps its low 32 bits.\<close>

definition handleGetBlockByHeight :: "blockchain \<Rightarrow> string \<Rightarrow> api_response result" where
  "handleGetBlockByHeight bc val = (case Atoi val of
     None \<Rightarrow> Ok (BadRequest (AtoiError val))
   | Some height \<Rightarrow> (case GetBlockAt bc (word_of_int height) of
         Panic p \<Rightarrow> Panic p | Err e \<Rightarrow> Ok (NotFound e) | Ok b \<Rightarrow> Ok (FoundBlock b)))"

text \<open>The answer, and the transaction that goes into the channel of the server.\<close>

definition handlePutTransaction :: "(bytes \<Rightarrow> tx_wire option) \<Rightarrow> bytes option \<Rightarrow> api_response \<times> tx_wire option" where
  "handlePutTransaction json body = (case body of
     None \<Rightarrow> (BadRequest ReadError, None)
   | Some b \<Rightarrow> (case json b of
         None \<Rightarrow> (BadRequest DecodeError, None)
       | Some t \<Rightarrow> (AcceptedTx t, Some t)))"

subsection \<open>Properties\<close>

text \<open>
  A request for a block by its height. What is not a number of 64 bits is a bad
  request. Any other number is answered modulo \<open>2 ^ 32\<close>: the answer is the block of that
  height, or that there is none. So a height that is too large or negative can be answered
  with a block of another height.
\<close>

lemma api_block_by_height:
  assumes "chain_ok L w"
  shows "case Atoi val of
      None \<Rightarrow> handleGetBlockByHeight (w_bc w) val = Ok (BadRequest (AtoiError val))
    | Some v \<Rightarrow>
        if v mod 2 ^ 32 \<le> uint (Chain_Height (w_bc w)) then
          \<exists>br x. handleGetBlockByHeight (w_bc w) val = Ok (FoundBlock br) \<and>
            block_header (w_heap w) br = Ok x \<and> uint (hd_Height x) = v mod 2 ^ 32
        else \<exists>e. handleGetBlockByHeight (w_bc w) val = Ok (NotFound e)"
proof (cases "Atoi val")
  case (Some v)
  have u: "uint (word_of_int v :: u32) = v mod 2 ^ 32" by (simp add: uint_word_of_int)
  show ?thesis
  proof (cases "v mod 2 ^ 32 \<le> uint (Chain_Height (w_bc w))")
    case True
    then have "(word_of_int v :: u32) \<le> Chain_Height (w_bc w)" unfolding word_le_def u .
    with GetBlockAt_outcome [OF assms, of "word_of_int v"] obtain br x where
      "GetBlockAt (w_bc w) (word_of_int v) = Ok br" "block_header (w_heap w) br = Ok x" "hd_Height x = word_of_int v" by auto
    with True Some u show ?thesis by (simp add: handleGetBlockByHeight_def)
  next
    case False
    then have "\<not> (word_of_int v :: u32) \<le> Chain_Height (w_bc w)" unfolding word_le_def u .
    with GetBlockAt_outcome [OF assms, of "word_of_int v"] False Some show ?thesis by (simp add: handleGetBlockByHeight_def)
  qed
qed (simp add: handleGetBlockByHeight_def)

lemma api_block_by_height_witness:
  "\<exists>n br x. fresh_node ''A'' n \<and> handleGetBlockByHeight (nd_bc n) ''4294967296'' = Ok (FoundBlock br) \<and>
     block_header (nd_heap n) br = Ok x \<and> uint (hd_Height x) = 0"
proof -
  obtain n where n: "fresh_node ''A'' n" "node_ok demo_lib n" by (rule fresh_node [of "''A''"])
  have a: "Atoi ''4294967296'' = Some 4294967296" by (simp add: Atoi_def)
  have "(4294967296 :: int) mod 2 ^ 32 = 0" by simp
  with api_block_by_height [OF node_okD(1) [OF n(2)], of "''4294967296''"] n(1) show ?thesis
    unfolding a by auto
qed

text \<open>
  C34: what a validator has put into a block can be asked for: after a turn of the block
  producer that returns, the request for the hash of a transaction that was pending,
  printed in hexadecimal, is answered with a transaction of that hash.
\<close>

theorem api_finds_committed_transaction:
  assumes "gob_total L" and "ecdsa_signs L" and "sha256_length L" and "node_ok L n"
    and "createNewBlock L G now rnd n = (Ok (), n')" and "tr \<in> set (Pool_Pending (nd_pool n))"
    and "key = sha256 L (tx_Data (h_txs (nd_heap n) tr))"
  shows "\<exists>r. handleGetTransaction (nd_bc n') (Hash_String key) = Ok (FoundTx r) \<and>
    sha256 L (tx_Data (h_txs (nd_heap n') r)) = key"
proof -
  from createNewBlock_effect [OF assms(1,2,4,5)] assms(6,7) obtain r where
    r: "node_ok L n'" "GetTransaction (nd_bc n') key = Ok r" by blast
  have "length key = 32" using assms(3,7) by (simp add: sha256_length_def)
  then have "HashFromHex (Hash_String key) = Ok key" using HashFromHex_String by blast
  then have "handleGetTransaction (nd_bc n') (Hash_String key) = Ok (FoundTx r)"
    using r(2) by (simp add: handleGetTransaction_def)
  moreover have "keyed_by_hash L (nd_heap n') (ms_data (bc_txStore (nd_bc n')))"
    using node_okD(1) [OF r(1)] by (simp add: chain_ok_def chain_pre_def)
  then have "sha256 L (tx_Data (h_txs (nd_heap n') r)) = key"
    using r(2) by (auto simp: keyed_by_hash_def GetTransaction_def MemStore_Get_def split: option.splits)
  ultimately show ?thesis by blast
qed

theorem api_finds_committed_transaction_witness:
  "\<exists>n n' tr r. Pool_Pending (nd_pool n) = [tr] \<and> createNewBlock demo_lib demo_gob 3 0 n = (Ok (), n') \<and>
     handleGetTransaction (nd_bc n') (Hash_String (sha256 demo_lib store_code)) = Ok (FoundTx r)"
proof -
  obtain n tr where n: "node_ok demo_lib n" "Pool_Pending (nd_pool n) = [tr]" "tx_Data (h_txs (nd_heap n) tr) = store_code"
    "chain_headers (nd_heap n) (nd_bc n) = [genesis]" "nd_key n = \<lparr>pk_key = Some 5\<rparr>"
    by (rule pending_node [of "''A''" demo_gob 7 store_code])
  have "\<forall>r \<in> set (Pool_Pending (nd_pool n)). runs_always (tx_Data (h_txs (nd_heap n) r))"
    using store_code_always by (simp add: n(2,3))
  then obtain n' where n': "createNewBlock demo_lib demo_gob 3 0 n = (Ok (), n')"
    by (rule example_turn_returns [OF n(1,4,5)])
  have "tr \<in> set (Pool_Pending (nd_pool n))" using n(2) by simp
  from api_finds_committed_transaction [OF demo_lib_contracts(5,2,1) n(1) n' this refl] n(2,3) n' show ?thesis by auto
qed

text \<open>
  A hash of the wrong length panics, and one of the right length that is not hexadecimal is
  a bad request.
\<close>

lemma handleGetTransaction_bad_hash:
  "(handleGetTransaction bc q = Panic ExplicitPanic) = ((\<exists>b. DecodeString q = Ok b) \<and> length q \<noteq> 64)"
  "(\<exists>e. handleGetTransaction bc q = Ok (BadRequest e)) = (\<exists>e. DecodeString q = Err e)"
  using HashFromHex_outcome [of q]
  by (cases "HashFromHex q"; auto simp: handleGetTransaction_def GetTransaction_def MemStore_Get_def split: option.split)+

end
