(* ===== verification/Spec2Isabelle.thy ===== *)
theory Spec2Isabelle
  imports Prelude Vm_Stack Vm_State Vm_Machine Vm_Program Vm_Compile Vm_Types Types_List Types_Hash Crypto_Keys Core_Data Core_Coding Core_Transaction
    Core_Block Core_Storage Core_Chain Core_Chain_Inv Core_Chain_Example Core_Chain_Props Core_Replay Core_Ledger
    Server_TxPool Network_Envelope Protocol_Message Server_Node Server_Node_Inv Server_Node_Tx Server_Node_Example
    Server_Node_Props Server_Node_Handlers Server_Node_Sync Server_Run Network_Local Network_Locks Network_Tcp Server_Net
    Server_Transports Server_Spread Server_Cluster Server_Ledger Main_Demo Api_Server
begin

text \<open>
  A verification development for goblockchain, a small blockchain node in Go. This header
  says what the parts of the program are, which theory models which part, what the lemmas
  show, and what is left out.

  \<^bold>\<open>The program.\<close> A node (\<^verbatim>\<open>server/\<close>) receives messages from its peers (\<^verbatim>\<open>network/\<close>,
  \<^verbatim>\<open>protocol/\<close>), keeps signed transactions in a pool (\<^verbatim>\<open>server/txpool.go\<close>), and, if it is a
  validator, builds a block from them on top of its chain (\<^verbatim>\<open>core/\<close>), signs it
  (\<^verbatim>\<open>crypto/\<close>) and sends it to its peers. Inserting a block validates it, runs the data of
  each transaction as a program on a stack machine (\<^verbatim>\<open>vm/\<close>) that writes to the contract
  state of the chain, and stores the header, the block and its transactions.
  \<^verbatim>\<open>types/\<close> has the generic list, the hashes and the addresses; \<^verbatim>\<open>api/\<close> looks blocks and
  transactions up over HTTP.

  \<^bold>\<open>How code is translated.\<close> A Go function that returns a value and an error is a function
  to \<open>result\<close>, whose three constructors are a value, an error and a panic; a method that
  writes to its receiver is an operation of the state monad \<open>go\<close>, whose state survives
  errors and panics. Both are in \<open>Prelude\<close>, with the invariants (\<open>keeps\<close>) and the
  simulations (\<open>sim\<close>) of operations. A struct is a record with the code's fields, an
  integer with a width is a word, a map is a partial function, and objects that are shared
  through pointers (transactions, headers, blocks) live in the memory \<open>heap\<close> of
  \<open>Core_Data\<close>, reached by references. What the code uses of the standard library and
  cannot be read in the repository (SHA-256, gob, elliptic curves) is a record of functions,
  \<open>lib\<close>; a property that relies on the behaviour of one has a contract as a hypothesis
  (\<open>sha256_length\<close>, \<open>ecdsa_signs\<close>, \<open>ecdsa_truncates\<close>, \<open>gob_describes_type_first\<close>,
  \<open>gob_total\<close>, \<open>ecdsa_nonempty\<close>, \<open>no_header_collision\<close>), and \<open>demo_lib\<close> is an instance that
  satisfies them all, used by the witnesses. The coder of the messages is a second parameter,
  \<open>gob\<close>, with the contracts \<open>gob_round_trips\<close> and \<open>gob_omits_empty\<close> (what is decoded is what
  was encoded, but that an empty signature comes back as none). \<open>gob_streams\<close> says the same of
  transactions that follow each other in one buffer. Logging is left out, except where the arguments of a log
  message have an effect. Locks are left out where an operation runs under one.

  \<^bold>\<open>The theories.\<close>

  \<^item> \<open>Vm_Stack\<close> (\<^verbatim>\<open>vm/stack.go\<close>): the array stack; the interface \<open>bounded_stack\<close>, whose
    abstraction to lists the machine's proof uses.
  \<^item> \<open>Vm_State\<close> (\<^verbatim>\<open>vm/state.go\<close>): the contract state; the interfaces \<open>kv_store\<close> and
    \<open>kv_store_delete\<close>.
  \<^item> \<open>Vm_Machine\<close> (\<^verbatim>\<open>vm/vm.go\<close>, \<^verbatim>\<open>vm/instruction.go\<close>): one definition for the execution of
    an instruction (\<open>vm_exec\<close>) and one for the run loop (\<open>vm_run\<close>, which terminates: the
    instruction pointer rises to the length of the program); the machine on lists as the
    specification, and the simulation between the two.
  \<^item> \<open>Vm_Program\<close>: what a run returns: refinement, errors, panics, and the execution of
    operand bytes as instructions.
  \<^item> \<open>Vm_Compile\<close>: a compiler from assignments to programs and its correctness; the
    demonstration transaction of \<^verbatim>\<open>main.go\<close>.
  \<^item> \<open>Vm_Types\<close>: a check of a program on the types of its values, and the proof that the
    machine does not panic on a program that passes it.
  \<^item> \<open>Types_List\<close>, \<open>Types_Hash\<close> (\<^verbatim>\<open>types/\<close>): the generic list over the interface
    \<open>deep_eq\<close> of its comparison; hashes, addresses and hexadecimal strings.
  \<^item> \<open>Crypto_Keys\<close> (\<^verbatim>\<open>crypto/keypair.go\<close>): keys, addresses of keys, signatures.
  \<^item> \<open>Core_Coding\<close> (\<^verbatim>\<open>core/coding.go\<close>): the coders of transactions as operations on what is
    written and what is left to read, and that a sequence of transactions written to one
    buffer is read back; the coders of blocks are in \<open>Protocol_Message\<close>.
  \<^item> \<open>Core_Data\<close>, \<open>Core_Transaction\<close>, \<open>Core_Block\<close> (\<^verbatim>\<open>core/transaction.go\<close>,
    \<^verbatim>\<open>core/block.go\<close>, \<^verbatim>\<open>core/hasher.go\<close>): the objects, their hashes with the caches,
    signing and verifying.
  \<^item> \<open>Core_Storage\<close> (\<^verbatim>\<open>core/storage.go\<close>): the store served by a goroutine, as a sequence
    of requests in any order; it provides \<open>kv_store\<close>.
  \<^item> \<open>Core_Chain\<close> (\<^verbatim>\<open>core/blockchain.go\<close>, \<^verbatim>\<open>core/validator.go\<close>): the header store, the
    lookups, validation and insertion. \<open>Core_Chain_Inv\<close> has the invariant \<open>chain_ok\<close>
    (heights, hash links, index and stores agree) and what each step may change;
    \<open>Core_Chain_Example\<close> a chain with one good and two failing candidate blocks;
    \<open>Core_Chain_Props\<close> the properties: every outcome of an insertion, the lookups, that
    a chain only grows along any run of steps, and that chains with a common block agree
    below it. The chain holds at most \<open>2 ^ 32\<close> headers, because a block above that height
    is never accepted. \<open>Core_Replay\<close> replays the data of the transactions of the blocks on
    the list machine: the reference that the contract state of a chain is equal to.
    \<open>Core_Ledger\<close> has the ledger of a chain, the transactions of its blocks as they are sent
    and hashed: every header commits to its part of it, insertions extend it at its end, the
    contract state is its replay unless a refused block has left writes behind (\<open>intact\<close>),
    and the hash of the last header determines all three.
  \<^item> \<open>Server_TxPool\<close> (\<^verbatim>\<open>server/txpool.go\<close>): the ordered maps and the pool; the interface
    \<open>bounded_key_queue\<close>, which the pool provides for its pending transactions.
  \<^item> \<open>Network_Envelope\<close> (\<^verbatim>\<open>network/tcp_envelope.go\<close>, the read loop of
    \<^verbatim>\<open>network/tcp_transport.go\<close>): the framing, with slices that keep their backing array,
    and the loop over the chunks that the reads of a connection return.
  \<^item> \<open>Protocol_Message\<close> (\<^verbatim>\<open>protocol/\<close>, \<^verbatim>\<open>server/rpc_decode_func.go\<close>): the message types,
    the construction of messages and the extraction of their payloads, over a parameter
    \<open>gob\<close> for the coder; the interface \<open>codec\<close>, which the messages provide.

  \<^item> \<open>Server_Node\<close> (\<^verbatim>\<open>server/server.go\<close>, \<^verbatim>\<open>server/server_internal.go\<close>,
    \<^verbatim>\<open>server/handle_subscribe.go\<close>): the state of a node (its memory and chain, its pool, its
    peers, what it has sent, the errors it has reported), one operation per handler, the
    block producer as two steps, and \<open>node_run\<close>, the runs over messages, transactions over
    HTTP, steps of the producer and changes of the connections in any order. The transport
    is the interface of \<^verbatim>\<open>network/transport.go\<close>: the pipes that are found and what is handed
    to it. \<open>Server_Node_Inv\<close> has the invariant \<open>node_ok\<close> of chain, pool and memory and its
    preservation by every event with every outcome; \<open>Server_Node_Tx\<close> the handling of a
    transaction; \<open>Server_Node_Example\<close> nodes for the witnesses; \<open>Server_Node_Props\<close> the
    runs and the block producer; \<open>Server_Node_Handlers\<close> the handlers of blocks and
    subscriptions; \<open>Server_Node_Sync\<close> the exchange of blocks between two nodes. The loop
    over the blocks (\<open>blocks_loop\<close>) is a partial function, because it does not return at
    the largest height; the theorem says exactly when it does.
  \<^item> \<open>Server_Run\<close> (\<^verbatim>\<open>Start\<close>, \<^verbatim>\<open>receive\<close>, \<^verbatim>\<open>processChannels\<close>, \<^verbatim>\<open>runValidator\<close>): the
    goroutines of a server as step relations over the positions of its loops and the channel
    of errors, with the handlers of \<open>Server_Node\<close>; when \<^verbatim>\<open>Start\<close> can return after a
    cancellation.
  \<^item> \<open>Network_Local\<close> (\<^verbatim>\<open>network/local_transport.go\<close>): transports as objects that refer to
    each other; connecting is a partial function and proved to return. It implements what
    the server relies on (\<open>local_transport_refines_interface\<close>) and the interface
    \<open>message_transport\<close>. \<open>Network_Locks\<close> has the lock of a transport with one goroutine in
    \<^verbatim>\<open>Broadcast\<close> and one in \<^verbatim>\<open>Connect\<close>, as a step relation.
  \<^item> \<open>Network_Tcp\<close> (\<^verbatim>\<open>network/tcp_transport.go\<close>): listening, dialing, accepting, sending and
    the read loops over sockets, each the end of a connection with the bytes that wait there.
    The system chooses the address of a dialing end and how the bytes are cut into reads
    (\<open>chops\<close>: any way that does not cut a length in two).
  \<^item> \<open>Server_Net\<close>: \<^verbatim>\<open>Connect\<close>, \<^verbatim>\<open>Join\<close> and the listings of \<^verbatim>\<open>Peers\<close> of
    \<^verbatim>\<open>server/server.go\<close>. \<open>Server_Transports\<close>: the interface \<open>pipe_transport\<close>, which both
    transports provide, and a subscription over TCP.
  \<^item> \<open>Server_Spread\<close>, \<open>Server_Cluster\<close>: several nodes on local transports. A node follows a
    list of headers when its chain is a part of it and everything it sends carries only blocks
    of it; every handler keeps that. A run of the cluster interleaves handlers, steps of the
    producer, connections, subscriptions and the sends of the transports. \<open>Server_Ledger\<close>
    carries the ledger over to them: the nodes of a cluster with one producer share one.
  \<^item> \<open>Main_Demo\<close> (\<^verbatim>\<open>main.go\<close>): the two nodes of the demonstration, their links, the
    transaction and the comparison at the end, on runs of a cluster.
  \<^item> \<open>Api_Server\<close> (\<^verbatim>\<open>api/server.go\<close>): the handlers of the routes, from the parameter or
    body of a request to the answer.

  \<^bold>\<open>What the theorems show.\<close> Most say that the code does what it means to: a node keeps its
  invariant along every run; a turn of the block producer commits what is pending, and
  succeeds under stated conditions; a node that is behind ends with the chain of the node
  it asks; blocks and transactions are handled as their height and the pool say; several
  nodes with one producer never disagree on a header or a transaction, whatever is delayed;
  the contract state is the replay of the transactions in the blocks, and the hash of the
  last header determines both; messages cross a
  TCP connection both ways in order; programs that pass a type check do not panic. Some state
  the behaviour of the code where it differs from what its messages, tests or comments say:
  a transaction whose program fails stops the validator, one without data crashes it, one
  that comes during a turn is lost; a block without a header crashes its receiver; literals
  that are instruction bytes are executed; signatures cover 32 bytes and so no header; a
  refused block leaves its writes in the contract state; a failing transaction from the
  network panics; the pool accepts a transaction again after it went into a block and its
  record of all transactions outgrows its bound; queued messages share one buffer; a long
  message or a length cut in two panics; a broadcast and a connection can deadlock; a server
  can hang when it is shut down; two producers that have forked never agree again; an accepted TCP connection is not found under the address
  of the peer; a height in a request is taken modulo \<open>2 ^ 32\<close>.

  \<^bold>\<open>Not modelled.\<close> The routing of the HTTP server, the options that only set a
  logger, the closing of TCP connections, and the bytes that gob makes of one value. A handler of a node is one step, although
  the block producer can run beside it: its two steps can come between any two messages, and
  the locks of chain and pool serialise the rest. In a cluster a send to a full channel does
  not happen until there is room. The sleeps of \<^verbatim>\<open>main.go\<close> are runs of any length.
\<close>

end
